(* ===== verification/Go_Prelude.thy ===== *)
theory Go_Prelude
  imports Main "HOL-Library.Char_ord" "HOL-Library.List_Lexorder" "HOL-Library.Product_Lexorder"
    "HOL-Library.Multiset" "HOL-Library.Sublist"
begin

text \<open>
  What the components share of Go and of its standard library: error values with wrapping
  and \<open>errors.Is\<close>, \<open>time.Duration\<close> with its 64-bit wrap-around and truncating
  division, byte strings with \<open>strings.TrimSpace\<close>, UTF-8 validity as \<open>unicode/utf8\<close>
  defines it, and the SQL statements' reading of a table as a list of rows.

  A Go string is a sequence of bytes, so it is a \<^typ>\<open>string\<close> here: an Isabelle character
  is one byte. Times are integers (nanoseconds).
\<close>

named_theorems go_err \<open>simplification of error chains\<close>
named_theorems sql \<open>simplification of SQL statements on row lists\<close>

section \<open>Errors\<close>

text \<open>
  An error value. \<open>Sentinel\<close> is a package-level variable (\<open>var ErrX = errors.New(...)\<close>),
  identified by its text, which is different for every such variable of the repository;
  \<open>Msg\<close> is an error made on the spot; \<open>Wrap\<close> is \<open>fmt.Errorf\<close> with one
  \<open>%w\<close>; \<open>Join\<close> is \<open>errors.Join\<close>; \<open>Ext\<close> is an error handed in by code
  outside the repository, with its text and what it wraps; \<open>Panic\<close> stands for a run-time
  panic, which is not a value in Go but ends the call all the same.
\<close>

datatype goerr =
    Sentinel string
  | Msg string
  | Wrap string goerr
  | Join "goerr list"
  | Ext string "goerr list"
  | Panic string

text \<open>\<open>errors.Is\<close>: the error itself or anything it wraps.\<close>

fun errors_Is :: "goerr \<Rightarrow> goerr \<Rightarrow> bool" where
  "errors_Is (Wrap p e) t \<longleftrightarrow> Wrap p e = t \<or> errors_Is e t"
| "errors_Is (Join es) t \<longleftrightarrow> Join es = t \<or> list_ex (\<lambda>e. errors_Is e t) es"
| "errors_Is (Ext x es) t \<longleftrightarrow> Ext x es = t \<or> list_ex (\<lambda>e. errors_Is e t) es"
| "errors_Is e t \<longleftrightarrow> e = t"

text \<open>\<open>errors.Join\<close> drops nil errors and is nil when nothing is left.\<close>

definition errors_Join :: "goerr option list \<Rightarrow> goerr option" where
  "errors_Join es =
     (let xs = map the (filter (\<lambda>e. e \<noteq> None) es) in if xs = [] then None else Some (Join xs))"

text \<open>
  \<open>Error()\<close>. A quoted argument of a format (\<open>%q\<close>) is written between double
  quotes; the escapes \<open>%q\<close> uses for unusual characters are not expanded (no decision of
  the code depends on them).
\<close>

fun err_text :: "goerr \<Rightarrow> string" where
  "err_text (Sentinel m) = m"
| "err_text (Msg m) = m"
| "err_text (Wrap p e) = p @ '': '' @ err_text e"
| "err_text (Join es) = concat (case map err_text es of [] \<Rightarrow> [] | x # xs \<Rightarrow> x # map (\<lambda>y. CHR 0x0A # y) xs)"
| "err_text (Ext m es) = m"
| "err_text (Panic m) = m"

definition quoted :: "string \<Rightarrow> string" where
  "quoted s = CHR 0x22 # s @ [CHR 0x22]"

lemma errors_Join_None [simp, go_err]: "errors_Join es = None \<longleftrightarrow> (\<forall>e \<in> set es. e = None)"
  by (auto simp: errors_Join_def Let_def filter_empty_conv)

lemma errors_Join_two [simp, go_err]: "errors_Join [Some a, Some b] = Some (Join [a, b])"
  by (simp add: errors_Join_def)

lemma errors_Is_refl [simp, intro, go_err]: "errors_Is e e"
  by (cases e) auto

lemma errors_Is_WrapI [intro, go_err]: "errors_Is e t \<Longrightarrow> errors_Is (Wrap p e) t"
  by simp

lemma errors_Join_Is:
  assumes "Some e \<in> set es" "errors_Is e t"
  shows "\<exists>j. errors_Join es = Some j \<and> errors_Is j t"
proof -
  have "e \<in> set (map the (filter (\<lambda>e. e \<noteq> None) es))"
    using assms(1) by force
  then have "map the (filter (\<lambda>e. e \<noteq> None) es) \<noteq> []"
    and "list_ex (\<lambda>e. errors_Is e t) (map the (filter (\<lambda>e. e \<noteq> None) es))"
    using assms(2) by (auto simp: list_ex_iff simp del: set_map)
  then show ?thesis
    by (simp only: errors_Join_def Let_def if_False errors_Is.simps) simp
qed

section \<open>Integers and durations\<close>

text \<open>
  \<open>int64\<close> arithmetic wraps around: \<open>wrap64\<close> brings the mathematical result back into
  range. Go's integer division truncates towards zero.
\<close>

definition max_int64 :: int where "max_int64 = 2 ^ 63 - 1"

definition wrap64 :: "int \<Rightarrow> int" where
  "wrap64 x = (x + 2 ^ 63) mod 2 ^ 64 - 2 ^ 63"

definition go_div :: "int \<Rightarrow> int \<Rightarrow> int" where
  "go_div a b = sgn a * sgn b * (\<bar>a\<bar> div \<bar>b\<bar>)"

lemma wrap64_id [simp]: "- (2 ^ 63) \<le> x \<Longrightarrow> x \<le> max_int64 \<Longrightarrow> wrap64 x = x"
  by (simp add: wrap64_def max_int64_def)

lemma wrap64_range: "- (2 ^ 63) \<le> wrap64 x \<and> wrap64 x \<le> max_int64"
  by (simp add: wrap64_def max_int64_def)

lemma go_div_nonneg: "0 \<le> a \<Longrightarrow> 0 < b \<Longrightarrow> go_div a b = a div b"
  by (cases "a = 0") (auto simp: go_div_def)

definition Millisecond :: int where "Millisecond = 1000000"
definition Second :: int where "Second = 1000 * Millisecond"
definition Minute :: int where "Minute = 60 * Second"
definition Hour :: int where "Hour = 60 * Minute"

text \<open>\<open>Duration.Milliseconds()\<close>.\<close>

definition Milliseconds :: "int \<Rightarrow> int" where
  "Milliseconds d = go_div d Millisecond"

lemmas duration_defs = Millisecond_def Second_def Minute_def Hour_def

lemma Milliseconds_pos_iff: "0 \<le> d \<Longrightarrow> 0 < Milliseconds d \<longleftrightarrow> Millisecond \<le> d"
  by (auto simp: Milliseconds_def go_div_nonneg Millisecond_def)

section \<open>Decimal numbers\<close>

text \<open>\<open>strconv.Itoa\<close>, the decimal form of \<open>%d\<close>.\<close>

fun digits :: "nat \<Rightarrow> string" where
  "digits n = (if n < 10 then [char_of (48 + n)] else digits (n div 10) @ [char_of (48 + n mod 10)])"

definition Itoa :: "int \<Rightarrow> string" where
  "Itoa i = (if i < 0 then CHR ''-'' # digits (nat (- i)) else digits (nat i))"

declare digits.simps [simp del]

section \<open>Lists\<close>

text \<open>Fields that do not contain the separator can be read back from their concatenation.\<close>

lemma append_sep_inj:
  "x \<notin> set as \<Longrightarrow> x \<notin> set bs \<Longrightarrow> as @ x # r = bs @ x # q \<longleftrightarrow> as = bs \<and> r = q"
proof (induction as arbitrary: bs)
  case Nil
  then show ?case by (cases bs) auto
next
  case (Cons a as)
  then show ?case by (cases bs) auto
qed

end
