(* ===== verification/Go_Strings.thy ===== *)
theory Go_Strings
  imports Go_Prelude
begin

text \<open>
  The parts of \<open>strings\<close> and \<open>unicode/utf8\<close> that the components use, on byte strings:
  \<open>TrimSpace\<close>, UTF-8 validity, \<open>ToValidUTF8\<close>, and the two ways the repository cuts
  a message to a byte limit without splitting a rune.
\<close>

section \<open>Trimming\<close>

text \<open>
  \<open>strip ps s\<close> removes a leading member of \<open>ps\<close> for as long as there is one.
\<close>

function strip :: "string list \<Rightarrow> string \<Rightarrow> string" where
  "strip ps s =
     (case find (\<lambda>p. p \<noteq> [] \<and> prefix p s) ps of
        None \<Rightarrow> s
      | Some p \<Rightarrow> strip ps (drop (length p) s))"
  by pat_completeness auto
termination
  by (relation "measure (\<lambda>(ps, s). length s)") (auto simp: find_Some_iff prefix_def)

declare strip.simps [simp del]

text \<open>
  The UTF-8 encodings of the code points for which \<open>unicode.IsSpace\<close> holds. A rune at
  either end of a string is one of them exactly when the string starts (ends) with its
  encoding, because valid encodings are unique.
\<close>

definition space_runes :: "string list" where
  "space_runes =
     [[CHR 0x20], [CHR 0x09], [CHR 0x0A], [CHR 0x0B], [CHR 0x0C], [CHR 0x0D],
      [CHR 0xC2, CHR 0x85], [CHR 0xC2, CHR 0xA0], [CHR 0xE1, CHR 0x9A, CHR 0x80],
      [CHR 0xE2, CHR 0x80, CHR 0x80], [CHR 0xE2, CHR 0x80, CHR 0x81], [CHR 0xE2, CHR 0x80, CHR 0x82],
      [CHR 0xE2, CHR 0x80, CHR 0x83], [CHR 0xE2, CHR 0x80, CHR 0x84], [CHR 0xE2, CHR 0x80, CHR 0x85],
      [CHR 0xE2, CHR 0x80, CHR 0x86], [CHR 0xE2, CHR 0x80, CHR 0x87], [CHR 0xE2, CHR 0x80, CHR 0x88],
      [CHR 0xE2, CHR 0x80, CHR 0x89], [CHR 0xE2, CHR 0x80, CHR 0x8A], [CHR 0xE2, CHR 0x80, CHR 0xA8],
      [CHR 0xE2, CHR 0x80, CHR 0xA9], [CHR 0xE2, CHR 0x80, CHR 0xAF], [CHR 0xE2, CHR 0x81, CHR 0x9F],
      [CHR 0xE3, CHR 0x80, CHR 0x80]]"

definition TrimLeftSpace :: "string \<Rightarrow> string" where
  "TrimLeftSpace s = strip space_runes s"

definition TrimRightSpace :: "string \<Rightarrow> string" where
  "TrimRightSpace s = rev (strip (map rev space_runes) (rev s))"

definition TrimSpace :: "string \<Rightarrow> string" where
  "TrimSpace s = TrimRightSpace (TrimLeftSpace s)"

definition starts_with_any :: "string list \<Rightarrow> string \<Rightarrow> bool" where
  "starts_with_any ps s \<longleftrightarrow> list_ex (\<lambda>p. p \<noteq> [] \<and> prefix p s) ps"

lemma strip_None:
  "find (\<lambda>p. p \<noteq> [] \<and> prefix p s) ps = None \<Longrightarrow> strip ps s = s"
  by (subst strip.simps) simp

lemma strip_Some:
  "find (\<lambda>p. p \<noteq> [] \<and> prefix p s) ps = Some p \<Longrightarrow> strip ps s = strip ps (drop (length p) s)"
  by (subst strip.simps) simp

lemma find_starts:
  "find (\<lambda>p. p \<noteq> [] \<and> prefix p s) ps = None \<longleftrightarrow> \<not> starts_with_any ps s"
  by (auto simp: starts_with_any_def list_ex_iff find_None_iff)

lemma strip_id: "\<not> starts_with_any ps s \<Longrightarrow> strip ps s = s"
  by (simp add: strip_None find_starts)

lemma strip_stops: "\<not> starts_with_any ps (strip ps s)"
proof (induction ps s rule: strip.induct)
  case (1 ps s)
  show ?case
  proof (cases "find (\<lambda>p. p \<noteq> [] \<and> prefix p s) ps")
    case None
    then show ?thesis by (simp add: strip_None find_starts)
  next
    case (Some p)
    then show ?thesis using "1.IH"[OF Some] by (simp add: strip_Some)
  qed
qed

lemma strip_suffix: "suffix (strip ps s) s"
proof (induction ps s rule: strip.induct)
  case (1 ps s)
  show ?case
  proof (cases "find (\<lambda>p. p \<noteq> [] \<and> prefix p s) ps")
    case None
    then show ?thesis by (simp add: strip_None)
  next
    case (Some p)
    have "suffix (strip ps (drop (length p) s)) s"
      using "1.IH"[OF Some] suffix_drop suffix_order.trans by blast
    with Some show ?thesis by (simp add: strip_Some)
  qed
qed

lemma strip_idem [simp]: "strip ps (strip ps s) = strip ps s"
  by (rule strip_id[OF strip_stops])

lemma starts_with_any_prefix:
  "prefix t s \<Longrightarrow> starts_with_any ps t \<Longrightarrow> starts_with_any ps s"
  unfolding starts_with_any_def list_ex_iff using prefix_order.trans by blast

lemma TrimRightSpace_prefix: "prefix (TrimRightSpace s) s"
  using strip_suffix[of "map rev space_runes" "rev s"]
  by (simp add: TrimRightSpace_def suffix_to_prefix)

lemma TrimSpace_ends:
  "\<not> starts_with_any space_runes (TrimSpace s)"
  "\<not> starts_with_any (map rev space_runes) (rev (TrimSpace s))"
proof -
  have "\<not> starts_with_any space_runes (TrimLeftSpace s)"
    by (simp add: TrimLeftSpace_def strip_stops)
  then show "\<not> starts_with_any space_runes (TrimSpace s)"
    unfolding TrimSpace_def using TrimRightSpace_prefix starts_with_any_prefix by blast
  show "\<not> starts_with_any (map rev space_runes) (rev (TrimSpace s))"
    by (simp add: TrimSpace_def TrimRightSpace_def strip_stops)
qed

text \<open>A string is trimmed when neither end is a space.\<close>

lemma TrimSpace_id:
  assumes "\<not> starts_with_any space_runes s" "\<not> starts_with_any (map rev space_runes) (rev s)"
  shows "TrimSpace s = s"
  using assms by (simp add: TrimSpace_def TrimLeftSpace_def TrimRightSpace_def strip_id)

lemma TrimSpace_idem [simp]: "TrimSpace (TrimSpace s) = TrimSpace s"
  by (rule TrimSpace_id) (rule TrimSpace_ends)+

lemma TrimSpace_Nil [simp]: "TrimSpace [] = []"
  by (rule TrimSpace_id) (simp_all add: starts_with_any_def list_ex_iff)

section \<open>UTF-8\<close>

abbreviation byte :: "char \<Rightarrow> nat" where "byte c \<equiv> of_char c"

text \<open>A continuation byte: \<open>b & 0xc0 == 0x80\<close>.\<close>

definition cont :: "char \<Rightarrow> bool" where
  "cont c \<longleftrightarrow> byte c div 64 = 2"

text \<open>
  The length of the encoding that a first byte announces (0: no encoding starts with it), and the
  range it leaves for the second byte (the accept ranges of \<open>unicode/utf8\<close>).
\<close>

definition rune_need :: "char \<Rightarrow> nat" where
  "rune_need a =
     (let n = byte a in
      if n < 0x80 then 1 else if 0xC2 \<le> n \<and> n \<le> 0xDF then 2
      else if 0xE0 \<le> n \<and> n \<le> 0xEF then 3 else if 0xF0 \<le> n \<and> n \<le> 0xF4 then 4 else 0)"

definition second_ok :: "char \<Rightarrow> char \<Rightarrow> bool" where
  "second_ok a b \<longleftrightarrow>
     (byte a = 0xE0 \<longrightarrow> 0xA0 \<le> byte b) \<and> (byte a = 0xED \<longrightarrow> byte b \<le> 0x9F) \<and>
     (byte a = 0xF0 \<longrightarrow> 0x90 \<le> byte b) \<and> (byte a = 0xF4 \<longrightarrow> byte b \<le> 0x8F)"

text \<open>The width of the valid rune encoding at the head of a byte string, 0 when there is none.\<close>

definition utf8_width :: "string \<Rightarrow> nat" where
  "utf8_width s =
     (case s of
        [] \<Rightarrow> 0
      | a # t \<Rightarrow>
          let n = rune_need a in
          if n \<le> length s \<and> list_all cont (take (n - 1) t) \<and> (2 \<le> n \<longrightarrow> second_ok a (hd t))
          then n else 0)"

text \<open>\<open>utf8.ValidString\<close>.\<close>

function valid_utf8 :: "string \<Rightarrow> bool" where
  "valid_utf8 s =
     (if s = [] then True
      else if utf8_width s = 0 then False
      else valid_utf8 (drop (utf8_width s) s))"
  by pat_completeness auto
termination
  by (relation "measure length") auto

declare valid_utf8.simps [simp del]

lemma valid_utf8_Nil [simp]: "valid_utf8 []"
  by (simp add: valid_utf8.simps)

lemma utf8_width_le: "utf8_width s \<le> length s"
  by (auto simp: utf8_width_def Let_def split: list.splits)

lemma utf8_width_cont:
  assumes "0 < i" "i < utf8_width s"
  shows "cont (s ! i)"
proof (cases s)
  case Nil
  with assms show ?thesis by (simp add: utf8_width_def)
next
  case (Cons a t)
  with assms have i: "i - 1 < length (take (rune_need a - 1) t)" and c: "list_all cont (take (rune_need a - 1) t)"
    by (auto simp: utf8_width_def Let_def split: if_splits)
  from c i have "cont (take (rune_need a - 1) t ! (i - 1))" unfolding list_all_length by blast
  with i Cons assms(1) show ?thesis by (simp add: nth_Cons')
qed

lemma utf8_width_take:
  assumes "0 < utf8_width s" "utf8_width s \<le> i"
  shows "utf8_width (take i s) = utf8_width s"
  using assms
  by (cases s; cases i; cases "tl s") (auto simp: utf8_width_def Let_def min_def take_Cons' split: if_splits)

lemma utf8_width_append:
  assumes "0 < utf8_width s"
  shows "utf8_width (s @ t) = utf8_width s"
  using assms by (cases s) (auto simp: utf8_width_def Let_def hd_append split: if_splits)

lemma valid_utf8_step:
  "s \<noteq> [] \<Longrightarrow> valid_utf8 s \<longleftrightarrow> 0 < utf8_width s \<and> valid_utf8 (drop (utf8_width s) s)"
  by (subst valid_utf8.simps) simp

lemma valid_utf8_append:
  "valid_utf8 s \<Longrightarrow> valid_utf8 t \<Longrightarrow> valid_utf8 (s @ t)"
proof (induction s rule: valid_utf8.induct)
  case (1 s)
  show ?case
  proof (cases "s = []")
    case True
    with "1.prems" show ?thesis by simp
  next
    case False
    with "1.prems" have w: "0 < utf8_width s" and v: "valid_utf8 (drop (utf8_width s) s)"
      by (simp_all add: valid_utf8_step)
    from "1.IH"[OF False _ v "1.prems"(2)] w
    have "valid_utf8 (drop (utf8_width s) s @ t)" by simp
    with w utf8_width_le[of s] False show ?thesis
      by (simp add: valid_utf8_step[of "s @ t"] utf8_width_append)
  qed
qed

lemma valid_utf8_ascii: "byte c < 0x80 \<Longrightarrow> valid_utf8 [c]"
  by (simp add: valid_utf8_step utf8_width_def rune_need_def Let_def)

lemma valid_utf8_rune:
  assumes "0 < utf8_width s"
  shows "valid_utf8 (take (utf8_width s) s)"
proof -
  have "take (utf8_width s) s \<noteq> []" using assms by (cases s) (auto simp: utf8_width_def)
  then show ?thesis
    using assms by (simp add: valid_utf8_step utf8_width_take)
qed

text \<open>
  Cutting a valid string just before a byte that is not a continuation byte keeps it valid.
\<close>

lemma valid_utf8_take:
  assumes "valid_utf8 s" "i \<le> length s" "i = length s \<or> \<not> cont (s ! i)"
  shows "valid_utf8 (take i s)"
  using assms
proof (induction s arbitrary: i rule: valid_utf8.induct)
  case (1 s)
  show ?case
  proof (cases "s = [] \<or> i = 0")
    case True
    then show ?thesis by auto
  next
    case False
    let ?w = "utf8_width s"
    from False "1.prems"(1) have w: "0 < ?w" and v: "valid_utf8 (drop ?w s)"
      by (simp_all add: valid_utf8_step)
    have wi: "?w \<le> i"
    proof (rule ccontr)
      assume "\<not> ?w \<le> i"
      with False have "cont (s ! i)" by (intro utf8_width_cont) auto
      moreover from \<open>\<not> ?w \<le> i\<close> utf8_width_le[of s] have "i \<noteq> length s" by simp
      ultimately show False using "1.prems"(3) by simp
    qed
    have "i - ?w \<le> length (drop ?w s)" using "1.prems"(2) by simp
    moreover have "i - ?w = length (drop ?w s) \<or> \<not> cont (drop ?w s ! (i - ?w))"
      using "1.prems"(2,3) wi by auto
    ultimately have "valid_utf8 (take (i - ?w) (drop ?w s))"
      using "1.IH" False w v by simp
    then show ?thesis
      using False w wi by (simp add: valid_utf8_step[of "take i s"] utf8_width_take drop_take)
  qed
qed

text \<open>Trimming white space removes whole runes, so a valid string stays valid.\<close>

lemma space_runes_utf8: "\<forall>p \<in> set space_runes. utf8_width p = length p \<and> p \<noteq> [] \<and> \<not> cont (hd p)"
  by code_simp

lemma find_prefix_Some:
  assumes "find (\<lambda>p. p \<noteq> [] \<and> prefix p s) ps = Some p"
  shows "p \<in> set ps" "p \<noteq> []" "prefix p s"
  using assms by (auto simp: find_Some_iff)

lemma TrimLeftSpace_valid: "valid_utf8 s \<Longrightarrow> valid_utf8 (TrimLeftSpace s)"
  unfolding TrimLeftSpace_def
proof (induction "space_runes" s rule: strip.induct)
  case (1 s)
  show ?case
  proof (cases "find (\<lambda>p. p \<noteq> [] \<and> prefix p s) space_runes")
    case None
    with 1 show ?thesis by (simp add: strip_None)
  next
    case (Some p)
    note p = find_prefix_Some[OF Some]
    obtain u where u: "s = p @ u" using p(3) by (auto simp: prefix_def)
    have "utf8_width s = length p" using p(1,2) space_runes_utf8 utf8_width_append[of p u] u by auto
    then have "valid_utf8 (drop (length p) s)" using 1(2) u p(2) by (metis append_is_Nil_conv valid_utf8_step)
    with 1(1)[OF Some] Some show ?thesis by (simp add: strip_Some)
  qed
qed

lemma TrimRightSpace_valid:
  assumes "valid_utf8 s"
  shows "valid_utf8 (TrimRightSpace s)"
proof -
  have "valid_utf8 (rev t) \<Longrightarrow> valid_utf8 (rev (strip (map rev space_runes) t))" for t
  proof (induction "map rev space_runes" t rule: strip.induct)
    case (1 t)
    show ?case
    proof (cases "find (\<lambda>p. p \<noteq> [] \<and> prefix p t) (map rev space_runes)")
      case None
      with 1 show ?thesis by (simp add: strip_None)
    next
      case (Some q)
      note q = find_prefix_Some[OF Some]
      obtain u where u: "t = q @ u" using q(3) by (auto simp: prefix_def)
      have c: "rev q \<noteq> []" "\<not> cont (hd (rev q))" using q(1,2) space_runes_utf8 by auto
      then have "\<not> cont (rev t ! length u)" by (simp add: u nth_append hd_conv_nth)
      then have "valid_utf8 (take (length u) (rev t))" using 1(2) u by (intro valid_utf8_take) auto
      with 1(1)[OF Some] Some u show ?thesis by (simp add: strip_Some)
    qed
  qed
  from this[of "rev s"] assms show ?thesis by (simp add: TrimRightSpace_def)
qed

lemma TrimSpace_valid: "valid_utf8 s \<Longrightarrow> valid_utf8 (TrimSpace s)"
  by (simp add: TrimSpace_def TrimLeftSpace_valid TrimRightSpace_valid)

lemma valid_utf8_all_ascii: "\<forall>c \<in> set s. byte c < 0x80 \<Longrightarrow> valid_utf8 s"
proof (induction s)
  case (Cons c s)
  then show ?case using valid_utf8_append[of "[c]" s] valid_utf8_ascii[of c] by simp
qed simp

section \<open>Replacing invalid bytes, cutting at a byte limit\<close>

text \<open>
  \<open>strings.ToValidUTF8\<close>: a run of invalid bytes becomes one replacement. The flag says
  whether the byte before was invalid.
\<close>

function to_valid :: "bool \<Rightarrow> string \<Rightarrow> string \<Rightarrow> string" where
  "to_valid bad rep s =
     (if s = [] then []
      else if utf8_width s = 0 then (if bad then [] else rep) @ to_valid True rep (drop 1 s)
      else take (utf8_width s) s @ to_valid False rep (drop (utf8_width s) s))"
  by pat_completeness auto
termination
  by (relation "measure (\<lambda>(bad, rep, s). length s)") auto

declare to_valid.simps [simp del]

definition ToValidUTF8 :: "string \<Rightarrow> string \<Rightarrow> string" where
  "ToValidUTF8 s rep = to_valid False rep s"

lemma valid_to_valid: "valid_utf8 rep \<Longrightarrow> valid_utf8 (to_valid bad rep s)"
proof (induction bad rep s rule: to_valid.induct)
  case (1 bad rep s)
  consider "s = []" | "s \<noteq> []" "utf8_width s = 0" | "s \<noteq> []" "0 < utf8_width s" by auto
  then show ?case
  proof cases
    case 1
    then show ?thesis by (simp add: to_valid.simps)
  next
    case 2
    then show ?thesis
      using "1.IH"(1) "1.prems" by (subst to_valid.simps) (auto intro: valid_utf8_append)
  next
    case 3
    then show ?thesis
      using "1.IH"(2) "1.prems" by (subst to_valid.simps) (auto intro: valid_utf8_append valid_utf8_rune)
  qed
qed

lemma to_valid_id: "valid_utf8 s \<Longrightarrow> to_valid bad rep s = s"
proof (induction bad rep s rule: to_valid.induct)
  case (1 bad rep s)
  show ?case
  proof (cases "s = []")
    case True
    then show ?thesis by (simp add: to_valid.simps)
  next
    case False
    then show ?thesis
      using "1.IH"(2) "1.prems" by (subst to_valid.simps) (simp add: valid_utf8_step)
  qed
qed

text \<open>Walking a cut point back over continuation bytes (\<open>for limit > 0 && v[limit]&0xc0 == 0x80\<close>).\<close>

fun back_off :: "string \<Rightarrow> nat \<Rightarrow> nat" where
  "back_off v 0 = 0"
| "back_off v (Suc n) = (if cont (v ! Suc n) then back_off v n else Suc n)"

lemma back_off_le: "back_off v n \<le> n"
  by (induction n) auto

lemma back_off_stops: "back_off v n = 0 \<or> \<not> cont (v ! back_off v n)"
  by (induction n) auto

lemma back_off_skips: "back_off v n < i \<Longrightarrow> i \<le> n \<Longrightarrow> cont (v ! i)"
  by (induction n) (auto split: if_splits simp: le_Suc_eq)

lemma utf8_width_start: "0 < utf8_width s \<Longrightarrow> \<not> cont (s ! 0) \<and> utf8_width s \<le> 4"
  by (cases s) (auto simp: utf8_width_def rune_need_def cont_def Let_def split: if_splits)

text \<open>Valid UTF-8 has no four continuation bytes in a row, so moving back stops within three bytes.\<close>

lemma valid_utf8_start:
  assumes "valid_utf8 s" "i + 3 < length s"
  shows "\<exists>j. i \<le> j \<and> j \<le> i + 3 \<and> \<not> cont (s ! j)"
  using assms
proof (induction s arbitrary: i rule: valid_utf8.induct)
  case (1 s)
  have w: "0 < utf8_width s" "valid_utf8 (drop (utf8_width s) s)"
    using "1.prems" valid_utf8_step[of s] by force+
  note st = utf8_width_start[OF w(1)]
  show ?case
  proof (cases "i < utf8_width s")
    case True
    show ?thesis
    proof (cases "i = 0")
      case False
      then have "utf8_width s \<le> i + 3" using st by simp
      moreover have "0 < utf8_width (drop (utf8_width s) s)"
        using w(2) valid_utf8_step[of "drop (utf8_width s) s"] "1.prems"(2) calculation by auto
      ultimately show ?thesis
        using True utf8_width_start[of "drop (utf8_width s) s"] "1.prems"(2)
        by (intro exI[of _ "utf8_width s"]) auto
    qed (use st in auto)
  next
    case False
    then obtain k where k: "i = utf8_width s + k" by (metis le_add_diff_inverse not_less)
    have "\<exists>j. k \<le> j \<and> j \<le> k + 3 \<and> \<not> cont (drop (utf8_width s) s ! j)"
      using "1.prems"(2) w k by (intro "1.IH") auto
    then obtain j where "k \<le> j" "j \<le> k + 3" "\<not> cont (drop (utf8_width s) s ! j)" by blast
    then show ?thesis using k "1.prems"(2) by (intro exI[of _ "utf8_width s + j"]) auto
  qed
qed

lemma back_off_near:
  assumes "valid_utf8 s" "n < length s"
  shows "n \<le> back_off s n + 3"
proof (rule ccontr)
  assume "\<not> n \<le> back_off s n + 3"
  moreover from this have "back_off s n + 1 + 3 < length s" using assms(2) by simp
  ultimately show False
    using valid_utf8_start[OF assms(1), of "back_off s n + 1"] back_off_skips[of s n] by force
qed

lemma invalid_nonempty: "\<not> valid_utf8 s \<Longrightarrow> s \<noteq> []"
  by auto

text \<open>Dropping bytes off the end until the rest is valid.\<close>

function drop_invalid_tail :: "string \<Rightarrow> string" where
  "drop_invalid_tail s = (if valid_utf8 s then s else drop_invalid_tail (butlast s))"
  by pat_completeness auto
termination
  by (relation "measure length") (auto dest: invalid_nonempty)

declare drop_invalid_tail.simps [simp del]

lemma drop_invalid_tail_valid: "valid_utf8 (drop_invalid_tail s)"
  by (induction s rule: drop_invalid_tail.induct) (subst drop_invalid_tail.simps, simp)

lemma drop_invalid_tail_prefix: "prefix (drop_invalid_tail s) s"
proof (induction s rule: drop_invalid_tail.induct)
  case (1 s)
  show ?case
  proof (cases "valid_utf8 s")
    case True
    then show ?thesis by (subst drop_invalid_tail.simps) simp
  next
    case False
    then have "prefix (drop_invalid_tail (butlast s)) s"
      using 1 prefixeq_butlast prefix_order.trans by blast
    with False show ?thesis by (subst drop_invalid_tail.simps) simp
  qed
qed

section \<open>Control characters\<close>

text \<open>
  \<open>strings.IndexFunc(s, unicode.IsControl) >= 0\<close>: some character of the text is in
  U+0000..U+001F or U+007F..U+009F. A byte that starts no encoding counts as U+FFFD, which is not.
\<close>

definition control_rune :: "string \<Rightarrow> bool" where
  "control_rune s =
     (case s of
        [] \<Rightarrow> False
      | [a] \<Rightarrow> byte a < 0x20 \<or> byte a = 0x7F
      | a # b # t \<Rightarrow> t = [] \<and> byte a = 0xC2 \<and> byte b < 0xA0)"

function has_control :: "string \<Rightarrow> bool" where
  "has_control s =
     (if s = [] then False
      else if utf8_width s = 0 then has_control (drop 1 s)
      else control_rune (take (utf8_width s) s) \<or> has_control (drop (utf8_width s) s))"
  by pat_completeness auto
termination
  by (relation "measure length") auto

declare has_control.simps [simp del]

end
