(* ===== verification/Redis.thy ===== *)
theory Redis
  imports Go_Strings "HOL-Library.AList"
begin

text \<open>
  The Redis commands the repository relies on. The server is not part of the repository: it is
  a record of commands, an argument of every definition that talks to it, and the laws of the
  command reference that the code depends on are the assumptions of the locale
  \<open>redis_server\<close>. \<open>mem_redis\<close> is a keyspace that satisfies them, so the laws are
  consistent and the operations can be run on concrete states.
\<close>

section \<open>Commands and their laws\<close>

record 's redis =
  EXISTS :: "'s \<Rightarrow> string \<Rightarrow> bool"
  HGET :: "'s \<Rightarrow> string \<Rightarrow> string \<Rightarrow> string option"
  HSET :: "'s \<Rightarrow> string \<Rightarrow> (string \<times> string) list \<Rightarrow> 's"
  HDEL :: "'s \<Rightarrow> string \<Rightarrow> string \<Rightarrow> 's"
  PEXPIRE :: "'s \<Rightarrow> string \<Rightarrow> int \<Rightarrow> 's"
  DEL :: "'s \<Rightarrow> string \<Rightarrow> 's"
  PTTL :: "'s \<Rightarrow> string \<Rightarrow> int option"

text \<open>
  A hash is what \<open>HGET\<close> shows of a key. A key exists when it has a field; \<open>PEXPIRE\<close>
  with a positive time keeps the fields and sets the time to live, otherwise it deletes the key.
  The removal of a key whose time has run out shows the same as \<open>DEL\<close>.
\<close>

locale redis_server =
  fixes R :: "'s redis"
  assumes exists_iff: "EXISTS R s k \<longleftrightarrow> (\<exists>f. HGET R s k f \<noteq> None)"
    and hget_hset: "HGET R (HSET R s k fvs) = (HGET R s)(k := HGET R s k ++ map_of (rev fvs))"
    and hget_hdel: "HGET R (HDEL R s k f) = (HGET R s)(k := (HGET R s k)(f := None))"
    and hget_pexpire: "0 < ms \<Longrightarrow> HGET R (PEXPIRE R s k ms) = HGET R s"
    and hget_pexpire_past: "ms \<le> 0 \<Longrightarrow> HGET R (PEXPIRE R s k ms) = (HGET R s)(k := Map.empty)"
    and hget_del: "HGET R (DEL R s k) = (HGET R s)(k := Map.empty)"
    and pttl_pexpire: "0 < ms \<Longrightarrow> EXISTS R s k \<Longrightarrow> PTTL R (PEXPIRE R s k ms) k = Some ms"
begin

lemmas commands = hget_hset hget_hdel hget_pexpire hget_del

lemma exists_empty: "HGET R s k = Map.empty \<Longrightarrow> \<not> EXISTS R s k"
  by (simp add: exists_iff)

lemma exists_field: "HGET R s k f = Some v \<Longrightarrow> EXISTS R s k"
  by (auto simp: exists_iff)

end

section \<open>A keyspace that satisfies the laws\<close>

text \<open>Fields and time to live per key; a key without fields does not exist.\<close>

type_synonym keyspace = "(string \<Rightarrow> (string \<times> string) list) \<times> (string \<Rightarrow> int option)"

definition mem_redis :: "keyspace redis" where
  "mem_redis =
     \<lparr>EXISTS = (\<lambda>(h, t) k. h k \<noteq> []),
      HGET = (\<lambda>(h, t) k. map_of (h k)),
      HSET = (\<lambda>(h, t) k fvs. (h(k := rev fvs @ h k), t)),
      HDEL = (\<lambda>(h, t) k f. (h(k := AList.delete f (h k)), t)),
      PEXPIRE = (\<lambda>(h, t) k ms. if 0 < ms then (h, t(k := if h k = [] then None else Some ms))
                                else (h(k := []), t(k := None))),
      DEL = (\<lambda>(h, t) k. (h(k := []), t(k := None))),
      PTTL = (\<lambda>(h, t) k. t k)\<rparr>"

definition empty_keyspace :: keyspace where
  "empty_keyspace = (\<lambda>_. [], \<lambda>_. None)"

lemma map_of_some_field: "xs \<noteq> [] \<longleftrightarrow> (\<exists>f v. map_of xs f = Some v)"
  by (cases xs) (auto intro: exI[of _ "fst (hd xs)"])

interpretation mem: redis_server mem_redis
proof (unfold_locales, goal_cases)
  case (1 s k)
  then show ?case by (cases s) (simp add: mem_redis_def map_of_some_field)
next
  case (2 s k fvs)
  then show ?case by (cases s) (auto simp: mem_redis_def)
next
  case (3 s k f)
  then show ?case by (cases s) (auto simp: mem_redis_def fun_eq_iff delete_conv')
next
  case (4 ms s k)
  then show ?case by (cases s) (simp add: mem_redis_def)
next
  case (5 ms s k)
  then show ?case by (cases s) (auto simp: mem_redis_def)
next
  case (6 s k)
  then show ?case by (cases s) (auto simp: mem_redis_def)
next
  case (7 ms s k)
  then show ?case by (cases s) (simp add: mem_redis_def)
qed

section \<open>Calls over the network\<close>

text \<open>
  A call may be served, may fail before the server runs it, or may be run although the caller
  sees an error because the reply was lost. Scripts run atomically.
\<close>

datatype link = Served | Unserved goerr | ReplyLost goerr

definition Run :: "link \<Rightarrow> ('s \<Rightarrow> 'r \<times> 's) \<Rightarrow> 's \<Rightarrow> (goerr + 'r) \<times> 's" where
  "Run l script s =
     (case l of
        Served \<Rightarrow> (Inr (fst (script s)), snd (script s))
      | Unserved e \<Rightarrow> (Inl e, s)
      | ReplyLost e \<Rightarrow> (Inl e, snd (script s)))"

lemma Run_Inr: "Run l script s = (Inr r, s') \<longleftrightarrow> l = Served \<and> script s = (r, s')"
  by (cases l) (auto simp: Run_def prod_eq_iff)

text \<open>Whether the server runs a call.\<close>

definition executed :: "link \<Rightarrow> bool" where
  "executed l \<longleftrightarrow> (case l of Unserved _ \<Rightarrow> False | _ \<Rightarrow> True)"

lemma executed_Served [simp]: "executed Served"
  by (simp add: executed_def)

lemma Run_state: "snd (Run l script s) = (if executed l then snd (script s) else s)"
  by (cases l) (auto simp: Run_def executed_def)

end
