(* ===== verification/Idempotency.thy ===== *)
theory Idempotency
  imports Redis
begin

text \<open>
  The idempotency manager (\<open>src/idempotency/manager.go\<close>): the record kept in Redis for a
  request key, the Lua scripts that move it, the manager's operations over a network that may
  lose calls or replies, and the renewal loop of a lease. The lemmas show that the scripts
  implement a four-state machine and, over any sequence of operations by any callers, that a key
  has one owner at a time and that a finished request is replayed and never executed again.
\<close>

section \<open>Types of the package\<close>

definition ErrOwnershipExpired :: goerr where
  "ErrOwnershipExpired = Sentinel ''idempotency ownership expired''"
definition ErrResponseTooLarge :: goerr where
  "ErrResponseTooLarge = Sentinel ''idempotency response is too large''"

definition defaultMaxResponseBytes :: int where "defaultMaxResponseBytes = 2 ^ 20"

definition StateAcquired :: string where "StateAcquired = ''acquired''"
definition StateProcessing :: string where "StateProcessing = ''processing''"
definition StateCompleted :: string where "StateCompleted = ''completed''"
definition StateFailed :: string where "StateFailed = ''failed''"
definition StateConflict :: string where "StateConflict = ''conflict''"

lemmas State_defs =
  StateAcquired_def StateProcessing_def StateCompleted_def StateFailed_def StateConflict_def

record Config =
  cfgEnabled :: bool
  cfgService :: string
  cfgProcessingTTL :: int
  cfgResultTTL :: int
  cfgFailureTTL :: int
  cfgMaxResponseBytes :: int

record Failure =
  fCode :: int
  fMessage :: string
  fHTTPStatus :: int
  fGRPCCode :: int

definition no_failure :: Failure where
  "no_failure = \<lparr>fCode = 0, fMessage = [], fHTTPStatus = 0, fGRPCCode = 0\<rparr>"

record Decision =
  dState :: string
  dResponse :: "string option"
  dFailure :: Failure
  dOwner :: string

record 's Manager =
  client :: "'s redis option"
  cfg :: Config

text \<open>
  \<open>encoding/json\<close> on the response and on \<open>Failure\<close>, as functions the manager is given.
\<close>

record 'r json_lib =
  Marshal :: "'r \<Rightarrow> goerr + string"
  MarshalFailure :: "Failure \<Rightarrow> goerr + string"
  UnmarshalFailure :: "string \<Rightarrow> goerr + Failure"

definition New :: "'s redis option \<Rightarrow> Config \<Rightarrow> 's Manager" where
  "New c g =
     \<lparr>client = c,
      cfg = (if cfgMaxResponseBytes g \<le> 0
             then g\<lparr>cfgMaxResponseBytes := defaultMaxResponseBytes\<rparr> else g)\<rparr>"

text \<open>\<open>Enabled\<close> may be called on a nil manager.\<close>

definition Enabled :: "'s Manager option \<Rightarrow> bool" where
  "Enabled m = (case m of None \<Rightarrow> False | Some m \<Rightarrow> cfgEnabled (cfg m))"

definition storageKey :: "'s Manager \<Rightarrow> string \<Rightarrow> string" where
  "storageKey m key = ''idempotency:'' @ cfgService (cfg m) @ '':'' @ key"

definition unavailable :: goerr where
  "unavailable = Msg ''idempotency is unavailable''"

section \<open>The Lua scripts\<close>

definition or_empty :: "string option \<Rightarrow> string" where
  "or_empty v = (case v of None \<Rightarrow> [] | Some x \<Rightarrow> x)"

definition beginScript ::
  "'s redis \<Rightarrow> string \<Rightarrow> string \<Rightarrow> int \<Rightarrow> string \<Rightarrow> 's \<Rightarrow> string list \<times> 's" where
  "beginScript R key fingerprint ttl owner s =
     (if \<not> EXISTS R s key then
        (let s1 = HSET R s key [(''state'', ''processing''), (''fingerprint'', fingerprint), (''owner'', owner)];
             s2 = PEXPIRE R s1 key ttl
         in ([''acquired'', [], []], s2))
      else if HGET R s key ''fingerprint'' \<noteq> Some fingerprint then ([''conflict'', [], []], s)
      else ([case HGET R s key ''state'' of None \<Rightarrow> ''processing'' | Some st \<Rightarrow> st,
             or_empty (HGET R s key ''response''), or_empty (HGET R s key ''failure'')], s))"

definition not_owner :: "'s redis \<Rightarrow> string \<Rightarrow> string \<Rightarrow> 's \<Rightarrow> bool" where
  "not_owner R key owner s \<longleftrightarrow>
     HGET R s key ''state'' \<noteq> Some ''processing'' \<or> HGET R s key ''owner'' \<noteq> Some owner"

definition renewScript :: "'s redis \<Rightarrow> string \<Rightarrow> string \<Rightarrow> int \<Rightarrow> 's \<Rightarrow> int \<times> 's" where
  "renewScript R key owner ttl s =
     (if not_owner R key owner s then (0, s) else (1, PEXPIRE R s key ttl))"

definition finishScript ::
  "'s redis \<Rightarrow> string \<Rightarrow> string \<Rightarrow> string \<Rightarrow> string \<Rightarrow> string \<Rightarrow> int \<Rightarrow> 's \<Rightarrow> int \<times> 's" where
  "finishScript R key owner state field encoded ttl s =
     (if not_owner R key owner s then (0, s)
      else
        let s1 = HSET R s key [(''state'', state), (field, encoded)];
            s2 = HDEL R s1 key ''owner'';
            s3 = PEXPIRE R s2 key ttl
        in (1, s3))"

definition abortScript :: "'s redis \<Rightarrow> string \<Rightarrow> string \<Rightarrow> 's \<Rightarrow> int \<times> 's" where
  "abortScript R key owner s =
     (if not_owner R key owner s then (0, s) else (1, DEL R s key))"

section \<open>The manager's operations\<close>

text \<open>
  Every operation takes the fate of its network call (\<open>link\<close>) and the Redis state, and
  returns its result and the new state. \<open>Begin\<close> is also given the owner token
  \<open>uuid.NewString()\<close> returned. A method called with a nil client that does not check it
  panics.
\<close>

definition Begin ::
  "'r json_lib \<Rightarrow> 's Manager \<Rightarrow> link \<Rightarrow> string \<Rightarrow> string \<Rightarrow> string \<Rightarrow> 's \<Rightarrow> (goerr + Decision) \<times> 's" where
  "Begin J m l owner key fingerprint s =
     (case client m of
        None \<Rightarrow> (Inl unavailable, s)
      | Some R \<Rightarrow>
          if \<not> Enabled (Some m) then (Inl unavailable, s)
          else
            (case Run l (beginScript R (storageKey m key) fingerprint
                           (Milliseconds (cfgProcessingTTL (cfg m))) owner) s of
               (Inl e, s') \<Rightarrow> (Inl (Wrap ''begin idempotency request'' e), s')
             | (Inr [state, response, failure], s') \<Rightarrow>
                 (let d = \<lparr>dState = state,
                           dResponse = (if response \<noteq> [] then Some response else None),
                           dFailure = no_failure,
                           dOwner = (if state = StateAcquired then owner else [])\<rparr>
                  in if failure \<noteq> [] then
                       (case UnmarshalFailure J failure of
                          Inl e \<Rightarrow> (Inl (Wrap ''decode idempotency failure'' e), s')
                        | Inr f \<Rightarrow> (Inr (d\<lparr>dFailure := f\<rparr>), s'))
                     else (Inr d, s'))
             | (Inr _, s') \<Rightarrow> (Inl (Msg ''invalid idempotency state response''), s')))"

text \<open>What \<open>Renew\<close>, \<open>Complete\<close>, \<open>Abort\<close> and \<open>Fail\<close> make of a script's reply.\<close>

definition changed_one :: "string \<Rightarrow> (goerr + int) \<times> 's \<Rightarrow> goerr option \<times> 's" where
  "changed_one action r =
     (case r of
        (Inl e, s') \<Rightarrow> (Some (Wrap action e), s')
      | (Inr changed, s') \<Rightarrow> (if changed \<noteq> 1 then Some ErrOwnershipExpired else None, s'))"

definition Renew :: "'s Manager \<Rightarrow> link \<Rightarrow> string \<Rightarrow> string \<Rightarrow> 's \<Rightarrow> goerr option \<times> 's" where
  "Renew m l key owner s =
     (case client m of
        None \<Rightarrow> (Some unavailable, s)
      | Some R \<Rightarrow>
          if \<not> Enabled (Some m) \<or> key = [] \<or> owner = [] \<or> cfgProcessingTTL (cfg m) \<le> 0
          then (Some unavailable, s)
          else changed_one ''renew idempotency request''
                 (Run l (renewScript R (storageKey m key) owner
                           (Milliseconds (cfgProcessingTTL (cfg m)))) s))"

definition Abort :: "'s Manager \<Rightarrow> link \<Rightarrow> string \<Rightarrow> string \<Rightarrow> 's \<Rightarrow> goerr option \<times> 's" where
  "Abort m l key owner s =
     (case client m of
        None \<Rightarrow> (Some unavailable, s)
      | Some R \<Rightarrow>
          if \<not> Enabled (Some m) \<or> key = [] \<or> owner = [] then (Some unavailable, s)
          else changed_one ''abort idempotency request''
                 (Run l (abortScript R (storageKey m key) owner) s))"

definition Complete ::
  "'r json_lib \<Rightarrow> 's Manager \<Rightarrow> link \<Rightarrow> string \<Rightarrow> string \<Rightarrow> 'r \<Rightarrow> 's \<Rightarrow> goerr option \<times> 's" where
  "Complete J m l key owner response s =
     (case Marshal J response of
        Inl e \<Rightarrow> (Some (Wrap ''encode idempotency response'' e), s)
      | Inr encoded \<Rightarrow>
          if int (length encoded) > cfgMaxResponseBytes (cfg m)
          then (let (abortErr, s') = Abort m l key owner s
                in (errors_Join [Some ErrResponseTooLarge, abortErr], s'))
          else
            (case client m of
               None \<Rightarrow> (Some (Panic ''nil redis client''), s)
             | Some R \<Rightarrow>
                 changed_one ''complete idempotency request''
                   (Run l (finishScript R (storageKey m key) owner StateCompleted ''response'' encoded
                             (Milliseconds (cfgResultTTL (cfg m)))) s)))"

definition Fail ::
  "'r json_lib \<Rightarrow> 's Manager \<Rightarrow> link \<Rightarrow> string \<Rightarrow> string \<Rightarrow> Failure \<Rightarrow> 's \<Rightarrow> goerr option \<times> 's" where
  "Fail J m l key owner failure s =
     (case MarshalFailure J failure of
        Inl e \<Rightarrow> (Some (Wrap ''encode idempotency failure'' e), s)
      | Inr encoded \<Rightarrow>
          (case client m of
             None \<Rightarrow> (Some (Panic ''nil redis client''), s)
           | Some R \<Rightarrow>
               changed_one ''fail idempotency request''
                 (Run l (finishScript R (storageKey m key) owner StateFailed ''failure'' encoded
                           (Milliseconds (cfgFailureTTL (cfg m)))) s)))"

section \<open>The lease\<close>

text \<open>
  \<open>StartLease\<close> checks its arguments and starts the renewal goroutine with the returned
  interval. The goroutine is a loop over what its \<open>select\<close> receives: the stop signal, the
  end of the context, or a tick, at which it renews over a link. It leaves the loop at the first
  renewal error, which \<open>stop\<close> returns; a list that ends is a loop stopped by the stop signal.
\<close>

definition StartLease :: "'s Manager \<Rightarrow> string \<Rightarrow> string \<Rightarrow> goerr + int" where
  "StartLease m key owner =
     (if \<not> Enabled (Some m) \<or> client m = None \<or> key = [] \<or> owner = [] \<or> cfgProcessingTTL (cfg m) \<le> 0
      then Inl unavailable
      else let interval = go_div (cfgProcessingTTL (cfg m)) 3
           in Inr (if interval \<le> 0 then Millisecond else interval))"

datatype lease_event = Stopped | ContextDone | Tick link

fun lease_loop ::
  "'s Manager \<Rightarrow> string \<Rightarrow> string \<Rightarrow> lease_event list \<Rightarrow> 's \<Rightarrow> goerr option \<times> 's" where
  "lease_loop m key owner [] s = (None, s)"
| "lease_loop m key owner (Stopped # es) s = (None, s)"
| "lease_loop m key owner (ContextDone # es) s = (None, s)"
| "lease_loop m key owner (Tick l # es) s =
     (case Renew m l key owner s of
        (Some e, s') \<Rightarrow> (Some e, s')
      | (None, s') \<Rightarrow> lease_loop m key owner es s')"

section \<open>The specification: a record with four states\<close>

datatype record_state =
    Absent
  | Processing string string  \<comment> \<open>fingerprint, owner\<close>
  | Completed string string   \<comment> \<open>fingerprint, encoded response\<close>
  | Failed string string      \<comment> \<open>fingerprint, encoded failure\<close>

fun hash_of :: "record_state \<Rightarrow> (string \<rightharpoonup> string)" where
  "hash_of Absent = Map.empty"
| "hash_of (Processing f w) = [''state'' \<mapsto> ''processing'', ''fingerprint'' \<mapsto> f, ''owner'' \<mapsto> w]"
| "hash_of (Completed f r) = [''state'' \<mapsto> ''completed'', ''fingerprint'' \<mapsto> f, ''response'' \<mapsto> r]"
| "hash_of (Failed f x) = [''state'' \<mapsto> ''failed'', ''fingerprint'' \<mapsto> f, ''failure'' \<mapsto> x]"

fun spec_begin :: "string \<Rightarrow> string \<Rightarrow> record_state \<Rightarrow> string list \<times> record_state" where
  "spec_begin fp w Absent = ([''acquired'', [], []], Processing fp w)"
| "spec_begin fp w (Processing f v) =
     (if f = fp then [''processing'', [], []] else [''conflict'', [], []], Processing f v)"
| "spec_begin fp w (Completed f r) =
     (if f = fp then [''completed'', r, []] else [''conflict'', [], []], Completed f r)"
| "spec_begin fp w (Failed f x) =
     (if f = fp then [''failed'', [], x] else [''conflict'', [], []], Failed f x)"

text \<open>Renewing, finishing and aborting act on a processing record of the caller and on nothing else.\<close>

fun spec_own :: "(string \<Rightarrow> record_state) \<Rightarrow> string \<Rightarrow> record_state \<Rightarrow> int \<times> record_state" where
  "spec_own next w (Processing f v) = (if v = w then (1, next f) else (0, Processing f v))"
| "spec_own next w c = (0, c)"

definition spec_renew :: "string \<Rightarrow> record_state \<Rightarrow> int \<times> record_state" where
  "spec_renew w = spec_own (\<lambda>f. Processing f w) w"
definition spec_complete :: "string \<Rightarrow> string \<Rightarrow> record_state \<Rightarrow> int \<times> record_state" where
  "spec_complete w r = spec_own (\<lambda>f. Completed f r) w"
definition spec_fail :: "string \<Rightarrow> string \<Rightarrow> record_state \<Rightarrow> int \<times> record_state" where
  "spec_fail w x = spec_own (\<lambda>f. Failed f x) w"
definition spec_abort :: "string \<Rightarrow> record_state \<Rightarrow> int \<times> record_state" where
  "spec_abort w = spec_own (\<lambda>_. Absent) w"

lemmas spec_own_defs = spec_renew_def spec_complete_def spec_fail_def spec_abort_def

text \<open>A key's record is well formed when its hash is one of the four shapes.\<close>

definition is_record :: "'s redis \<Rightarrow> string \<Rightarrow> record_state \<Rightarrow> 's \<Rightarrow> bool" where
  "is_record R k c s \<longleftrightarrow> HGET R s k = hash_of c"

definition wf_record :: "'s redis \<Rightarrow> string \<Rightarrow> 's \<Rightarrow> bool" where
  "wf_record R k s \<longleftrightarrow> (\<exists>c. is_record R k c s)"

text \<open>The scripts refine the specification.\<close>

context redis_server
begin

lemma begin_refines:
  assumes "is_record R k c s" "0 < ttl"
  shows "fst (beginScript R k fp ttl w s) = fst (spec_begin fp w c)"
    and "HGET R (snd (beginScript R k fp ttl w s)) = (HGET R s)(k := hash_of (snd (spec_begin fp w c)))"
  using assms
  by (cases c; (auto simp: beginScript_def is_record_def Let_def exists_iff commands or_empty_def fun_eq_iff; fail))+

lemma not_owner_iff:
  "is_record R k c s \<Longrightarrow> not_owner R k w s \<longleftrightarrow> (\<forall>f. c \<noteq> Processing f w)"
  by (cases c) (auto simp: not_owner_def is_record_def)

lemma own_refines:
  assumes "is_record R k c s" "0 < ttl"
  shows "fst (renewScript R k w ttl s) = fst (spec_renew w c)"
    and "HGET R (snd (renewScript R k w ttl s)) = (HGET R s)(k := hash_of (snd (spec_renew w c)))"
    and "fst (finishScript R k w StateCompleted ''response'' r ttl s) = fst (spec_complete w r c)"
    and "HGET R (snd (finishScript R k w StateCompleted ''response'' r ttl s)) =
         (HGET R s)(k := hash_of (snd (spec_complete w r c)))"
    and "fst (finishScript R k w StateFailed ''failure'' r ttl s) = fst (spec_fail w r c)"
    and "HGET R (snd (finishScript R k w StateFailed ''failure'' r ttl s)) =
         (HGET R s)(k := hash_of (snd (spec_fail w r c)))"
    and "fst (abortScript R k w s) = fst (spec_abort w c)"
    and "HGET R (snd (abortScript R k w s)) = (HGET R s)(k := hash_of (snd (spec_abort w c)))"
  using assms
  by (cases c; (auto simp: renewScript_def finishScript_def abortScript_def not_owner_def is_record_def
        Let_def commands spec_own_defs State_defs fun_eq_iff; fail))+

end

section \<open>Runs: any callers, any order, any faults\<close>

text \<open>
  The operations on one key, each with the fate of its call; \<open>OExpire\<close> is the server
  dropping the key because its time to live has run out, which may happen at any moment.
\<close>

datatype 'r op =
    OBegin link string string
  | ORenew link string
  | OComplete link string 'r
  | OFail link string Failure
  | OAbort link string
  | OExpire

datatype result = RDecision "goerr + Decision" | RErr "goerr option" | RNone

fun exec :: "'r json_lib \<Rightarrow> 's Manager \<Rightarrow> string \<Rightarrow> 'r op \<Rightarrow> 's \<Rightarrow> result \<times> 's" where
  "exec J m key (OBegin l w fp) s = map_prod RDecision id (Begin J m l w key fp s)"
| "exec J m key (ORenew l w) s = map_prod RErr id (Renew m l key w s)"
| "exec J m key (OComplete l w r) s = map_prod RErr id (Complete J m l key w r s)"
| "exec J m key (OFail l w f) s = map_prod RErr id (Fail J m l key w f s)"
| "exec J m key (OAbort l w) s = map_prod RErr id (Abort m l key w s)"
| "exec J m key OExpire s =
     (RNone, case client m of None \<Rightarrow> s | Some R \<Rightarrow> DEL R s (storageKey m key))"

fun after :: "'r json_lib \<Rightarrow> 's Manager \<Rightarrow> string \<Rightarrow> 'r op list \<Rightarrow> 's \<Rightarrow> 's" where
  "after J m key [] s = s"
| "after J m key (x # xs) s = after J m key xs (snd (exec J m key x s))"

lemma after_append [simp]: "after J m key (xs @ ys) s = after J m key ys (after J m key xs s)"
  by (induction xs arbitrary: s) auto

fun acquired :: "result \<Rightarrow> bool" where
  "acquired (RDecision (Inr d)) \<longleftrightarrow> dState d = StateAcquired"
| "acquired _ \<longleftrightarrow> False"

text \<open>A manager that is switched on and whose times are at least a millisecond.\<close>

definition good_manager :: "'s redis \<Rightarrow> 's Manager \<Rightarrow> bool" where
  "good_manager R m \<longleftrightarrow>
     client m = Some R \<and> cfgEnabled (cfg m) \<and> Millisecond \<le> cfgProcessingTTL (cfg m)
     \<and> Millisecond \<le> cfgResultTTL (cfg m) \<and> Millisecond \<le> cfgFailureTTL (cfg m)"

text \<open>
  The operations that give up a record held by \<open>w\<close>: its expiry, an abort by \<open>w\<close>, and a
  completion by \<open>w\<close> whose response is over the size limit, which the manager turns into an
  abort.
\<close>

fun releases :: "'r json_lib \<Rightarrow> 's Manager \<Rightarrow> string \<Rightarrow> 'r op \<Rightarrow> bool" where
  "releases J m w OExpire \<longleftrightarrow> True"
| "releases J m w (OAbort l v) \<longleftrightarrow> v = w"
| "releases J m w (OComplete l v r) \<longleftrightarrow>
     v = w \<and> (case Marshal J r of Inl _ \<Rightarrow> False
                | Inr encoded \<Rightarrow> int (length encoded) > cfgMaxResponseBytes (cfg m))"
| "releases J m w _ \<longleftrightarrow> False"

text \<open>The states of a record from its acquisition by \<open>w\<close> until it is released.\<close>

definition held :: "string \<Rightarrow> string \<Rightarrow> record_state \<Rightarrow> bool" where
  "held fp w c \<longleftrightarrow> c = Processing fp w \<or> (\<exists>r. c = Completed fp r) \<or> (\<exists>x. c = Failed fp x)"

lemma changed_one_state [simp]: "snd (changed_one a r) = snd r"
  by (auto simp: changed_one_def split: prod.splits sum.splits)

lemma changed_one_ok: "fst (changed_one a (Run l sc s)) = None \<longleftrightarrow> l = Served \<and> fst (sc s) = 1"
  by (cases l) (auto simp: changed_one_def Run_def)

lemma good_manager_ttl:
  "good_manager R m \<Longrightarrow> 0 < Milliseconds (cfgProcessingTTL (cfg m))"
  "good_manager R m \<Longrightarrow> 0 < Milliseconds (cfgResultTTL (cfg m))"
  "good_manager R m \<Longrightarrow> 0 < Milliseconds (cfgFailureTTL (cfg m))"
  by (auto simp: good_manager_def Milliseconds_pos_iff Millisecond_def)

lemma Begin_good:
  assumes "good_manager R m"
  shows "snd (Begin J m l w key fp s) = snd (Run l (beginScript R (storageKey m key) fp
           (Milliseconds (cfgProcessingTTL (cfg m))) w) s)"
  using assms
  by (auto simp: Begin_def good_manager_def Enabled_def Let_def split: sum.splits list.splits prod.splits)

text \<open>The specification of one operation: the state of the record after it.\<close>

fun spec_op :: "'r json_lib \<Rightarrow> 's Manager \<Rightarrow> 'r op \<Rightarrow> record_state \<Rightarrow> record_state" where
  "spec_op J m (OBegin l w fp) c = snd (spec_begin fp w c)"
| "spec_op J m (ORenew l w) c = snd (spec_renew w c)"
| "spec_op J m (OComplete l w r) c =
     (case Marshal J r of Inl _ \<Rightarrow> c
      | Inr encoded \<Rightarrow> if int (length encoded) > cfgMaxResponseBytes (cfg m)
                      then snd (spec_abort w c) else snd (spec_complete w encoded c))"
| "spec_op J m (OFail l w f) c =
     (case MarshalFailure J f of Inl _ \<Rightarrow> c | Inr encoded \<Rightarrow> snd (spec_fail w encoded c))"
| "spec_op J m (OAbort l w) c = snd (spec_abort w c)"
| "spec_op J m OExpire c = Absent"

text \<open>Whether an operation gets to run its script: its call is executed and its guards pass.\<close>

fun reaches :: "'r json_lib \<Rightarrow> 's Manager \<Rightarrow> string \<Rightarrow> 'r op \<Rightarrow> bool" where
  "reaches J m key (OBegin l w fp) \<longleftrightarrow> executed l"
| "reaches J m key (ORenew l w) \<longleftrightarrow> executed l \<and> key \<noteq> [] \<and> w \<noteq> []"
| "reaches J m key (OComplete l w r) \<longleftrightarrow>
     executed l \<and>
     (case Marshal J r of Inl _ \<Rightarrow> False
      | Inr encoded \<Rightarrow> int (length encoded) > cfgMaxResponseBytes (cfg m) \<longrightarrow> key \<noteq> [] \<and> w \<noteq> [])"
| "reaches J m key (OFail l w f) \<longleftrightarrow> executed l \<and> (case MarshalFailure J f of Inl _ \<Rightarrow> False | Inr _ \<Rightarrow> True)"
| "reaches J m key (OAbort l w) \<longleftrightarrow> executed l \<and> key \<noteq> [] \<and> w \<noteq> []"
| "reaches J m key OExpire \<longleftrightarrow> True"

text \<open>The decision that answers from a completed record.\<close>

definition replay :: "string \<Rightarrow> string \<Rightarrow> string \<Rightarrow> Decision" where
  "replay fp encoded fp' =
     \<lparr>dState = (if fp' = fp then StateCompleted else StateConflict),
      dResponse = (if fp' = fp \<and> encoded \<noteq> [] then Some encoded else None),
      dFailure = no_failure, dOwner = []\<rparr>"

definition finished :: "record_state \<Rightarrow> bool" where
  "finished c \<longleftrightarrow> (\<exists>f r. c = Completed f r) \<or> (\<exists>f x. c = Failed f x)"

context redis_server
begin

lemma Abort_refines:
  assumes "good_manager R m" "is_record R (storageKey m key) c s"
  shows "HGET R (snd (Abort m l key w s)) =
         (if executed l \<and> key \<noteq> [] \<and> w \<noteq> []
          then (HGET R s)(storageKey m key := hash_of (snd (spec_abort w c))) else HGET R s)"
  using assms(1) own_refines(8)[OF assms(2), of 1 w]
  by (auto simp: Abort_def good_manager_def Enabled_def Run_state)

text \<open>
  An operation that reaches the server has the effect of its specification on the record of its
  key and leaves all other keys alone; one that does not changes nothing.
\<close>

lemma exec_refines:
  assumes g: "good_manager R m" and c: "is_record R (storageKey m key) c s"
  shows "HGET R (snd (exec J m key x s)) =
         (if reaches J m key x then (HGET R s)(storageKey m key := hash_of (spec_op J m x c)) else HGET R s)"
proof (cases x)
  case (OBegin l w fp)
  then show ?thesis
    using begin_refines(2)[OF c good_manager_ttl(1)[OF g], of fp w]
    by (simp add: Begin_good[OF g] Run_state)
next
  case (ORenew l w)
  then show ?thesis
    using g own_refines(2)[OF c good_manager_ttl(1)[OF g], of w] good_manager_ttl(1)[OF g]
    by (auto simp: Renew_def good_manager_def Enabled_def Run_state Millisecond_def)
next
  case (OComplete l w r)
  then show ?thesis
    using g c Abort_refines[OF g c, of l w] own_refines(4)[OF c good_manager_ttl(2)[OF g], of w]
    by (auto simp: Complete_def good_manager_def Let_def Run_state split: sum.splits prod.splits)
next
  case (OFail l w f)
  then show ?thesis
    using g c own_refines(6)[OF c good_manager_ttl(3)[OF g], of w]
    by (auto simp: Fail_def good_manager_def Run_state split: sum.splits)
next
  case (OAbort l w)
  then show ?thesis using Abort_refines[OF g c] by simp
next
  case OExpire
  then show ?thesis using g by (simp add: good_manager_def hget_del)
qed

corollary exec_record:
  assumes "good_manager R m" "is_record R (storageKey m key) c s"
  shows "is_record R (storageKey m key) c (snd (exec J m key x s)) \<or>
         is_record R (storageKey m key) (spec_op J m x c) (snd (exec J m key x s))"
  using exec_refines[OF assms, of J x] assms(2) by (auto simp: is_record_def split: if_splits)

lemma exec_wf:
  assumes "good_manager R m" "wf_record R (storageKey m key) s"
  shows "wf_record R (storageKey m key) (snd (exec J m key x s))"
  using assms exec_record unfolding wf_record_def by metis

lemma after_wf:
  assumes "good_manager R m" "wf_record R (storageKey m key) s"
  shows "wf_record R (storageKey m key) (after J m key xs s)"
  using assms by (induction xs arbitrary: s) (auto intro: exec_wf)

text \<open>What \<open>Begin\<close> answers when its call is served.\<close>

lemma Begin_served:
  assumes g: "good_manager R m" and c: "is_record R (storageKey m key) c s"
    and b: "Begin J m l w key fp s = (Inr d, s')"
  shows "dState d = hd (fst (spec_begin fp w c))"
    and "is_record R (storageKey m key) (snd (spec_begin fp w c)) s'"
proof -
  let ?sc = "beginScript R (storageKey m key) fp (Milliseconds (cfgProcessingTTL (cfg m))) w"
  note r = begin_refines[OF c good_manager_ttl(1)[OF g], of fp w]
  from b g obtain v where v: "Run l ?sc s = (Inr v, s')" and d: "dState d = hd v"
    by (auto simp: Begin_def good_manager_def Enabled_def Let_def split: sum.splits list.splits prod.splits if_splits)
  from v have sc: "?sc s = (v, s')" by (simp add: Run_Inr)
  with r(1) d show "dState d = hd (fst (spec_begin fp w c))" by simp
  show "is_record R (storageKey m key) (snd (spec_begin fp w c)) s'"
    using sc r(2) by (simp add: is_record_def)
qed

lemma acquired_iff_absent:
  assumes "good_manager R m" "is_record R (storageKey m key) c s"
    and "acquired (fst (exec J m key (OBegin l w fp) s))"
  shows "c = Absent" and "is_record R (storageKey m key) (Processing fp w) (snd (exec J m key (OBegin l w fp) s))"
proof -
  obtain d s' where b: "Begin J m l w key fp s = (Inr d, s')" and d: "dState d = StateAcquired"
    using assms(3) by (cases "Begin J m l w key fp s"; cases "fst (Begin J m l w key fp s)") auto
  note B = Begin_served[OF assms(1,2) b]
  from B(1) d show "c = Absent" by (cases c) (auto simp: State_defs split: if_splits)
  with B(2) b show "is_record R (storageKey m key) (Processing fp w) (snd (exec J m key (OBegin l w fp) s))"
    by simp
qed

lemma held_step:
  assumes "good_manager R m" "is_record R (storageKey m key) c s" "held fp w c" "\<not> releases J m w x"
  shows "\<exists>c'. is_record R (storageKey m key) c' (snd (exec J m key x s)) \<and> held fp w c'"
proof -
  have "held fp w (spec_op J m x c)"
    using assms(3,4) by (cases x) (auto simp: held_def spec_own_defs split: sum.splits if_splits)
  then show ?thesis
    using exec_record[OF assms(1,2)] assms(3) by blast
qed

lemma held_after:
  assumes "good_manager R m" "is_record R (storageKey m key) c s" "held fp w c"
    and "\<forall>x \<in> set xs. \<not> releases J m w x"
  shows "\<exists>c'. is_record R (storageKey m key) c' (after J m key xs s) \<and> held fp w c'"
  using assms(2-)
proof (induction xs arbitrary: c s)
  case Nil
  then show ?case by auto
next
  case (Cons x xs)
  then obtain c' where "is_record R (storageKey m key) c' (snd (exec J m key x s))" "held fp w c'"
    using held_step[OF assms(1)] by (metis list.set_intros(1))
  with Cons.IH Cons.prems(3) show ?case by simp
qed

lemma one_owner:
  assumes g: "good_manager R m" and wf: "wf_record R (storageKey m key) s"
    and a1: "acquired (fst (exec J m key (OBegin l1 w1 fp1) (after J m key xs s)))"
    and a2: "acquired (fst (exec J m key (OBegin l2 w2 fp2) (after J m key (xs @ OBegin l1 w1 fp1 # ys) s)))"
  shows "\<exists>x \<in> set ys. releases J m w1 x"
proof (rule ccontr)
  assume "\<not> ?thesis"
  then have ys: "\<forall>x \<in> set ys. \<not> releases J m w1 x" by blast
  obtain c where "is_record R (storageKey m key) c (after J m key xs s)"
    using after_wf[OF g wf] by (auto simp: wf_record_def)
  from acquired_iff_absent(2)[OF g this a1]
  have "is_record R (storageKey m key) (Processing fp1 w1) (snd (exec J m key (OBegin l1 w1 fp1) (after J m key xs s)))" .
  from held_after[OF g this _ ys, of fp1] obtain c' where
    c': "is_record R (storageKey m key) c' (after J m key (xs @ OBegin l1 w1 fp1 # ys) s)" "held fp1 w1 c'"
    by (auto simp: held_def)
  from acquired_iff_absent(1)[OF g c'(1) a2] c'(2) show False by (simp add: held_def)
qed

text \<open>
  A finished record is not changed by anything but its expiry, and \<open>Begin\<close> answers from it.
\<close>

lemma spec_op_finished: "finished c \<Longrightarrow> x \<noteq> OExpire \<Longrightarrow> spec_op J m x c = c"
  by (cases x; cases c) (auto simp: finished_def spec_own_defs split: sum.splits)

lemma finished_after:
  assumes "good_manager R m" "is_record R (storageKey m key) c s" "finished c" "OExpire \<notin> set xs"
  shows "is_record R (storageKey m key) c (after J m key xs s)"
  using assms(2,4)
proof (induction xs arbitrary: s)
  case Nil
  then show ?case by simp
next
  case (Cons x xs)
  then have "x \<noteq> OExpire" and "OExpire \<notin> set xs" by auto
  then show ?case
    using Cons exec_record[OF assms(1) Cons.prems(1), of J x] assms(3) by (simp add: spec_op_finished)
qed

lemma Complete_ok:
  assumes g: "good_manager R m" and c: "is_record R (storageKey m key) c s"
    and ok: "fst (Complete J m l key w r s) = None"
  obtains fp encoded where "c = Processing fp w" "Marshal J r = Inr encoded"
    "is_record R (storageKey m key) (Completed fp encoded) (snd (Complete J m l key w r s))"
proof -
  obtain encoded where e: "Marshal J r = Inr encoded"
    using ok by (auto simp: Complete_def split: sum.splits)
  let ?sc = "finishScript R (storageKey m key) w StateCompleted ''response'' encoded (Milliseconds (cfgResultTTL (cfg m)))"
  have small: "\<not> int (length encoded) > cfgMaxResponseBytes (cfg m)"
    using ok e by (auto simp: Complete_def errors_Join_def split: prod.splits if_splits)
  then have C: "Complete J m l key w r s = changed_one ''complete idempotency request'' (Run l ?sc s)"
    using e g by (simp add: Complete_def good_manager_def)
  with ok have l: "l = Served" and one: "fst (?sc s) = 1" by (simp_all add: changed_one_ok)
  note r = own_refines(3,4)[OF c good_manager_ttl(2)[OF g], of w encoded]
  from one r(1) obtain fp where fp: "c = Processing fp w"
    by (cases c) (auto simp: spec_complete_def split: if_splits)
  with r(2) C l e have "is_record R (storageKey m key) (Completed fp encoded) (snd (Complete J m l key w r s))"
    by (simp add: is_record_def Run_def spec_complete_def)
  with fp e that show ?thesis by blast
qed

lemma Begin_replays:
  assumes g: "good_manager R m" and c: "is_record R (storageKey m key) (Completed fp encoded) s"
  shows "Begin J m Served w key fp' s =
           (Inr (replay fp encoded fp'), s)"
proof -
  let ?ttl = "Milliseconds (cfgProcessingTTL (cfg m))"
  have "beginScript R (storageKey m key) fp' ?ttl w s = (fst (spec_begin fp' w (Completed fp encoded)), s)"
    using c by (auto simp: beginScript_def is_record_def exists_iff or_empty_def)
  then show ?thesis
    using g by (auto simp: replay_def Begin_def Run_def good_manager_def Enabled_def Let_def State_defs)
qed

lemma completed_replayed:
  assumes g: "good_manager R m" and wf: "wf_record R (storageKey m key) s"
    and ok: "fst (exec J m key (OComplete l w r) (after J m key xs s)) = RErr None"
    and ys: "OExpire \<notin> set ys"
  shows "\<exists>fp encoded. Marshal J r = Inr encoded \<and>
           is_record R (storageKey m key) (Processing fp w) (after J m key xs s) \<and>
           (\<forall>w' fp'. fst (Begin J m Served w' key fp' (after J m key (xs @ OComplete l w r # ys) s)) =
              Inr (replay fp encoded fp'))"
proof -
  obtain c where c: "is_record R (storageKey m key) c (after J m key xs s)"
    using after_wf[OF g wf] by (auto simp: wf_record_def)
  have "fst (Complete J m l key w r (after J m key xs s)) = None"
    using ok by simp
  then obtain fp encoded where d: "c = Processing fp w" "Marshal J r = Inr encoded"
    "is_record R (storageKey m key) (Completed fp encoded) (snd (Complete J m l key w r (after J m key xs s)))"
    by (rule Complete_ok[OF g c])
  have "is_record R (storageKey m key) (Completed fp encoded) (after J m key (xs @ OComplete l w r # ys) s)"
    using finished_after[OF g d(3) _ ys] by (simp add: finished_def)
  from Begin_replays[OF g this, of J] have "\<forall>w' fp'. fst (Begin J m Served w' key fp'
      (after J m key (xs @ OComplete l w r # ys) s)) = Inr (replay fp encoded fp')" by simp
  with d(1,2) c show ?thesis by blast
qed

lemma Renew_owned:
  assumes "good_manager R m" "key \<noteq> []" "w \<noteq> []" "is_record R (storageKey m key) (Processing fp w) s"
  shows "\<exists>s'. Renew m Served key w s = (None, s') \<and> HGET R s' = HGET R s"
  using assms own_refines(1,2)[OF assms(4) good_manager_ttl(1)[OF assms(1)], of w]
  by (auto simp: Renew_def good_manager_def Enabled_def Run_def changed_one_def spec_renew_def
      Millisecond_def is_record_def fun_upd_idem_iff)

lemma lease_keeps:
  assumes g: "good_manager R m" and k: "key \<noteq> []" "w \<noteq> []"
    and c: "is_record R (storageKey m key) (Processing fp w) s"
    and es: "\<forall>e \<in> set es. \<forall>l. e = Tick l \<longrightarrow> l = Served"
  shows "\<exists>s'. lease_loop m key w es s = (None, s') \<and> HGET R s' = HGET R s"
  using c es
proof (induction es arbitrary: s)
  case Nil
  then show ?case by simp
next
  case (Cons e es)
  show ?case
  proof (cases e)
    case (Tick l)
    with Cons.prems obtain s1 where s1: "Renew m l key w s = (None, s1)" "HGET R s1 = HGET R s"
      using Renew_owned[OF g k Cons.prems(1)] by auto
    then have "is_record R (storageKey m key) (Processing fp w) s1"
      using Cons.prems(1) by (simp add: is_record_def)
    then show ?thesis
      using Cons.IH[of s1] Cons.prems(2) Tick s1 by auto
  qed simp_all
qed

end

section \<open>A concrete manager\<close>

text \<open>A manager on the in-memory keyspace, with codecs that write strings as they are.\<close>

definition demo_json :: "string json_lib" where
  "demo_json =
     \<lparr>Marshal = Inr, MarshalFailure = (\<lambda>f. Inr (fMessage f)),
      UnmarshalFailure = (\<lambda>x. Inr (no_failure\<lparr>fMessage := x\<rparr>))\<rparr>"

definition demo_manager :: "keyspace Manager" where
  "demo_manager =
     New (Some mem_redis)
       \<lparr>cfgEnabled = True, cfgService = ''orders'', cfgProcessingTTL = 30 * Second,
        cfgResultTTL = Hour, cfgFailureTTL = Minute, cfgMaxResponseBytes = 0\<rparr>"

lemma demo_good: "good_manager mem_redis demo_manager"
  by (simp add: good_manager_def demo_manager_def New_def duration_defs)

lemma empty_is_absent: "is_record mem_redis k Absent empty_keyspace"
  by (simp add: is_record_def mem_redis_def empty_keyspace_def)

lemma empty_wf: "wf_record mem_redis k empty_keyspace"
  using empty_is_absent by (auto simp: wf_record_def)

lemmas demo_eval =
  Begin_def Renew_def Complete_def Fail_def Abort_def Enabled_def Run_def Let_def changed_one_def
  beginScript_def renewScript_def finishScript_def abortScript_def not_owner_def or_empty_def
  demo_manager_def demo_json_def New_def mem_redis_def empty_keyspace_def storageKey_def State_defs
  defaultMaxResponseBytes_def duration_defs Milliseconds_def go_div_def

section \<open>Properties\<close>

text \<open>C3. Two acquisitions of the same key, by any callers, in any sequence of operations with any
  network faults, are separated by a release of the first: the key's expiry, an abort by the first
  owner, or that owner's completion with an oversized response. So a key has one owner at a time.
\<close>

theorem idempotency_one_owner:
  assumes "redis_server R" "good_manager R m" "wf_record R (storageKey m key) s"
    and "acquired (fst (exec J m key (OBegin l1 w1 fp1) (after J m key xs s)))"
    and "acquired (fst (exec J m key (OBegin l2 w2 fp2) (after J m key (xs @ OBegin l1 w1 fp1 # ys) s)))"
  shows "\<exists>x \<in> set ys. releases J m w1 x"
  using redis_server.one_owner[OF assms] .

theorem idempotency_one_owner_witness:
  "acquired (fst (exec demo_json demo_manager ''k'' (OBegin Served ''a'' ''f'') empty_keyspace)) \<and>
   (\<exists>x \<in> set [OAbort Served ''a'']. releases demo_json demo_manager ''a'' x)"
proof -
  have a1: "acquired (fst (exec demo_json demo_manager ''k'' (OBegin Served ''a'' ''f'')
              (after demo_json demo_manager ''k'' [] empty_keyspace)))"
    by (simp add: demo_eval)
  have a2: "acquired (fst (exec demo_json demo_manager ''k'' (OBegin Served ''b'' ''g'')
              (after demo_json demo_manager ''k'' ([] @ OBegin Served ''a'' ''f'' # [OAbort Served ''a'']) empty_keyspace)))"
    by (simp add: demo_eval)
  show ?thesis
    using idempotency_one_owner[OF mem.redis_server_axioms demo_good empty_wf a1 a2] a1 by simp
qed

text \<open>C8. Once a completion has succeeded, every later \<open>Begin\<close> before the record expires, whatever
  ran in between, answers from it: with the stored response for the fingerprint that acquired the
  key, with a conflict for any other.
\<close>

theorem idempotency_completed_replayed:
  assumes "redis_server R" "good_manager R m" "wf_record R (storageKey m key) s"
    and "fst (exec J m key (OComplete l w r) (after J m key xs s)) = RErr None"
    and "OExpire \<notin> set ys"
  shows "\<exists>fp encoded. Marshal J r = Inr encoded \<and>
           is_record R (storageKey m key) (Processing fp w) (after J m key xs s) \<and>
           (\<forall>w' fp'. fst (Begin J m Served w' key fp' (after J m key (xs @ OComplete l w r # ys) s)) =
              Inr (replay fp encoded fp'))"
  using redis_server.completed_replayed[OF assms] .

theorem idempotency_completed_replayed_witness:
  "\<exists>fp encoded. Marshal demo_json ''ok'' = Inr encoded \<and>
     is_record mem_redis (storageKey demo_manager ''k'') (Processing fp ''a'')
       (after demo_json demo_manager ''k'' [OBegin Served ''a'' ''f''] empty_keyspace) \<and>
     (\<forall>w' fp'. fst (Begin demo_json demo_manager Served w' ''k'' fp'
        (after demo_json demo_manager ''k''
           ([OBegin Served ''a'' ''f''] @ OComplete Served ''a'' ''ok'' # [OAbort Served ''a'']) empty_keyspace)) =
        Inr (replay fp encoded fp'))"
proof (rule idempotency_completed_replayed[OF mem.redis_server_axioms demo_good empty_wf])
  show "fst (exec demo_json demo_manager ''k'' (OComplete Served ''a'' ''ok'')
          (after demo_json demo_manager ''k'' [OBegin Served ''a'' ''f''] empty_keyspace)) = RErr None"
    by (simp add: demo_eval)
qed simp

text \<open>C9. The manager's operations refine the four-state specification: on a well-formed record an
  operation that reaches the server moves the record of its key as specified and leaves every
  other key alone, and one that does not reach it changes nothing.
\<close>

theorem idempotency_refines_spec:
  assumes "redis_server R" "good_manager R m" "is_record R (storageKey m key) c s"
  shows "HGET R (snd (exec J m key x s)) =
         (if reaches J m key x then (HGET R s)(storageKey m key := hash_of (spec_op J m x c)) else HGET R s)"
  using redis_server.exec_refines[OF assms] .

theorem idempotency_refines_spec_witness:
  "HGET mem_redis (snd (exec demo_json demo_manager ''k'' (OBegin Served ''a'' ''f'') empty_keyspace)) =
   (HGET mem_redis empty_keyspace)(storageKey demo_manager ''k'' := hash_of (Processing ''f'' ''a''))"
  using idempotency_refines_spec[OF mem.redis_server_axioms demo_good empty_is_absent,
      where J = demo_json and key = "''k''" and x = "OBegin Served ''a'' ''f''"]
  by simp

text \<open>C13. A caller that does not own the record (it is absent because it expired or was released, it was finished,
  or it is being processed by another owner) gets an error from \<open>Renew\<close>, \<open>Complete\<close>, \<open>Fail\<close> and
  \<open>Abort\<close>, whatever happens to the call, and none of them changes the Redis state; when the call is
  served the error is or wraps the expired-ownership error.
\<close>

theorem idempotency_stale_owner:
  assumes "redis_server R" "client m = Some R" "cfgEnabled (cfg m)" "0 < cfgProcessingTTL (cfg m)" "key \<noteq> []" "w \<noteq> []"
    and "is_record R (storageKey m key) c s" "\<forall>fp. c \<noteq> Processing fp w"
    and "Marshal J r = Inr encoded" "MarshalFailure J f = Inr encodedFailure"
    and "x \<in> {ORenew l w, OComplete l w r, OFail l w f, OAbort l w}"
  shows "snd (exec J m key x s) = s \<and>
         (\<exists>e. fst (exec J m key x s) = RErr (Some e) \<and> (l = Served \<longrightarrow> errors_Is e ErrOwnershipExpired))"
proof -
  have n: "not_owner R (storageKey m key) w s" using redis_server.not_owner_iff[OF assms(1,7)] assms(8) by blast
  have A: "Abort m l key w s = (Some (if l = Served then ErrOwnershipExpired else
      Wrap ''abort idempotency request'' (case l of Unserved e \<Rightarrow> e | ReplyLost e \<Rightarrow> e)), s)"
    using n assms(2-6) by (cases l) (auto simp: Abort_def Enabled_def abortScript_def Run_def changed_one_def)
  show ?thesis
    using n assms(2-6,9-11) A
    by (cases l) (auto simp: Renew_def Complete_def Fail_def Enabled_def renewScript_def finishScript_def
        Run_def changed_one_def errors_Join_def)
qed

theorem idempotency_stale_owner_witness:
  "is_record mem_redis (storageKey demo_manager ''k'') (Processing ''f'' ''a'')
     (snd (exec demo_json demo_manager ''k'' (OBegin Served ''a'' ''f'') empty_keyspace)) \<and>
   snd (exec demo_json demo_manager ''k'' (OAbort Served ''b'')
     (snd (exec demo_json demo_manager ''k'' (OBegin Served ''a'' ''f'') empty_keyspace))) =
   snd (exec demo_json demo_manager ''k'' (OBegin Served ''a'' ''f'') empty_keyspace)"
proof -
  have "is_record mem_redis (storageKey demo_manager ''k'') (Processing ''f'' ''a'')
      (snd (exec demo_json demo_manager ''k'' (OBegin Served ''a'' ''f'') empty_keyspace))"
    by (simp add: demo_eval is_record_def)
  then show ?thesis
    using idempotency_stale_owner[OF mem.redis_server_axioms, of demo_manager "''k''" "''b''" "Processing ''f'' ''a''"
        "snd (exec demo_json demo_manager ''k'' (OBegin Served ''a'' ''f'') empty_keyspace)" demo_json
        "''r''" "''r''" no_failure "[]" "OAbort Served ''b''" Served]
    by (simp add: demo_json_def demo_manager_def New_def duration_defs no_failure_def)
qed

text \<open>While the record is processing and owned, a lease whose renewals are served never reports an
  error and leaves the record as it is, however often it ticks.
\<close>

theorem idempotency_lease_keeps_ownership:
  assumes "redis_server R" "good_manager R m" "key \<noteq> []" "w \<noteq> []"
    and "is_record R (storageKey m key) (Processing fp w) s"
    and "\<forall>e \<in> set es. \<forall>l. e = Tick l \<longrightarrow> l = Served"
  shows "\<exists>s'. lease_loop m key w es s = (None, s') \<and> HGET R s' = HGET R s"
  using redis_server.lease_keeps[OF assms] .

theorem idempotency_lease_keeps_ownership_witness:
  "\<exists>s'. lease_loop demo_manager ''k'' ''a'' [Tick Served, Tick Served, Stopped]
           (snd (exec demo_json demo_manager ''k'' (OBegin Served ''a'' ''f'') empty_keyspace)) = (None, s')"
proof -
  have "is_record mem_redis (storageKey demo_manager ''k'') (Processing ''f'' ''a'')
          (snd (exec demo_json demo_manager ''k'' (OBegin Served ''a'' ''f'') empty_keyspace))"
    by (auto simp: is_record_def demo_eval fun_eq_iff)
  from idempotency_lease_keeps_ownership[OF mem.redis_server_axioms demo_good _ _ this,
      of "[Tick Served, Tick Served, Stopped]"]
  show ?thesis by auto
qed

text \<open>C18. With a processing time below one millisecond, which \<open>New\<close> accepts and the guards of
  \<open>Renew\<close> and \<open>StartLease\<close> take for a usable value, the time to live sent to Redis is 0,
  the record is deleted as soon as it is written, and two callers in a row both acquire the key.
\<close>

theorem idempotency_submillisecond_two_owners:
  assumes "redis_server R" "client m = Some R" "cfgEnabled (cfg m)"
    and "0 < cfgProcessingTTL (cfg m)" "cfgProcessingTTL (cfg m) < Millisecond"
    and "HGET R s (storageKey m key) = Map.empty" "key \<noteq> []" "w1 \<noteq> []"
  shows "acquired (fst (exec J m key (OBegin Served w1 fp1) s)) \<and>
         acquired (fst (exec J m key (OBegin Served w2 fp2) (snd (exec J m key (OBegin Served w1 fp1) s)))) \<and>
         (\<exists>i. StartLease m key w1 = Inr i)"
proof -
  let ?ttl = "Milliseconds (cfgProcessingTTL (cfg m))"
  have ttl: "?ttl \<le> 0"
    using assms(4,5) Milliseconds_pos_iff[of "cfgProcessingTTL (cfg m)"] by linarith
  have B: "acquired (fst (exec J m key (OBegin Served w fp) t)) \<and>
           HGET R (snd (exec J m key (OBegin Served w fp) t)) (storageKey m key) = Map.empty"
    if "HGET R t (storageKey m key) = Map.empty" for w fp t
    using that assms(2,3) ttl redis_server.exists_iff[OF assms(1)] redis_server.hget_pexpire_past[OF assms(1)]
    by (simp add: Begin_def Enabled_def Run_def beginScript_def Let_def StateAcquired_def)
  show ?thesis
    using B[OF assms(6)] B assms(2-4,7,8) by (auto simp: StartLease_def Enabled_def Let_def)
qed

theorem idempotency_submillisecond_two_owners_witness:
  "acquired (fst (exec demo_json (demo_manager\<lparr>cfg := (cfg demo_manager)\<lparr>cfgProcessingTTL := 500\<rparr>\<rparr>) ''k''
     (OBegin Served ''b'' ''g'')
     (snd (exec demo_json (demo_manager\<lparr>cfg := (cfg demo_manager)\<lparr>cfgProcessingTTL := 500\<rparr>\<rparr>) ''k''
        (OBegin Served ''a'' ''f'') empty_keyspace))))"
  using idempotency_submillisecond_two_owners[OF mem.redis_server_axioms,
      where m = "demo_manager\<lparr>cfg := (cfg demo_manager)\<lparr>cfgProcessingTTL := 500\<rparr>\<rparr>" and s = empty_keyspace
        and key = "''k''" and J = demo_json and ?w1.0 = "''a''" and ?fp1.0 = "''f''" and ?w2.0 = "''b''"
        and ?fp2.0 = "''g''"] empty_is_absent
  by (simp add: demo_manager_def New_def Millisecond_def is_record_def)

end
