(* ===== verification/Principal.thy ===== *)
theory Principal
  imports Go_Strings
begin

text \<open>
  The authenticated caller and the request context that carries it
  (\<open>src/principal/context.go\<close>), and the audit columns made from it
  (\<open>src/audit/fields.go\<close>).

  A \<open>context.Context\<close> is immutable and holds at most one value per key type. The keys the
  repository uses are the fields of \<open>go_context\<close>: the principal, the idempotency key, the request
  id of an event, the caller's credential, and the gRPC metadata under \<open>authorization\<close>.
  \<open>ctxErr\<close> is what \<open>ctx.Err()\<close> answers.
\<close>

definition TypeUser :: string where "TypeUser = ''user''"
definition TypeServiceAccount :: string where "TypeServiceAccount = ''service_account''"
definition TypeSystem :: string where "TypeSystem = ''system''"

lemmas Type_defs = TypeUser_def TypeServiceAccount_def TypeSystem_def

record Principal =
  ID :: string
  Type :: string
  TenantID :: string
  MembershipID :: string
  SessionID :: string

definition no_principal :: Principal where
  "no_principal = \<lparr>ID = [], Type = [], TenantID = [], MembershipID = [], SessionID = []\<rparr>"

record go_context =
  ctxPrincipal :: "Principal option"
  ctxIdempotencyKey :: "string option"
  ctxRequestID :: "string option"
  ctxCredential :: "string option"
  ctxIncoming :: "string list"
  ctxOutgoing :: "string list"
  ctxErr :: "goerr option"

definition Background :: go_context where
  "Background = \<lparr>ctxPrincipal = None, ctxIdempotencyKey = None, ctxRequestID = None,
     ctxCredential = None, ctxIncoming = [], ctxOutgoing = [], ctxErr = None\<rparr>"

definition ErrMissing :: goerr where
  "ErrMissing = Sentinel ''authenticated principal is missing''"

definition WithContext :: "go_context \<Rightarrow> Principal \<Rightarrow> go_context" where
  "WithContext ctx p = ctx\<lparr>ctxPrincipal := Some p\<rparr>"

text \<open>
  The principal and whether it counts: an identity that is blank does not, although its value is
  returned. A nil context has none.
\<close>

definition FromContext :: "go_context option \<Rightarrow> Principal \<times> bool" where
  "FromContext ctx =
     (case ctx of
        None \<Rightarrow> (no_principal, False)
      | Some c \<Rightarrow>
          (case ctxPrincipal c of
             None \<Rightarrow> (no_principal, False)
           | Some p \<Rightarrow> (p, TrimSpace (ID p) \<noteq> [])))"

definition Require :: "go_context option \<Rightarrow> goerr + Principal" where
  "Require ctx = (let (p, ok) = FromContext ctx in if \<not> ok then Inl ErrMissing else Inr p)"

definition SystemContext :: "go_context \<Rightarrow> string \<Rightarrow> go_context" where
  "SystemContext ctx actorID = WithContext ctx (no_principal\<lparr>ID := actorID, Type := TypeSystem\<rparr>)"

lemma FromContext_WithContext [simp]:
  "FromContext (Some (WithContext ctx p)) = (p, TrimSpace (ID p) \<noteq> [])"
  by (simp add: FromContext_def WithContext_def)

lemma Require_Inr: "Require ctx = Inr p \<longleftrightarrow> FromContext ctx = (p, True)"
  by (auto simp: Require_def split: prod.splits)

lemma FromContext_identified: "FromContext ctx = (p, True) \<Longrightarrow> TrimSpace (ID p) \<noteq> []"
  by (auto simp: FromContext_def split: option.splits)

section \<open>Audit columns\<close>

record AuditFields =
  Version :: int
  CreatedAt :: int
  UpdatedAt :: int
  CreatedBy :: string
  UpdatedBy :: string

definition New_audit :: "go_context option \<Rightarrow> int \<Rightarrow> goerr + AuditFields" where
  "New_audit ctx now =
     (case Require ctx of
        Inl e \<Rightarrow> Inl e
      | Inr actor \<Rightarrow>
          Inr \<lparr>Version = 1, CreatedAt = now, UpdatedAt = now, CreatedBy = ID actor, UpdatedBy = ID actor\<rparr>)"

definition UpdatedBy_audit :: "go_context option \<Rightarrow> int \<Rightarrow> goerr + (string \<times> int)" where
  "UpdatedBy_audit ctx now =
     (case Require ctx of Inl e \<Rightarrow> Inl e | Inr actor \<Rightarrow> Inr (ID actor, now))"

text \<open>Audit columns are only ever made for an identified caller, and name that caller.\<close>

lemma New_audit_actor:
  "New_audit ctx now = Inr a \<Longrightarrow>
     \<exists>p. FromContext ctx = (p, True) \<and> CreatedBy a = ID p \<and> UpdatedBy a = ID p \<and> TrimSpace (CreatedBy a) \<noteq> []"
  by (auto simp: New_audit_def Require_Inr dest: FromContext_identified split: sum.splits)

lemma New_audit_unidentified: "snd (FromContext ctx) = False \<Longrightarrow> New_audit ctx now = Inl ErrMissing"
  by (auto simp: New_audit_def Require_def split: prod.splits sum.splits)

end
