(* ===== verification/Go_Path.thy ===== *)
theory Go_Path
  imports Go_Strings
begin

text \<open>
  Standard-library text functions of the authentication and authorization packages:
  \<open>path.Match\<close> with its character classes, escapes and syntax errors, \<open>strings.Cut\<close> at a
  space, \<open>strings.EqualFold\<close> against an ASCII word, and the HTTP response writer as far as
  \<open>http.Error\<close> uses it.
\<close>

section \<open>Runes\<close>

text \<open>\<open>utf8.DecodeRuneInString\<close>: the code point and its width; a bad byte is U+FFFD of width 1.\<close>

definition decode_rune :: "string \<Rightarrow> int \<times> nat" where
  "decode_rune s =
     (let b = (\<lambda>i. of_char (s ! i)); c = (\<lambda>i. of_char (s ! i) mod 64); n = utf8_width s
      in if s = [] then (0xFFFD, 0)
         else if n = 0 then (0xFFFD, 1)
         else if n = 1 then (b 0, 1)
         else if n = 2 then (b 0 mod 32 * 64 + c 1, 2)
         else if n = 3 then (b 0 mod 16 * 4096 + c 1 * 64 + c 2, 3)
         else (b 0 mod 8 * 262144 + c 1 * 4096 + c 2 * 64 + c 3, 4))"

lemma decode_rune_width: "s \<noteq> [] \<Longrightarrow> 0 < snd (decode_rune s)"
  by (simp add: decode_rune_def Let_def)

section \<open>Glob patterns\<close>

text \<open>A chunk either ends with a syntax error, fails, or matches and leaves the rest of the name.\<close>

datatype chunk_match = BadPattern | NoMatch | Rest string

definition getEsc :: "string \<Rightarrow> (int \<times> string) option" where
  "getEsc chunk =
     (if chunk = [] \<or> hd chunk = CHR ''-'' \<or> hd chunk = CHR '']'' then None
      else
        (let body = (if hd chunk = CHR 0x5C then tl chunk else chunk)
         in if body = [] then None
            else (let (r, n) = decode_rune body
                  in if r = 0xFFFD \<and> n = 1 \<or> drop n body = [] then None else Some (r, drop n body))))"

lemma getEsc_shorter: "getEsc chunk = Some (r, t) \<Longrightarrow> length t < length chunk \<and> t \<noteq> []"
proof -
  assume g: "getEsc chunk = Some (r, t)"
  define body where "body = (if hd chunk = CHR 0x5C then tl chunk else chunk)"
  have b: "body \<noteq> []" "t = drop (snd (decode_rune body)) body" "t \<noteq> []" "chunk \<noteq> []"
    using g by (auto simp: getEsc_def body_def Let_def split: prod.splits if_splits)
  have "length t < length body" using b decode_rune_width[of body] by simp
  also have "length body \<le> length chunk" by (simp add: body_def)
  finally show ?thesis using b by simp
qed

text \<open>The ranges of a character class, up to its closing bracket: whether one holds the rune.\<close>

function class_ranges :: "int \<Rightarrow> bool \<Rightarrow> nat \<Rightarrow> string \<Rightarrow> (bool \<times> string) option" where
  "class_ranges r found nrange chunk =
     (if chunk \<noteq> [] \<and> hd chunk = CHR '']'' \<and> 0 < nrange then Some (found, tl chunk)
      else
        (case getEsc chunk of
           None \<Rightarrow> None
         | Some (lo, c1) \<Rightarrow>
             if hd c1 = CHR ''-''
             then (case getEsc (tl c1) of
                     None \<Rightarrow> None
                   | Some (hi, c2) \<Rightarrow> class_ranges r (found \<or> lo \<le> r \<and> r \<le> hi) (Suc nrange) c2)
             else class_ranges r (found \<or> r = lo) (Suc nrange) c1))"
  by pat_completeness auto
termination
  by (relation "measure (\<lambda>(r, f, n, chunk). length chunk)") (auto dest!: getEsc_shorter)

declare class_ranges.simps [simp del]

lemma class_ranges_shorter: "class_ranges r f n chunk = Some (b, t) \<Longrightarrow> length t < length chunk"
proof (induction r f n chunk rule: class_ranges.induct)
  case (1 r f n chunk)
  show ?case
  proof (cases "chunk \<noteq> [] \<and> hd chunk = CHR '']'' \<and> 0 < n")
    case True
    then have "t = tl chunk" using "1.prems" by (simp add: class_ranges.simps[of r f n chunk])
    then show ?thesis using True by (cases chunk) auto
  next
    case False
    then obtain lo c1 where g: "getEsc chunk = Some (lo, c1)"
      using "1.prems" by (cases "getEsc chunk") (auto simp: class_ranges.simps[of r f n chunk])
    note l = getEsc_shorter[OF g]
    show ?thesis
    proof (cases "hd c1 = CHR ''-''")
      case True
      then obtain hi c2 where h: "getEsc (tl c1) = Some (hi, c2)"
        using "1.prems" False g by (cases "getEsc (tl c1)") (auto simp: class_ranges.simps[of r f n chunk])
      have "length t < length c2"
        using 1(1)[OF False g refl True h refl] "1.prems" False g h True
        by (simp add: class_ranges.simps[of r f n chunk])
      then show ?thesis using l getEsc_shorter[OF h] unfolding length_tl by linarith
    next
      case nd: False
      have "length t < length c1"
        using 1(2)[OF False g refl nd] "1.prems" False g nd by (simp add: class_ranges.simps[of r f n chunk])
      then show ?thesis using l by simp
    qed
  qed
qed

function matchChunk :: "bool \<Rightarrow> string \<Rightarrow> string \<Rightarrow> chunk_match" where
  "matchChunk failed0 chunk s =
     (if chunk = [] then (if failed0 then NoMatch else Rest s)
      else
        (let failed = failed0 \<or> s = []
         in if hd chunk = CHR ''[''
            then (let (r, n) = (if failed then (0, 0) else decode_rune s);
                      negated = (tl chunk \<noteq> [] \<and> hd (tl chunk) = CHR ''^'');
                      body = (if negated then tl (tl chunk) else tl chunk)
                  in case class_ranges r False 0 body of
                       None \<Rightarrow> BadPattern
                     | Some (found, rest) \<Rightarrow> matchChunk (failed \<or> found = negated) rest (drop n s))
            else if hd chunk = CHR ''?''
            then matchChunk (failed \<or> hd s = CHR ''/'') (tl chunk) (if failed then s else drop (snd (decode_rune s)) s)
            else
              (let body = (if hd chunk = CHR 0x5C then tl chunk else chunk)
               in if body = [] then BadPattern
                  else matchChunk (failed \<or> hd body \<noteq> hd s) (tl body) (if failed then s else tl s))))"
  by pat_completeness auto
termination
  by (relation "measure (\<lambda>(f, chunk, s). length chunk)")
    (force dest!: class_ranges_shorter split: if_splits)+

declare matchChunk.simps [simp del]

text \<open>The next chunk of a pattern: everything up to a star that is not in a character class.\<close>

fun scan :: "bool \<Rightarrow> string \<Rightarrow> string \<times> string" where
  "scan inrange [] = ([], [])"
| "scan inrange (c # cs) =
     (if c = CHR 0x5C
      then (case cs of
              [] \<Rightarrow> ([c], [])
            | d # ds \<Rightarrow> (let (a, b) = scan inrange ds in (c # d # a, b)))
      else if c = CHR ''*'' \<and> \<not> inrange then ([], c # cs)
      else (let (a, b) = scan (c = CHR ''['' \<or> inrange \<and> c \<noteq> CHR '']'') cs in (c # a, b)))"

definition scanChunk :: "string \<Rightarrow> bool \<times> string \<times> string" where
  "scanChunk pattern =
     (let p = dropWhile (\<lambda>c. c = CHR ''*'') pattern in (p \<noteq> pattern, scan False p))"

lemma scan_append: "scan i p = (a, b) \<Longrightarrow> p = a @ b"
  by (induction i p arbitrary: a b rule: scan.induct) (auto split: if_splits prod.splits list.splits)

lemma scan_takes: "scan False (c # cs) = (a, b) \<Longrightarrow> c \<noteq> CHR ''*'' \<Longrightarrow> a \<noteq> []"
  by (auto split: if_splits prod.splits list.splits)

lemma scanChunk_shorter:
  assumes "scanChunk p = (star, chunk, rest)" "p \<noteq> []"
  shows "length rest < length p"
proof -
  let ?q = "dropWhile (\<lambda>c. c = CHR ''*'') p"
  have s: "scan False ?q = (chunk, rest)" using assms(1) by (simp add: scanChunk_def Let_def)
  have q: "?q = chunk @ rest" using scan_append[OF s] .
  have l: "length ?q \<le> length p" using length_dropWhile_le .
  show ?thesis
  proof (cases ?q)
    case Nil
    then show ?thesis using q assms(2) by auto
  next
    case (Cons c cs)
    then have "c \<noteq> CHR ''*''" using hd_dropWhile[of "\<lambda>c. c = CHR ''*''" p] by auto
    then have "chunk \<noteq> []" using scan_takes s Cons by metis
    then show ?thesis using q l by (cases chunk) auto
  qed
qed

text \<open>A star before a chunk may skip any bytes but a slash; the last chunk must reach the end of the name.\<close>

fun skipMatch :: "string \<Rightarrow> bool \<Rightarrow> string \<Rightarrow> chunk_match" where
  "skipMatch chunk final [] = NoMatch"
| "skipMatch chunk final (c # cs) =
     (if c = CHR ''/'' then NoMatch
      else
        (case matchChunk False chunk cs of
           Rest t \<Rightarrow> if final \<and> t \<noteq> [] then skipMatch chunk final cs else Rest t
         | BadPattern \<Rightarrow> BadPattern
         | NoMatch \<Rightarrow> skipMatch chunk final cs))"

function syntax_ok :: "string \<Rightarrow> bool" where
  "syntax_ok p =
     (if p = [] then True
      else (let (star, chunk, rest) = scanChunk p
            in if matchChunk False chunk [] = BadPattern then False else syntax_ok rest))"
  by pat_completeness auto
termination
  by (relation "measure length") (auto dest!: scanChunk_shorter[OF sym])

definition ErrBadPattern :: goerr where "ErrBadPattern = Sentinel ''syntax error in pattern''"

function path_Match :: "string \<Rightarrow> string \<Rightarrow> goerr + bool" where
  "path_Match p nm =
     (if p = [] then Inr (nm = [])
      else
        (let (star, chunk, rest) = scanChunk p;
             failure = (if syntax_ok rest then Inr False else Inl ErrBadPattern)
         in if star \<and> chunk = [] then Inr (CHR ''/'' \<notin> set nm)
            else
              (case matchChunk False chunk nm of
                 BadPattern \<Rightarrow> Inl ErrBadPattern
               | m \<Rightarrow>
                   (case m of
                      Rest t \<Rightarrow>
                        if t = [] \<or> rest \<noteq> [] then path_Match rest t
                        else if star then
                          (case skipMatch chunk (rest = []) nm of
                             Rest u \<Rightarrow> path_Match rest u | BadPattern \<Rightarrow> Inl ErrBadPattern | NoMatch \<Rightarrow> failure)
                        else failure
                    | _ \<Rightarrow>
                        if star then
                          (case skipMatch chunk (rest = []) nm of
                             Rest u \<Rightarrow> path_Match rest u | BadPattern \<Rightarrow> Inl ErrBadPattern | NoMatch \<Rightarrow> failure)
                        else failure))))"
  by pat_completeness auto
termination
  by (relation "measure (\<lambda>(p, nm). length p)") (auto dest!: scanChunk_shorter[OF sym])

declare syntax_ok.simps [simp del] path_Match.simps [simp del]

text \<open>A pattern without special characters matches the one name it spells.\<close>

definition glob_chars :: string where "glob_chars = [CHR ''*'', CHR ''?'', CHR ''['', CHR 0x5C]"

lemma scan_literal: "set p \<inter> set glob_chars = {} \<Longrightarrow> scan False p = (p, [])"
  by (induction p) (auto simp: glob_chars_def)

lemma matchChunk_literal:
  "set p \<inter> set glob_chars = {} \<Longrightarrow>
     matchChunk f p s = (if \<not> f \<and> prefix p s then Rest (drop (length p) s) else NoMatch)"
proof (induction p arbitrary: f s)
  case Nil
  then show ?case by (subst matchChunk.simps) simp
next
  case (Cons c p)
  then show ?case
    by (subst matchChunk.simps) (cases s; auto simp: glob_chars_def Let_def)
qed

lemma path_Match_literal:
  assumes "set p \<inter> set glob_chars = {}"
  shows "path_Match p s = Inr (s = p)"
proof (cases "p = []")
  case True
  then show ?thesis by (simp add: path_Match.simps)
next
  case False
  have "dropWhile (\<lambda>c. c = CHR ''*'') p = p" using assms False by (cases p) (auto simp: glob_chars_def)
  then have "scanChunk p = (False, p, [])" using assms by (simp add: scanChunk_def scan_literal)
  then show ?thesis
    using False assms
    by (subst path_Match.simps)
      (auto simp: matchChunk_literal prefix_def Let_def path_Match.simps[of "[]"] syntax_ok.simps[of "[]"])
qed

section \<open>Credentials\<close>

text \<open>\<open>strings.Cut(s, " ")\<close>.\<close>

definition Cut_space :: "string \<Rightarrow> string \<times> string \<times> bool" where
  "Cut_space s =
     (if CHR '' '' \<in> set s
      then (takeWhile (\<lambda>c. c \<noteq> CHR '' '') s, tl (dropWhile (\<lambda>c. c \<noteq> CHR '' '') s), True)
      else (s, [], False))"

lemma cut_at:
  "x \<notin> set a \<Longrightarrow> takeWhile (\<lambda>c. c \<noteq> x) (a @ x # b) = a \<and> dropWhile (\<lambda>c. c \<noteq> x) (a @ x # b) = x # b"
  by (induction a) auto

lemma Cut_space_ok: "Cut_space s = (a, b, True) \<longleftrightarrow> s = a @ CHR '' '' # b \<and> CHR '' '' \<notin> set a"
proof (cases "CHR '' '' \<in> set s")
  case True
  obtain x y where "s = x @ CHR '' '' # y" "CHR '' '' \<notin> set x" using split_list_first[OF True] by blast
  then show ?thesis using cut_at[of "CHR '' ''" x y] append_sep_inj[of "CHR '' ''" x a] by (auto simp: Cut_space_def)
qed (auto simp: Cut_space_def)

text \<open>
  \<open>strings.EqualFold\<close> against a word of ASCII letters: besides the two cases of a letter,
  simple folding equates U+017F with \<open>s\<close> and U+212A with \<open>k\<close>.
\<close>

definition ascii_lower :: "char \<Rightarrow> char" where
  "ascii_lower c = (if 65 \<le> byte c \<and> byte c \<le> 90 then char_of (byte c + 32) else c)"

fun fold_ascii :: "string \<Rightarrow> string" where
  "fold_ascii [] = []"
| "fold_ascii (c # cs) =
     (if c = CHR 0xC5 \<and> take 1 cs = [CHR 0xBF] then CHR ''s'' # fold_ascii (drop 1 cs)
      else if c = CHR 0xE2 \<and> take 2 cs = [CHR 0x84, CHR 0xAA] then CHR ''k'' # fold_ascii (drop 2 cs)
      else ascii_lower c # fold_ascii cs)"

definition EqualFold_ascii :: "string \<Rightarrow> string \<Rightarrow> bool" where
  "EqualFold_ascii s word = (fold_ascii s = map ascii_lower word)"

section \<open>HTTP responses\<close>

text \<open>The status line is written once, by the first header write; \<open>http.Error\<close> writes it and the text.\<close>

record http_response =
  rw_status :: "int option"
  rw_body :: string

definition http_Error :: "string \<Rightarrow> int \<Rightarrow> http_response \<Rightarrow> http_response" where
  "http_Error txt code rw =
     rw\<lparr>rw_status := (if rw_status rw = None then Some code else rw_status rw), rw_body := rw_body rw @ txt @ [CHR 0x0A]\<rparr>"

end
