(* ===== verification/Idempotency_GRPC.thy ===== *)
theory Idempotency_GRPC
  imports Idempotency Principal Go_Path
begin

text \<open>
  The gRPC side of the idempotency package (\<open>src/idempotency/grpc.go\<close> and
  \<open>context.go\<close>): the interface the interceptor needs of a manager, the request fingerprint,
  the replay of a cached response and the interceptor itself. The interface is a locale over the
  record specification of \<open>Idempotency\<close>; the Redis manager satisfies it, so a request that
  was answered once is answered again with the same response and without running its handler.
\<close>

section \<open>Keys in the context\<close>

text \<open>\<open>^[A-Za-z0-9][A-Za-z0-9._:-]{7,127}$\<close>\<close>

definition alnum :: "char \<Rightarrow> bool" where
  "alnum c \<longleftrightarrow> c \<in> {CHR ''a''..CHR ''z''} \<or> c \<in> {CHR ''A''..CHR ''Z''} \<or> c \<in> {CHR ''0''..CHR ''9''}"

definition Valid :: "string \<Rightarrow> bool" where
  "Valid key =
     (case key of
        [] \<Rightarrow> False
      | c # cs \<Rightarrow> alnum c \<and> 7 \<le> length cs \<and> length cs \<le> 127 \<and>
          list_all (\<lambda>x. alnum x \<or> x \<in> set ''._:-'') cs)"

definition WithContext_idem :: "go_context \<Rightarrow> string \<Rightarrow> go_context" where
  "WithContext_idem ctx key = ctx\<lparr>ctxIdempotencyKey := Some key\<rparr>"

definition FromContext_idem :: "go_context \<Rightarrow> string \<times> bool" where
  "FromContext_idem ctx =
     (case ctxIdempotencyKey ctx of None \<Rightarrow> ([], False) | Some key \<Rightarrow> (key, key \<noteq> []))"

section \<open>gRPC status values\<close>

text \<open>
  An error of a handler is a status or some other error, which \<open>status.Convert\<close> turns into
  \<open>Unknown\<close> with its text. \<open>status.Error\<close> with code OK is no error at all.
\<close>

datatype rpc_error = Status int string | NotStatus string

fun Convert :: "rpc_error \<Rightarrow> int \<times> string" where
  "Convert (Status c m) = (c, m)"
| "Convert (NotStatus m) = (2, m)"

definition status_Error :: "int \<Rightarrow> string \<Rightarrow> rpc_error option" where
  "status_Error c m = (if c = 0 then None else Some (Status c m))"

definition codes_Canceled :: int where "codes_Canceled = 1"
definition codes_Unknown :: int where "codes_Unknown = 2"
definition codes_InvalidArgument :: int where "codes_InvalidArgument = 3"
definition codes_DeadlineExceeded :: int where "codes_DeadlineExceeded = 4"
definition codes_AlreadyExists :: int where "codes_AlreadyExists = 6"
definition codes_ResourceExhausted :: int where "codes_ResourceExhausted = 8"
definition codes_Aborted :: int where "codes_Aborted = 10"
definition codes_Internal :: int where "codes_Internal = 13"
definition codes_Unavailable :: int where "codes_Unavailable = 14"
definition codes_DataLoss :: int where "codes_DataLoss = 15"

lemmas code_defs = codes_Canceled_def codes_Unknown_def codes_InvalidArgument_def
  codes_DeadlineExceeded_def codes_AlreadyExists_def codes_ResourceExhausted_def codes_Aborted_def
  codes_Internal_def codes_Unavailable_def codes_DataLoss_def

definition retryableGRPCCode :: "int \<Rightarrow> bool" where
  "retryableGRPCCode code \<longleftrightarrow>
     code \<in> {codes_Canceled, codes_Unknown, codes_DeadlineExceeded, codes_ResourceExhausted,
             codes_Aborted, codes_Internal, codes_Unavailable, codes_DataLoss}"

section \<open>What the interceptor is given\<close>

text \<open>
  The response as it is stored, and the libraries: protobuf on requests and responses (\<open>None\<close>:
  the value is not a protobuf message), SHA-256 in hexadecimal, JSON on the stored response, the
  descriptor registry.
\<close>

record cachedGRPCResponse = Payload :: string

datatype 'o descriptor = ServiceDescriptor "string \<Rightarrow> 'o option" | OtherDescriptor

record ('q, 'p, 'o) grpc_lib =
  MarshalRequest :: "'q \<Rightarrow> (goerr + string) option"
  MarshalResponse :: "'p \<Rightarrow> (goerr + string) option"
  Sha256Hex :: "string \<Rightarrow> string"
  UnmarshalCached :: "string \<Rightarrow> goerr + cachedGRPCResponse"
  FindDescriptorByName :: "string \<Rightarrow> goerr + 'o descriptor"
  UnmarshalOutput :: "'o \<Rightarrow> string \<Rightarrow> goerr + 'p"

text \<open>
  \<open>ManagerAPI\<close>. The lease operations are there when the manager also implements
  \<open>leaseManager\<close>; \<open>apiStopLease\<close> is the stop function of a started lease, run after the
  handler, with the renewals that happened meanwhile.
\<close>

record 's ManagerAPI =
  apiEnabled :: bool
  apiBegin :: "string \<Rightarrow> string \<Rightarrow> 's \<Rightarrow> (goerr + Decision) \<times> 's"
  apiComplete :: "string \<Rightarrow> string \<Rightarrow> cachedGRPCResponse \<Rightarrow> 's \<Rightarrow> goerr option \<times> 's"
  apiFail :: "string \<Rightarrow> string \<Rightarrow> Failure \<Rightarrow> 's \<Rightarrow> goerr option \<times> 's"
  apiAbort :: "string \<Rightarrow> string \<Rightarrow> 's \<Rightarrow> goerr option \<times> 's"
  apiStartLease :: "(string \<Rightarrow> string \<Rightarrow> goerr + int) option"
  apiStopLease :: "string \<Rightarrow> string \<Rightarrow> 's \<Rightarrow> goerr option \<times> 's"

text \<open>A pattern with a syntax error matches nothing.\<close>

fun matchesAny :: "string \<Rightarrow> string list \<Rightarrow> bool" where
  "matchesAny v [] = False"
| "matchesAny v (p # ps) = (if path_Match p v = Inr True then True else matchesAny v ps)"

text \<open>What is hashed into the fingerprint: the caller, the method and the request, NUL between them.\<close>

definition fingerprintInput :: "Principal \<Rightarrow> string \<Rightarrow> string \<Rightarrow> string" where
  "fingerprintInput caller fullMethod payload =
     ID caller @ (CHR 0x00 # Type caller) @ (CHR 0x00 # TenantID caller) @ (CHR 0x00 # MembershipID caller)
     @ (CHR 0x00 # SessionID caller) @ (CHR 0x00 # fullMethod @ [CHR 0x00]) @ payload"

definition grpcFingerprint ::
  "('q, 'p, 'o) grpc_lib \<Rightarrow> go_context \<Rightarrow> string \<Rightarrow> 'q \<Rightarrow> goerr + string" where
  "grpcFingerprint G ctx fullMethod request =
     (case MarshalRequest G request of
        None \<Rightarrow> Inl (Msg ''request is not protobuf'')
      | Some (Inl e) \<Rightarrow> Inl e
      | Some (Inr payload) \<Rightarrow>
          Inr (Sha256Hex G (fingerprintInput (fst (FromContext (Some ctx))) fullMethod payload)))"

text \<open>\<open>strings.TrimPrefix(s, "/")\<close> and \<open>strings.Cut(s, "/")\<close>.\<close>

definition TrimSlash :: "string \<Rightarrow> string" where
  "TrimSlash s = (case s of [] \<Rightarrow> [] | c # t \<Rightarrow> if c = CHR ''/'' then t else s)"

definition CutSlash :: "string \<Rightarrow> string \<times> string \<times> bool" where
  "CutSlash s =
     (let a = takeWhile (\<lambda>c. c \<noteq> CHR ''/'') s; b = dropWhile (\<lambda>c. c \<noteq> CHR ''/'') s
      in case b of [] \<Rightarrow> (s, [], False) | _ # r \<Rightarrow> (a, r, True))"

definition grpcMethodOutput :: "('q, 'p, 'o) grpc_lib \<Rightarrow> string \<Rightarrow> goerr + 'o" where
  "grpcMethodOutput G fullMethod =
     (case CutSlash (TrimSlash fullMethod) of (serviceName, methodName, ok) \<Rightarrow>
        if \<not> ok then Inl (Msg ''invalid full method'')
        else
          (case FindDescriptorByName G serviceName of
             Inl e \<Rightarrow> Inl e
           | Inr OtherDescriptor \<Rightarrow> Inl (Msg ''descriptor is not a service'')
           | Inr (ServiceDescriptor methods) \<Rightarrow>
               (case methods methodName of
                  None \<Rightarrow> Inl (Msg ''method descriptor not found'')
                | Some out \<Rightarrow> Inr out)))"

text \<open>A call's answer: the response and the error, each of which may be nil.\<close>

type_synonym 'p answer = "'p option \<times> rpc_error option"

definition replayGRPCResponse ::
  "('q, 'p, 'o) grpc_lib \<Rightarrow> string \<Rightarrow> string option \<Rightarrow> 'p answer" where
  "replayGRPCResponse G fullMethod encoded =
     (case UnmarshalCached G (case encoded of None \<Rightarrow> [] | Some e \<Rightarrow> e) of
        Inl e \<Rightarrow> (None, status_Error codes_Unavailable ''decode idempotent response'')
      | Inr cached \<Rightarrow>
          (case grpcMethodOutput G fullMethod of
             Inl e \<Rightarrow> (None, status_Error codes_Unavailable ''resolve idempotent response'')
           | Inr out \<Rightarrow>
               (case UnmarshalOutput G out (Payload cached) of
                  Inl e \<Rightarrow> (None, status_Error codes_Unavailable ''decode idempotent response payload'')
                | Inr response \<Rightarrow> (Some response, None))))"

section \<open>The interceptor\<close>

text \<open>
  The part after the key was acquired: the handler runs on the world \<open>'w\<close>, the lease is
  stopped, and the outcome is persisted. A persisting error is logged and does not change the
  answer.
\<close>

definition persistOutcome ::
  "('q, 'p, 'o) grpc_lib \<Rightarrow> 's ManagerAPI \<Rightarrow> string \<Rightarrow> string \<Rightarrow> 'p answer \<Rightarrow> 's \<Rightarrow> 'p answer \<times> 's" where
  "persistOutcome G A key owner r s =
     (case r of
        (response, Some handlerErr) \<Rightarrow>
          (let (code, message) = Convert handlerErr;
               s' = (if retryableGRPCCode code then snd (apiAbort A key owner s)
                     else snd (apiFail A key owner (no_failure\<lparr>fMessage := message, fGRPCCode := code\<rparr>) s))
           in ((response, Some handlerErr), s'))
      | (response, None) \<Rightarrow>
          (case Option.bind response (MarshalResponse G) of
             None \<Rightarrow> ((None, status_Error codes_Internal ''idempotent response is not protobuf''), s)
           | Some (Inl e) \<Rightarrow> ((None, status_Error codes_Internal ''encode idempotent response''), s)
           | Some (Inr payload) \<Rightarrow>
               ((response, None), snd (apiComplete A key owner \<lparr>Payload = payload\<rparr> s))))"

definition runAcquired ::
  "('q, 'p, 'o) grpc_lib \<Rightarrow> 's ManagerAPI \<Rightarrow> string \<Rightarrow> string \<Rightarrow> 'q \<Rightarrow> ('q \<Rightarrow> 'w \<Rightarrow> 'p answer \<times> 'w) \<Rightarrow>
   's \<Rightarrow> 'w \<Rightarrow> 'p answer \<times> 's \<times> 'w" where
  "runAcquired G A key owner request handler s w =
     (let (r, w') = handler request w;
          (leaseErr, s') = (case apiStartLease A of None \<Rightarrow> (None, s) | Some _ \<Rightarrow> apiStopLease A key owner s)
      in case leaseErr of
           Some e \<Rightarrow>
             ((None, if errors_Is e ErrOwnershipExpired
                     then status_Error codes_Aborted ''idempotency ownership expired''
                     else status_Error codes_Unavailable ''idempotency lease is unavailable''), s', w')
         | None \<Rightarrow> (let (a, s'') = persistOutcome G A key owner r s' in (a, s'', w')))"

definition UnaryServerInterceptor ::
  "('q, 'p, 'o) grpc_lib \<Rightarrow> 's ManagerAPI option \<Rightarrow> string list \<Rightarrow> go_context \<Rightarrow> 'q \<Rightarrow> string \<Rightarrow>
   ('q \<Rightarrow> 'w \<Rightarrow> 'p answer \<times> 'w) \<Rightarrow> 's \<Rightarrow> 'w \<Rightarrow> 'p answer \<times> 's \<times> 'w" where
  "UnaryServerInterceptor G manager methods ctx request fullMethod handler s w =
     (let (key, ok) = FromContext_idem ctx;
          pass = (let (a, w') = handler request w in (a, s, w'))
      in case manager of
           None \<Rightarrow> pass
         | Some A \<Rightarrow>
             if \<not> ok \<or> \<not> apiEnabled A \<or> \<not> matchesAny fullMethod methods then pass
             else
               (case grpcFingerprint G ctx fullMethod request of
                  Inl e \<Rightarrow> ((None, status_Error codes_InvalidArgument ''invalid idempotent request''), s, w)
                | Inr fingerprint \<Rightarrow>
                    (case apiBegin A key fingerprint s of
                       (Inl e, s') \<Rightarrow> ((None, status_Error codes_Unavailable ''idempotency is unavailable''), s', w)
                     | (Inr d, s') \<Rightarrow>
                         if dState d = StateCompleted then (replayGRPCResponse G fullMethod (dResponse d), s', w)
                         else if dState d = StateFailed then
                           ((None, status_Error (fGRPCCode (dFailure d) mod 2 ^ 32) (fMessage (dFailure d))), s', w)
                         else if dState d = StateProcessing then
                           ((None, status_Error codes_Aborted ''request is already processing''), s', w)
                         else if dState d = StateConflict then
                           ((None, status_Error codes_AlreadyExists ''idempotency key belongs to a different request''), s', w)
                         else if dState d \<noteq> StateAcquired then
                           ((None, status_Error codes_Unavailable ''idempotency state is invalid''), s', w)
                         else
                           (case (case apiStartLease A of None \<Rightarrow> Inr 0 | Some start \<Rightarrow> start key (dOwner d)) of
                              Inl e \<Rightarrow> ((None, status_Error codes_Unavailable ''idempotency lease is unavailable''), s', w)
                            | Inr _ \<Rightarrow> runAcquired G A key (dOwner d) request handler s' w))))"

section \<open>The contract of a manager, and what the interceptor makes of it\<close>

text \<open>
  \<open>rec key c s\<close>: in state \<open>s\<close> the record of \<open>key\<close> is \<open>c\<close>. The manager acts
  for one call with the owner token \<open>token\<close>, and a response it stores fits its size limit
  when \<open>fits\<close> says so.
\<close>

locale manager_contract =
  fixes A :: "'s ManagerAPI"
    and rec :: "string \<Rightarrow> record_state \<Rightarrow> 's \<Rightarrow> bool"
    and encode :: "cachedGRPCResponse \<Rightarrow> string"
    and fits :: "cachedGRPCResponse \<Rightarrow> bool"
    and token :: string
  assumes enabled: "apiEnabled A"
    and encode_nonempty: "encode p \<noteq> []"
    and begin_absent: "rec key Absent s \<Longrightarrow>
      \<exists>d s'. apiBegin A key fp s = (Inr d, s') \<and> dState d = StateAcquired \<and> dOwner d = token \<and>
             rec key (Processing fp token) s'"
    and begin_completed: "rec key (Completed fp e) s \<Longrightarrow> e \<noteq> [] \<Longrightarrow>
      \<exists>d s'. apiBegin A key fp s = (Inr d, s') \<and> dState d = StateCompleted \<and> dResponse d = Some e \<and>
             rec key (Completed fp e) s'"
    and begin_conflict: "rec key c s \<Longrightarrow> c \<in> {Processing f v, Completed f e} \<Longrightarrow> f \<noteq> fp \<Longrightarrow>
      \<exists>d s'. apiBegin A key fp s = (Inr d, s') \<and> dState d = StateConflict \<and> rec key c s'"
    and begin_processing: "rec key (Processing fp v) s \<Longrightarrow>
      \<exists>d s'. apiBegin A key fp s = (Inr d, s') \<and> dState d = StateProcessing \<and> rec key (Processing fp v) s'"
    and lease: "rec key (Processing fp token) s \<Longrightarrow> key \<noteq> [] \<Longrightarrow>
      (\<forall>start. apiStartLease A = Some start \<longrightarrow> (\<exists>i. start key token = Inr i)) \<and>
      (\<exists>s'. apiStopLease A key token s = (None, s') \<and> rec key (Processing fp token) s')"
    and complete: "rec key (Processing fp token) s \<Longrightarrow> fits p \<Longrightarrow>
      \<exists>s'. apiComplete A key token p s = (None, s') \<and> rec key (Completed fp (encode p)) s'"
    and abort: "rec key (Processing fp token) s \<Longrightarrow> key \<noteq> [] \<Longrightarrow>
      \<exists>s'. apiAbort A key token s = (None, s') \<and> rec key Absent s'"
begin

text \<open>A protected call: it carries a key and its method is selected.\<close>

lemma protected_begin:
  assumes "FromContext_idem ctx = (key, True)" "matchesAny fullMethod methods"
    and "grpcFingerprint G ctx fullMethod request = Inr fp"
    and "apiBegin A key fp s = (Inr d, s')"
  shows "dState d = StateAcquired \<Longrightarrow> apiStartLease A = None \<or> (\<exists>start i. apiStartLease A = Some start \<and> start key (dOwner d) = Inr i) \<Longrightarrow>
         UnaryServerInterceptor G (Some A) methods ctx request fullMethod handler s w =
         runAcquired G A key (dOwner d) request handler s' w"
    and "dState d = StateCompleted \<Longrightarrow>
         UnaryServerInterceptor G (Some A) methods ctx request fullMethod handler s w =
         (replayGRPCResponse G fullMethod (dResponse d), s', w)"
    and "dState d = StateConflict \<Longrightarrow>
         UnaryServerInterceptor G (Some A) methods ctx request fullMethod handler s w =
         ((None, status_Error codes_AlreadyExists ''idempotency key belongs to a different request''), s', w)"
    and "dState d = StateProcessing \<Longrightarrow>
         UnaryServerInterceptor G (Some A) methods ctx request fullMethod handler s w =
         ((None, status_Error codes_Aborted ''request is already processing''), s', w)"
  using assms enabled by (auto simp: UnaryServerInterceptor_def State_defs)

text \<open>
  An acquired call runs its handler once, keeps its lease, and persists the outcome under its token.
\<close>

lemma acquired_call:
  assumes c: "FromContext_idem ctx = (key, True)" "matchesAny fullMethod methods"
      "grpcFingerprint G ctx fullMethod request = Inr fp"
    and r: "rec key Absent s"
  shows "\<exists>s2. rec key (Processing fp token) s2 \<and>
           UnaryServerInterceptor G (Some A) methods ctx request fullMethod handler s w =
             (let (r, w') = handler request w; (a, s3) = persistOutcome G A key token r s2 in (a, s3, w'))"
proof -
  from c(1) have key: "key \<noteq> []" by (auto simp: FromContext_idem_def split: option.splits)
  obtain d s1 where b: "apiBegin A key fp s = (Inr d, s1)" "dState d = StateAcquired" "dOwner d = token"
    and p: "rec key (Processing fp token) s1" using begin_absent[OF r] by blast
  note L = lease[OF p key]
  from L b(3) have "apiStartLease A = None \<or> (\<exists>start i. apiStartLease A = Some start \<and> start key (dOwner d) = Inr i)"
    by (cases "apiStartLease A") auto
  from protected_begin(1)[OF c b(1,2) this, of handler w] b(3)
  have U: "UnaryServerInterceptor G (Some A) methods ctx request fullMethod handler s w =
           runAcquired G A key token request handler s1 w" by simp
  from L p obtain s2 where
    "(case apiStartLease A of None \<Rightarrow> (None, s1) | Some _ \<Rightarrow> apiStopLease A key token s1) = (None, s2)"
    "rec key (Processing fp token) s2" by (cases "apiStartLease A") auto
  with U show ?thesis by (auto simp: runAcquired_def split: prod.splits)
qed

lemma first_call:
  assumes c: "FromContext_idem ctx = (key, True)" "matchesAny fullMethod methods"
      "grpcFingerprint G ctx fullMethod request = Inr fp"
    and r: "rec key Absent s"
    and h: "handler request w = ((Some response, None), w')" "MarshalResponse G response = Some (Inr payload)"
      "fits \<lparr>Payload = payload\<rparr>"
  shows "\<exists>s'. UnaryServerInterceptor G (Some A) methods ctx request fullMethod handler s w =
                ((Some response, None), s', w') \<and> rec key (Completed fp (encode \<lparr>Payload = payload\<rparr>)) s'"
proof -
  from acquired_call[OF c r, of handler w] obtain s2 where p: "rec key (Processing fp token) s2"
    and U: "UnaryServerInterceptor G (Some A) methods ctx request fullMethod handler s w =
      (let (r, w') = handler request w; (a, s3) = persistOutcome G A key token r s2 in (a, s3, w'))"
    by (elim exE conjE)
  obtain s3 where "apiComplete A key token \<lparr>Payload = payload\<rparr> s2 = (None, s3)"
    "rec key (Completed fp (encode \<lparr>Payload = payload\<rparr>)) s3" using complete[OF p h(3)] by blast
  with U h show ?thesis by (simp add: persistOutcome_def)
qed

lemma retryable_failure:
  assumes c: "FromContext_idem ctx = (key, True)" "matchesAny fullMethod methods"
      "grpcFingerprint G ctx fullMethod request = Inr fp"
    and r: "rec key Absent s"
    and h: "handler request w = ((partial, Some err), w')" "retryableGRPCCode (fst (Convert err))"
  shows "\<exists>s'. UnaryServerInterceptor G (Some A) methods ctx request fullMethod handler s w =
                ((partial, Some err), s', w') \<and> rec key Absent s'"
proof -
  from c(1) have key: "key \<noteq> []" by (auto simp: FromContext_idem_def split: option.splits)
  from acquired_call[OF c r, of handler w] obtain s2 where p: "rec key (Processing fp token) s2"
    and U: "UnaryServerInterceptor G (Some A) methods ctx request fullMethod handler s w =
      (let (r, w') = handler request w; (a, s3) = persistOutcome G A key token r s2 in (a, s3, w'))"
    by (elim exE conjE)
  obtain s3 where "apiAbort A key token s2 = (None, s3)" "rec key Absent s3" using abort[OF p key] by blast
  with U h show ?thesis by (simp add: persistOutcome_def split: prod.splits)
qed

lemma replayed_call:
  assumes c: "FromContext_idem ctx = (key, True)" "matchesAny fullMethod methods"
      "grpcFingerprint G ctx fullMethod request = Inr fp"
    and r: "rec key (Completed fp (encode \<lparr>Payload = payload\<rparr>)) s"
    and u: "UnmarshalCached G (encode \<lparr>Payload = payload\<rparr>) = Inr \<lparr>Payload = payload\<rparr>"
      "grpcMethodOutput G fullMethod = Inr out" "UnmarshalOutput G out payload = Inr response"
  shows "\<exists>s'. UnaryServerInterceptor G (Some A) methods ctx request fullMethod handler s w =
                ((Some response, None), s', w) \<and> rec key (Completed fp (encode \<lparr>Payload = payload\<rparr>)) s'"
proof -
  obtain d s' where b: "apiBegin A key fp s = (Inr d, s')" "dState d = StateCompleted"
    "dResponse d = Some (encode \<lparr>Payload = payload\<rparr>)" "rec key (Completed fp (encode \<lparr>Payload = payload\<rparr>)) s'"
    using begin_completed[OF r encode_nonempty] by blast
  from protected_begin(2)[OF c b(1,2), of handler w] b u show ?thesis by (simp add: replayGRPCResponse_def)
qed

text \<open>A call on a key that is being processed, or that belongs to another request, runs no handler.\<close>

lemma busy_call:
  assumes c: "FromContext_idem ctx = (key, True)" "matchesAny fullMethod methods"
      "grpcFingerprint G ctx fullMethod request = Inr fp"
    and r: "rec key (Processing f v) s"
  shows "\<exists>s'. UnaryServerInterceptor G (Some A) methods ctx request fullMethod handler s w =
                ((None, if f = fp then status_Error codes_Aborted ''request is already processing''
                        else status_Error codes_AlreadyExists ''idempotency key belongs to a different request''), s', w)
              \<and> rec key (Processing f v) s'"
proof (cases "f = fp")
  case True
  then obtain d s' where b: "apiBegin A key fp s = (Inr d, s')" "dState d = StateProcessing" "rec key (Processing f v) s'"
    using begin_processing r by blast
  from protected_begin(4)[OF c b(1,2), of handler w] b True show ?thesis by simp
next
  case False
  then obtain d s' where b: "apiBegin A key fp s = (Inr d, s')" "dState d = StateConflict" "rec key (Processing f v) s'"
    using begin_conflict[OF r] by blast
  from protected_begin(3)[OF c b(1,2), of handler w] b False show ?thesis by simp
qed

end

section \<open>The Redis manager provides the contract\<close>

text \<open>What one intercepted call meets: its owner token, the fate of its calls, its lease's ticks.\<close>

record call_env =
  envToken :: string
  envBegin :: link
  envPersist :: link
  envLease :: "lease_event list"

definition manager_api :: "cachedGRPCResponse json_lib \<Rightarrow> 's Manager \<Rightarrow> call_env \<Rightarrow> 's ManagerAPI" where
  "manager_api J m e =
     \<lparr>apiEnabled = Enabled (Some m),
      apiBegin = Begin J m (envBegin e) (envToken e),
      apiComplete = Complete J m (envPersist e),
      apiFail = Fail J m (envPersist e),
      apiAbort = Abort m (envPersist e),
      apiStartLease = Some (StartLease m),
      apiStopLease = (\<lambda>key owner. lease_loop m key owner (envLease e))\<rparr>"

text \<open>A call without network faults, with a fresh non-empty token.\<close>

definition calm :: "call_env \<Rightarrow> bool" where
  "calm e \<longleftrightarrow> envToken e \<noteq> [] \<and> envBegin e = Served \<and> envPersist e = Served \<and>
     list_all (\<lambda>x. case x of Tick l \<Rightarrow> l = Served | _ \<Rightarrow> True) (envLease e)"

lemma calm_ticks: "calm e \<Longrightarrow> \<forall>x \<in> set (envLease e). \<forall>l. x = Tick l \<longrightarrow> l = Served"
  by (auto simp: calm_def list_all_iff)

lemma Begin_reply:
  assumes "redis_server R" "good_manager R m" "is_record R (storageKey m key) c s"
    and "\<And>f x. c \<noteq> Failed f x"
  shows "\<exists>d s'. Begin J m Served w key fp s = (Inr d, s') \<and>
      dState d = hd (fst (spec_begin fp w c)) \<and>
      dResponse d = (if fst (spec_begin fp w c) ! 1 \<noteq> [] then Some (fst (spec_begin fp w c) ! 1) else None) \<and>
      dOwner d = (if c = Absent then w else []) \<and>
      is_record R (storageKey m key) (snd (spec_begin fp w c)) s'"
proof -
  let ?sc = "beginScript R (storageKey m key) fp (Milliseconds (cfgProcessingTTL (cfg m))) w"
  note r = redis_server.begin_refines[OF assms(1,3) good_manager_ttl(1)[OF assms(2)], of fp w]
  obtain v s' where v: "?sc s = (v, s')" by fastforce
  with r have v1: "v = fst (spec_begin fp w c)" and s': "is_record R (storageKey m key) (snd (spec_begin fp w c)) s'"
    by (simp_all add: is_record_def)
  show ?thesis
    using v v1 s' assms(2,4)
    by (cases c) (auto simp: Begin_def good_manager_def Enabled_def Run_def Let_def State_defs split: if_splits)
qed

lemma Complete_served:
  assumes "redis_server R" "good_manager R m" "is_record R (storageKey m key) (Processing fp w) s"
    and "Marshal J p = Inr e" "int (length e) \<le> cfgMaxResponseBytes (cfg m)"
  shows "\<exists>s'. Complete J m Served key w p s = (None, s') \<and> is_record R (storageKey m key) (Completed fp e) s'"
  using assms redis_server.own_refines(3,4)[OF assms(1,3) good_manager_ttl(2)[OF assms(2)], of w e]
  by (auto simp: Complete_def good_manager_def Run_def changed_one_def spec_complete_def is_record_def)

lemma Abort_served:
  assumes "redis_server R" "good_manager R m" "is_record R (storageKey m key) (Processing fp w) s"
    and "key \<noteq> []" "w \<noteq> []"
  shows "\<exists>s'. Abort m Served key w s = (None, s') \<and> is_record R (storageKey m key) Absent s'"
  using assms redis_server.own_refines(7,8)[OF assms(1,3), of 1 w]
  by (auto simp: Abort_def good_manager_def Enabled_def Run_def changed_one_def spec_abort_def is_record_def)

lemma StartLease_good: "good_manager R m \<Longrightarrow> key \<noteq> [] \<Longrightarrow> w \<noteq> [] \<Longrightarrow> \<exists>i. StartLease m key w = Inr i"
  by (auto simp: StartLease_def good_manager_def Enabled_def Let_def Millisecond_def)

lemma manager_provides_contract:
  assumes R: "redis_server R" and g: "good_manager R m" and e: "calm e"
    and enc: "\<And>p. Marshal J p = Inr (encode p)" "\<And>p. encode p \<noteq> []"
  shows "manager_contract (manager_api J m e) (\<lambda>key c s. is_record R (storageKey m key) c s) encode
           (\<lambda>p. int (length (encode p)) \<le> cfgMaxResponseBytes (cfg m)) (envToken e)"
proof (unfold_locales, goal_cases)
  case 1
  then show ?case using g by (simp add: manager_api_def Enabled_def good_manager_def)
next
  case (2 p)
  then show ?case by (rule enc(2))
next
  case (3 key s fp)
  then show ?case
    using Begin_reply[OF R g 3, of J "envToken e" fp] e by (auto simp: manager_api_def calm_def State_defs)
next
  case (4 key fp x s)
  then show ?case
    using Begin_reply[OF R g 4(1), of J "envToken e" fp] e by (auto simp: manager_api_def calm_def State_defs)
next
  case (5 key c s f v x fp)
  then show ?case
    using Begin_reply[OF R g 5(1), of J "envToken e" fp] e by (auto simp: manager_api_def calm_def State_defs)
next
  case (6 key fp v s)
  then show ?case
    using Begin_reply[OF R g 6, of J "envToken e" fp] e by (auto simp: manager_api_def calm_def State_defs)
next
  case (7 key fp s)
  then show ?case
    using redis_server.lease_keeps[OF R g 7(2) _ 7(1) calm_ticks[OF e]] StartLease_good[OF g 7(2)] e
    by (auto simp: manager_api_def calm_def is_record_def)
next
  case (8 key fp s p)
  then show ?case
    using Complete_served[OF R g 8(1) enc(1)] e by (auto simp: manager_api_def calm_def)
next
  case (9 key fp s)
  then show ?case
    using Abort_served[OF R g 9(1,2)] e by (auto simp: manager_api_def calm_def)
qed

section \<open>Concrete libraries\<close>

definition cached_json :: "cachedGRPCResponse json_lib" where
  "cached_json =
     \<lparr>Marshal = (\<lambda>p. Inr (CHR ''P'' # Payload p)), MarshalFailure = (\<lambda>f. Inr (fMessage f)),
      UnmarshalFailure = (\<lambda>x. Inr (no_failure\<lparr>fMessage := x\<rparr>))\<rparr>"

definition demo_grpc :: "(string, string, unit) grpc_lib" where
  "demo_grpc =
     \<lparr>MarshalRequest = (\<lambda>q. Some (Inr q)), MarshalResponse = (\<lambda>p. Some (Inr p)), Sha256Hex = id,
      UnmarshalCached = (\<lambda>x. if x = [] then Inl (Msg ''empty'') else Inr \<lparr>Payload = tl x\<rparr>),
      FindDescriptorByName = (\<lambda>_. Inr (ServiceDescriptor (\<lambda>_. Some ()))),
      UnmarshalOutput = (\<lambda>_ x. Inr x)\<rparr>"

definition demo_env :: "string \<Rightarrow> call_env" where
  "demo_env t = \<lparr>envToken = t, envBegin = Served, envPersist = Served, envLease = [Tick Served]\<rparr>"

lemma demo_calm: "t \<noteq> [] \<Longrightarrow> calm (demo_env t)"
  by (simp add: calm_def demo_env_def)

interpretation demo_api: manager_contract
  "manager_api cached_json demo_manager (demo_env ''w'')"
  "\<lambda>key c s. is_record mem_redis (storageKey demo_manager key) c s"
  "\<lambda>p. CHR ''P'' # Payload p"
  "\<lambda>p. int (length (CHR ''P'' # Payload p)) \<le> cfgMaxResponseBytes (cfg demo_manager)" "''w''"
  using manager_provides_contract[OF mem.redis_server_axioms demo_good demo_calm[of "''w''"],
      where J = cached_json and encode = "\<lambda>p. CHR ''P'' # Payload p"]
  by (simp add: demo_env_def cached_json_def)

section \<open>Properties\<close>

text \<open>C4. Exactly once, while Redis works and the record lives: when the key is free, both calls reach Redis without
  faults and keep their lease, and the encoded response is within the size limit, the first call runs its handler
  once and is answered with the handler's response, and a later call with the same key and fingerprint is answered
  with the same response and leaves the world as it is, whatever its handler would do, whatever operations on the
  key ran in between, provided the record has not expired. (An oversized response, a failed write of the outcome or
  the record's expiry let the second handler run.)
\<close>

theorem grpc_exactly_once:
  assumes "redis_server R" "good_manager R m" "calm e1" "calm e2"
    and "\<forall>p. Marshal J p = Inr (encode p) \<and> encode p \<noteq> []"
    and "UnmarshalCached G (encode \<lparr>Payload = payload\<rparr>) = Inr \<lparr>Payload = payload\<rparr>"
    and "grpcMethodOutput G fullMethod = Inr out" "UnmarshalOutput G out payload = Inr response"
    and "FromContext_idem ctx = (key, True)" "matchesAny fullMethod methods"
    and "grpcFingerprint G ctx fullMethod request = Inr fp"
    and "is_record R (storageKey m key) Absent s"
    and "handler request w = ((Some response, None), w')" "MarshalResponse G response = Some (Inr payload)"
    and "int (length (encode \<lparr>Payload = payload\<rparr>)) \<le> cfgMaxResponseBytes (cfg m)"
    and "UnaryServerInterceptor G (Some (manager_api J m e1)) methods ctx request fullMethod handler s w = (a1, s1, w1)"
    and "OExpire \<notin> set ys"
    and "FromContext_idem ctx2 = (key, True)" "grpcFingerprint G ctx2 fullMethod request2 = Inr fp"
  shows "a1 = (Some response, None) \<and> w1 = w' \<and>
         (\<exists>s3. UnaryServerInterceptor G (Some (manager_api J m e2)) methods ctx2 request2 fullMethod handler2
                 (after J m key ys s1) v = ((Some response, None), s3, v))"
proof -
  from assms(5) have enc: "\<And>p. Marshal J p = Inr (encode p)" "\<And>p. encode p \<noteq> []" by auto
  note C = manager_provides_contract[OF assms(1,2) _ enc]
  from manager_contract.first_call[OF C[OF assms(3)], where handler = handler and request = request and w = w, OF assms(9-15)] assms(16)
  have a: "a1 = (Some response, None)" "w1 = w'"
    and r: "is_record R (storageKey m key) (Completed fp (encode \<lparr>Payload = payload\<rparr>)) s1" by auto
  have "is_record R (storageKey m key) (Completed fp (encode \<lparr>Payload = payload\<rparr>)) (after J m key ys s1)"
    using redis_server.finished_after[OF assms(1,2) r _ assms(17)] by (simp add: finished_def)
  from manager_contract.replayed_call[OF C[OF assms(4)], OF assms(18,10,19) this assms(6-8), of handler2 v] a
  show ?thesis by auto
qed

theorem grpc_exactly_once_witness:
  "fst (UnaryServerInterceptor demo_grpc (Some (manager_api cached_json demo_manager (demo_env ''w''))) [''/a.S/M'']
     (WithContext_idem Background ''k'') ''q'' ''/a.S/M'' (\<lambda>q (n::nat). ((Some ''p'', None), Suc n)) empty_keyspace 0) =
   (Some ''p'', None) \<and>
   (\<exists>s3. UnaryServerInterceptor demo_grpc (Some (manager_api cached_json demo_manager (demo_env ''x''))) [''/a.S/M'']
     (WithContext_idem Background ''k'') ''q'' ''/a.S/M'' (\<lambda>q (n::nat). ((Some ''other'', None), Suc n))
     (after cached_json demo_manager ''k'' [OAbort Served ''w'']
        (fst (snd (UnaryServerInterceptor demo_grpc (Some (manager_api cached_json demo_manager (demo_env ''w'')))
          [''/a.S/M''] (WithContext_idem Background ''k'') ''q'' ''/a.S/M''
          (\<lambda>q (n::nat). ((Some ''p'', None), Suc n)) empty_keyspace 0)))) 1 = ((Some ''p'', None), s3, 1))"
proof -
  let ?ctx = "WithContext_idem Background ''k''"
  let ?fp = "fingerprintInput no_principal ''/a.S/M'' ''q''"
  obtain a1 s1 w1 where U: "UnaryServerInterceptor demo_grpc (Some (manager_api cached_json demo_manager (demo_env ''w'')))
      [''/a.S/M''] ?ctx ''q'' ''/a.S/M'' (\<lambda>q (n::nat). ((Some ''p'', None), Suc n)) empty_keyspace 0 = (a1, s1, w1)"
    using prod_cases3 by blast
  have F: "grpcFingerprint demo_grpc ?ctx ''/a.S/M'' ''q'' = Inr ?fp"
    by (simp add: grpcFingerprint_def demo_grpc_def FromContext_def WithContext_idem_def Background_def)
  have K: "FromContext_idem ?ctx = (''k'', True)" by (simp add: FromContext_idem_def WithContext_idem_def)
  show ?thesis
    using grpc_exactly_once[OF mem.redis_server_axioms demo_good demo_calm[of "''w''"] demo_calm[of "''x''"]
        _ _ _ _ K _ F empty_is_absent _ _ _ U _ K F,
        where encode = "\<lambda>p. CHR ''P'' # Payload p" and payload = "''p''" and out = "()"
          and response = "''p''" and w' = 1 and ys = "[OAbort Served ''w'']" and v = 1
          and ?handler2.0 = "\<lambda>q (n::nat). ((Some ''other'', None), Suc n)"] U
    by (simp add: cached_json_def demo_grpc_def demo_manager_def New_def defaultMaxResponseBytes_def
        grpcMethodOutput_def CutSlash_def TrimSlash_def path_Match_literal glob_chars_def)
qed

text \<open>The hashed input identifies the request: for identities and methods without NUL bytes, two
  inputs are equal only if caller, method and payload all are, so distinct requests share a
  fingerprint only by a collision of SHA-256.
\<close>

theorem grpc_fingerprint_unambiguous:
  assumes "CHR 0x00 \<notin> set (ID p @ Type p @ TenantID p @ MembershipID p @ SessionID p @ f)"
    and "CHR 0x00 \<notin> set (ID p' @ Type p' @ TenantID p' @ MembershipID p' @ SessionID p' @ f')"
  shows "fingerprintInput p f x = fingerprintInput p' f' x' \<longleftrightarrow> p = p' \<and> f = f' \<and> x = x'"
  using assms by (cases p; cases p') (auto simp: fingerprintInput_def append_sep_inj)

theorem grpc_fingerprint_unambiguous_witness:
  "fingerprintInput (no_principal\<lparr>ID := ''u''\<rparr>) ''/a.S/M'' ''q'' \<noteq> fingerprintInput no_principal ''u/a.S/M'' ''q''"
  using grpc_fingerprint_unambiguous[of "no_principal\<lparr>ID := ''u''\<rparr>" "''/a.S/M''" no_principal "''u/a.S/M''" "''q''" "''q''"]
  by (simp add: no_principal_def)

text \<open>A handler that fails with a retryable code gives the key back: the error is returned and the
  next call with the key and fingerprint runs its handler and is answered by it.
\<close>

theorem grpc_retryable_failure_runs_again:
  assumes "redis_server R" "good_manager R m" "calm e1" "calm e2"
    and "\<forall>p. Marshal J p = Inr (encode p) \<and> encode p \<noteq> []"
    and "FromContext_idem ctx = (key, True)" "matchesAny fullMethod methods"
    and "grpcFingerprint G ctx fullMethod request = Inr fp"
    and "is_record R (storageKey m key) Absent s"
    and "handler request w = ((partial, Some err), w')" "retryableGRPCCode (fst (Convert err))"
    and "UnaryServerInterceptor G (Some (manager_api J m e1)) methods ctx request fullMethod handler s w = (a1, s1, w1)"
    and "handler2 request w' = ((Some response, None), w2)" "MarshalResponse G response = Some (Inr payload)"
    and "int (length (encode \<lparr>Payload = payload\<rparr>)) \<le> cfgMaxResponseBytes (cfg m)"
  shows "a1 = (partial, Some err) \<and> w1 = w' \<and>
         (\<exists>s2. UnaryServerInterceptor G (Some (manager_api J m e2)) methods ctx request fullMethod handler2 s1 w' =
           ((Some response, None), s2, w2))"
proof -
  from assms(5) have enc: "\<And>p. Marshal J p = Inr (encode p)" "\<And>p. encode p \<noteq> []" by auto
  note C = manager_provides_contract[OF assms(1,2) _ enc]
  from manager_contract.retryable_failure[OF C[OF assms(3)], where handler = handler and request = request and w = w, OF assms(6-11)] assms(12)
  have a: "a1 = (partial, Some err)" "w1 = w'" and r: "is_record R (storageKey m key) Absent s1" by auto
  from manager_contract.first_call[OF C[OF assms(4)], where handler = handler2 and request = request and w = w', OF assms(6-8) r assms(13-15)] a show ?thesis by auto
qed

theorem grpc_retryable_failure_runs_again_witness:
  "\<exists>s2. UnaryServerInterceptor demo_grpc (Some (manager_api cached_json demo_manager (demo_env ''x''))) [''/a.S/M'']
     (WithContext_idem Background ''k'') ''q'' ''/a.S/M'' (\<lambda>q (n::nat). ((Some ''p'', None), Suc n))
     (fst (snd (UnaryServerInterceptor demo_grpc (Some (manager_api cached_json demo_manager (demo_env ''w''))) [''/a.S/M'']
        (WithContext_idem Background ''k'') ''q'' ''/a.S/M'' (\<lambda>q (n::nat). ((None, Some (Status 14 ''down'')), n)) empty_keyspace 0))) 0
     = ((Some ''p'', None), s2, 1)"
proof -
  let ?ctx = "WithContext_idem Background ''k''"
  obtain a1 s1 w1 where U: "UnaryServerInterceptor demo_grpc (Some (manager_api cached_json demo_manager (demo_env ''w'')))
      [''/a.S/M''] ?ctx ''q'' ''/a.S/M'' (\<lambda>q (n::nat). ((None, Some (Status 14 ''down'')), n)) empty_keyspace 0 = (a1, s1, w1)"
    using prod_cases3 by blast
  have F: "grpcFingerprint demo_grpc ?ctx ''/a.S/M'' ''q'' = Inr (fingerprintInput no_principal ''/a.S/M'' ''q'')"
    by (simp add: grpcFingerprint_def demo_grpc_def FromContext_def WithContext_idem_def Background_def)
  have K: "FromContext_idem ?ctx = (''k'', True)" by (simp add: FromContext_idem_def WithContext_idem_def)
  show ?thesis
    using grpc_retryable_failure_runs_again[OF mem.redis_server_axioms demo_good demo_calm[of "''w''"] demo_calm[of "''x''"]
        _ K _ F empty_is_absent _ _ U,
        where encode = "\<lambda>p. CHR ''P'' # Payload p" and payload = "''p''"
          and response = "''p''" and w' = 0 and ?w2.0 = 1 and err = "Status 14 ''down''" and partial = None
          and ?handler2.0 = "\<lambda>q (n::nat). ((Some ''p'', None), Suc n)"] U
    by (simp add: cached_json_def demo_grpc_def demo_manager_def New_def defaultMaxResponseBytes_def
        retryableGRPCCode_def code_defs path_Match_literal glob_chars_def)
qed

end
