(* ===== verification/SQL_Table.thy ===== *)
theory SQL_Table
  imports Go_Strings
begin

text \<open>
  The SQL the stores send, read as functions on a table: a table is the list of its rows, in any
  order, so a theorem about every list is a theorem about every physical order, and with it about
  every order in which rows that an \<open>ORDER BY\<close> does not distinguish may come. Statements can
  fail, and a commit can fail, be lost, or take effect although the client sees an error.
\<close>

section \<open>Statements\<close>

definition sql_update :: "('r \<Rightarrow> bool) \<Rightarrow> ('r \<Rightarrow> 'r) \<Rightarrow> 'r list \<Rightarrow> 'r list" where
  "sql_update p f rows = map (\<lambda>r. if p r then f r else r) rows"

definition sql_affected :: "('r \<Rightarrow> bool) \<Rightarrow> 'r list \<Rightarrow> nat" where
  "sql_affected p rows = length (filter p rows)"

definition sql_delete :: "('r \<Rightarrow> bool) \<Rightarrow> 'r list \<Rightarrow> 'r list" where
  "sql_delete p rows = filter (\<lambda>r. \<not> p r) rows"

text \<open>\<open>SELECT ... WHERE p ORDER BY key LIMIT n\<close>.\<close>

definition sql_select :: "('r \<Rightarrow> bool) \<Rightarrow> ('r \<Rightarrow> 'k::linorder) \<Rightarrow> nat \<Rightarrow> 'r list \<Rightarrow> 'r list" where
  "sql_select p key n rows = take n (sort_key key (filter p rows))"

lemma sql_update_Nil [simp, sql]: "sql_update p f [] = []"
  by (simp add: sql_update_def)

lemma set_sql_delete [simp, sql]: "set (sql_delete p rows) = {r \<in> set rows. \<not> p r}"
  by (auto simp: sql_delete_def)

lemma length_sql_delete [sql]: "length (sql_delete p rows) + sql_affected p rows = length rows"
  by (simp add: sql_delete_def sql_affected_def sum_length_filter_compl add.commute)

lemma sql_delete_delete [sql]: "sql_delete q (sql_delete p rows) = sql_delete (\<lambda>r. p r \<or> q r) rows"
  by (simp add: sql_delete_def conj_commute)

lemma sql_affected_delete [sql]:
  "sql_affected p rows + sql_affected q (sql_delete p rows) = sql_affected (\<lambda>r. p r \<or> q r) rows"
  by (induction rows) (auto simp: sql_affected_def sql_delete_def)

lemma sql_affected_delete_sub:
  assumes "\<And>r. p r \<Longrightarrow> q r"
  shows "sql_affected q (sql_delete p rows) = sql_affected q rows - sql_affected p rows"
proof -
  have "(\<lambda>r. p r \<or> q r) = q" using assms by auto
  then show ?thesis using sql_affected_delete[of p rows q] by simp
qed

lemma set_sql_select: "set (sql_select p key n rows) \<subseteq> {r \<in> set rows. p r}"
  by (auto simp: sql_select_def dest!: in_set_takeD)

lemma length_sql_select: "length (sql_select p key n rows) = min n (sql_affected p rows)"
  by (simp add: sql_select_def sql_affected_def min.commute)

lemma sql_select_sorted: "sorted (map key (sql_select p key n rows))"
  by (simp add: sql_select_def take_map[symmetric] sorted_wrt_take)

lemma sql_select_distinct:
  "distinct (map g rows) \<Longrightarrow> distinct (map g (sql_select p key n rows))"
proof -
  assume "distinct (map g rows)"
  then have "distinct (map g (filter p rows))" by (rule distinct_map_filter)
  then have "distinct (map g (sort_key key (filter p rows)))"
    by (metis distinct_map distinct_sort set_sort)
  then show ?thesis unfolding sql_select_def by (simp add: take_map[symmetric])
qed

text \<open>What a limited ordered selection leaves out is not before what it takes.\<close>

lemma sql_select_first:
  assumes "r \<in> set (sql_select p key n rows)" "q \<in> set rows" "p q" "q \<notin> set (sql_select p key n rows)"
  shows "key r \<le> key q"
proof -
  let ?xs = "sort_key key (filter p rows)"
  have "set ?xs = set (take n ?xs) \<union> set (drop n ?xs)"
    by (metis append_take_drop_id set_append)
  then have q: "q \<in> set (drop n ?xs)"
    using assms(2-4) by (auto simp: sql_select_def)
  have "sorted (map key (take n ?xs) @ map key (drop n ?xs))"
    by (simp only: map_append[symmetric] append_take_drop_id sorted_sort_key)
  then show ?thesis
    using assms(1) q by (auto simp: sorted_append sql_select_def)
qed

text \<open>A row is found by its key.\<close>

definition sql_find :: "('r \<Rightarrow> 'k) \<Rightarrow> 'k \<Rightarrow> 'r list \<Rightarrow> 'r option" where
  "sql_find key k rows = find (\<lambda>r. key r = k) rows"

lemma sql_find_None [sql]: "sql_find key k rows = None \<longleftrightarrow> k \<notin> key ` set rows"
  by (auto simp: sql_find_def find_None_iff)

lemma sql_find_SomeD: "sql_find key k rows = Some r \<Longrightarrow> r \<in> set rows \<and> key r = k"
  by (auto simp: sql_find_def find_Some_iff)

lemma sql_find_unique:
  "distinct (map key rows) \<Longrightarrow> r \<in> set rows \<Longrightarrow> sql_find key (key r) rows = Some r"
  by (induction rows) (auto simp: sql_find_def image_iff)

lemma sql_find_update [sql]:
  assumes "\<And>r. p r \<Longrightarrow> key (f r) = key r"
  shows "sql_find key k (sql_update p f rows) = map_option (\<lambda>r. if p r then f r else r) (sql_find key k rows)"
  using assms by (induction rows) (auto simp: sql_find_def sql_update_def)

lemma sql_update_keys [sql]:
  assumes "\<And>r. p r \<Longrightarrow> key (f r) = key r"
  shows "map key (sql_update p f rows) = map key rows"
  using assms by (auto simp: sql_update_def)

text \<open>The rows whose key is among the keys of a selection are the selected rows.\<close>

lemma in_selected:
  assumes "distinct (map key rows)" "r \<in> set rows"
  shows "key r \<in> key ` set (sql_select p ord n rows) \<longleftrightarrow> r \<in> set (sql_select p ord n rows)"
  using assms set_sql_select[of p ord n rows] by (auto simp: distinct_map inj_on_def)

lemma sql_affected_selected:
  assumes "distinct (map key rows)"
  shows "sql_affected (\<lambda>r. key r \<in> key ` set (sql_select p ord n rows) \<and> p r) rows = length (sql_select p ord n rows)"
proof -
  let ?S = "sql_select p ord n rows"
  have "filter (\<lambda>r. key r \<in> key ` set ?S \<and> p r) rows = filter (\<lambda>r. r \<in> set ?S) rows"
    using in_selected[OF assms] set_sql_select[of p ord n rows] by (intro filter_cong refl) blast
  moreover have "distinct rows" "distinct ?S"
    using assms sql_select_distinct[OF assms, of p ord n] by (auto simp: distinct_map)
  moreover have "set (filter (\<lambda>r. r \<in> set ?S) rows) = set ?S"
    using set_sql_select[of p ord n rows] by auto
  ultimately show ?thesis
    unfolding sql_affected_def by (metis distinct_card distinct_filter)
qed

lemma sql_affected_key:
  assumes "distinct (map key rows)"
  shows "sql_affected (\<lambda>r. key r = k) rows = (if k \<in> key ` set rows then 1 else 0)"
  using assms by (induction rows) (auto simp: sql_affected_def)

section \<open>Faults\<close>

datatype stmt_fate = StmtOk | StmtErr goerr | CountErr goerr

datatype commit_fate = CommitOk | CommitLost goerr | CommitUnknown goerr

text \<open>The state after a transaction ends: the transaction's on a commit, the old one otherwise.\<close>

fun commit :: "commit_fate \<Rightarrow> 'a \<Rightarrow> 'a \<Rightarrow> goerr option \<times> 'a" where
  "commit CommitOk before tx = (None, tx)"
| "commit (CommitLost e) before tx = (Some e, before)"
| "commit (CommitUnknown e) before tx = (Some e, tx)"

end
