(* ===== verification/Retention.thy ===== *)
theory Retention
  imports SQL_Table
begin

text \<open>
  The retention cleaners of the inbox and the outbox (\<open>src/inbox/retention.go\<close>,
  \<open>src/outbox/retention.go\<close>) run the same loop over a store that deletes bounded batches.
  The loop may run forever in principle, so it is a partial function. The store's contract is the
  locale \<open>bounded_cleanup\<close>: under it the loop returns and, without an error, has deleted
  every eligible record.
\<close>

text \<open>
  A store's batch deletion takes the cutoff, the batch size and the store's state (with what the
  environment still has in store for it) and returns the number deleted, an error, and the state.
\<close>

type_synonym 's batch_delete = "int \<Rightarrow> int \<Rightarrow> 's \<Rightarrow> (int \<times> goerr option) \<times> 's"

record RetentionConfig =
  Retention :: int
  BatchSize :: int

record 's RetentionCleaner =
  store :: "'s batch_delete"
  retention :: int
  batchSize :: int

definition NewRetentionCleaner :: "string \<Rightarrow> 's batch_delete option \<Rightarrow> RetentionConfig \<Rightarrow> goerr + 's RetentionCleaner" where
  "NewRetentionCleaner message st config =
     (case st of
        None \<Rightarrow> Inl (Msg message)
      | Some d \<Rightarrow>
          if Retention config \<le> 0 \<or> BatchSize config \<le> 0 then Inl (Msg message)
          else Inr \<lparr>store = d, retention = Retention config, batchSize = BatchSize config\<rparr>)"

partial_function (option) drain ::
  "'s batch_delete \<Rightarrow> int \<Rightarrow> int \<Rightarrow> int \<Rightarrow> 's \<Rightarrow> ((int \<times> goerr option) \<times> 's) option" where
  "drain del cutoff batch acc s =
     (case del cutoff batch s of ((deleted, err), s') \<Rightarrow>
        (case err of
           Some e \<Rightarrow> Some ((acc, Some e), s')
         | None \<Rightarrow>
             if deleted < batch then Some ((acc + deleted, None), s')
             else drain del cutoff batch (acc + deleted) s'))"

text \<open>\<open>RunOnce\<close>, at time \<open>now\<close>.\<close>

definition RunOnce_retention :: "'s RetentionCleaner \<Rightarrow> int \<Rightarrow> 's \<Rightarrow> ((int \<times> goerr option) \<times> 's) option" where
  "RunOnce_retention c now s = drain (store c) (now - retention c) (batchSize c) 0 s"

section \<open>The contract of the store\<close>

text \<open>
  \<open>eligible cutoff s\<close> counts the records that may go. A deletion keeps the store's
  invariant, and one that reports no error has deleted as many records as there are, up to the
  batch size.
\<close>

locale bounded_cleanup =
  fixes del :: "'s batch_delete"
    and eligible :: "int \<Rightarrow> 's \<Rightarrow> nat"
    and inv :: "int \<Rightarrow> 's \<Rightarrow> bool"
  assumes deleted: "0 < batch \<Longrightarrow> inv cutoff s \<Longrightarrow> del cutoff batch s = ((n, None), s') \<Longrightarrow>
      n = min batch (int (eligible cutoff s)) \<and> int (eligible cutoff s') = int (eligible cutoff s) - n"
    and inv_del: "inv cutoff s \<Longrightarrow> inv cutoff (snd (del cutoff batch s))"
begin

lemma drain_result:
  assumes "0 < batch" "inv cutoff s"
  shows "\<exists>t e s'. drain del cutoff batch acc s = Some ((t, e), s') \<and> inv cutoff s' \<and>
           (e = None \<longrightarrow> t = acc + int (eligible cutoff s) \<and> eligible cutoff s' = 0)"
  using assms(2)
proof (induction "eligible cutoff s" arbitrary: acc s rule: less_induct)
  case less
  obtain n e s' where d: "del cutoff batch s = ((n, e), s')" by (metis surj_pair)
  have i: "inv cutoff s'" using inv_del[OF less.prems, of batch] d by simp
  show ?case
  proof (cases e)
    case (Some x)
    with d i show ?thesis by (subst drain.simps) simp
  next
    case None
    with d have n: "n = min batch (int (eligible cutoff s))"
        "int (eligible cutoff s') = int (eligible cutoff s) - n"
      using deleted[OF assms(1) less.prems] by auto
    show ?thesis
    proof (cases "n < batch")
      case True
      with d None n i show ?thesis by (subst drain.simps) auto
    next
      case False
      with n assms(1) have "eligible cutoff s' < eligible cutoff s" by linarith
      from less.hyps[OF this i, of "acc + n"] obtain t e s2 where
        "drain del cutoff batch (acc + n) s' = Some ((t, e), s2)" "inv cutoff s2"
        "e = None \<longrightarrow> t = acc + n + int (eligible cutoff s') \<and> eligible cutoff s2 = 0" by blast
      with d None False n show ?thesis by (subst drain.simps) auto
    qed
  qed
qed

end

end
