(* ===== verification/Inbox.thy ===== *)
theory Inbox
  imports Retention
begin

text \<open>
  The transactional inbox (\<open>src/inbox/sqlstore.go\<close> and \<open>retention.go\<close>): one row per
  event and consumer, updated in the same transaction as the handler's domain writes. The domain
  tables are an arbitrary state \<open>'d\<close> and a handler is an arbitrary function on it that may
  fail. Transactions on one row are serialised by the row lock (\<open>SELECT ... FOR UPDATE\<close>), so
  deliveries are run one after the other. Every statement and the commit may fail.
\<close>

section \<open>Types\<close>

definition DialectPostgres :: string where "DialectPostgres = ''postgres''"
definition DialectKingbase :: string where "DialectKingbase = ''kingbase''"
definition DialectMySQL :: string where "DialectMySQL = ''mysql''"

record Key =
  Consumer :: string
  EventID :: string

record Result =
  Duplicate :: bool
  Attempts :: int

definition no_result :: Result where
  "no_result = \<lparr>Duplicate = False, Attempts = 0\<rparr>"

record SQLStore_inbox =
  dialect :: string
  table_inbox :: string

text \<open>The columns of the inbox table; \<open>completed_at\<close> is NULL until the event is completed.\<close>

record inbox_row =
  consumer :: string
  event_id :: string
  status :: string
  attempts :: int
  last_error :: string
  version :: int
  completed_at :: "int option"
  created_at :: int
  updated_at :: int
  created_by :: string
  updated_by :: string

definition row_key :: "inbox_row \<Rightarrow> Key" where
  "row_key r = \<lparr>Consumer = consumer r, EventID = event_id r\<rparr>"

record 'd inbox_db =
  inbox_rows :: "inbox_row list"
  domain :: 'd

text \<open>\<open>[a-z][a-z0-9_]{0,62}\<close>, and the whole pattern for a table name.\<close>

definition lower_ident :: "string \<Rightarrow> bool" where
  "lower_ident s =
     (case s of
        [] \<Rightarrow> False
      | c # cs \<Rightarrow> c \<in> {CHR ''a''..CHR ''z''} \<and> length cs \<le> 62 \<and>
          list_all (\<lambda>x. x \<in> {CHR ''a''..CHR ''z''} \<or> x \<in> {CHR ''0''..CHR ''9''} \<or> x = CHR ''_'') cs)"

definition validTableName :: "string \<Rightarrow> bool" where
  "validTableName t \<longleftrightarrow>
     lower_ident t \<or>
     (let a = takeWhile (\<lambda>c. c \<noteq> CHR ''.'') t; b = dropWhile (\<lambda>c. c \<noteq> CHR ''.'') t
      in lower_ident a \<and> b \<noteq> [] \<and> lower_ident (tl b))"

definition NewSQLStore_inbox :: "'db option \<Rightarrow> string \<Rightarrow> string \<Rightarrow> goerr + SQLStore_inbox" where
  "NewSQLStore_inbox db dia tab =
     (if db = None then Inl (Msg ''inbox database is required'')
      else if \<not> validTableName tab then Inl (Msg ''safe inbox table name is required'')
      else if dia \<noteq> DialectPostgres \<and> dia \<noteq> DialectKingbase \<and> dia \<noteq> DialectMySQL
      then Inl (Msg (''unsupported inbox dialect '' @ quoted dia))
      else Inr \<lparr>dialect = dia, table_inbox = tab\<rparr>)"

section \<open>Statements\<close>

text \<open>\<open>truncate\<close>: cut to a byte limit, moving the cut back over continuation bytes.\<close>

definition truncate_inbox :: "string \<Rightarrow> nat \<Rightarrow> string" where
  "truncate_inbox value limit =
     (if length value \<le> limit then value else take (back_off value limit) value)"

definition insertPendingQuery :: "SQLStore_inbox \<Rightarrow> string" where
  "insertPendingQuery s =
     (let query = ''INSERT INTO '' @ table_inbox s @ '' (consumer,event_id,status,attempts,last_error,version,created_at,updated_at,created_by,updated_by) VALUES (?,?,?,0,'' @ [CHR 0x27, CHR 0x27] @ '',1,?,?,?,?)''
      in if dialect s = DialectMySQL then ''INSERT IGNORE'' @ drop (length ''INSERT'') query
         else query @ '' ON CONFLICT (consumer,event_id) DO NOTHING'')"

text \<open>The row the statement inserts, unless the key is taken.\<close>

definition pending_row :: "Key \<Rightarrow> string \<Rightarrow> int \<Rightarrow> inbox_row" where
  "pending_row key actor now =
     \<lparr>consumer = Consumer key, event_id = EventID key, status = ''pending'', attempts = 0,
      last_error = [], version = 1, completed_at = None, created_at = now, updated_at = now,
      created_by = actor, updated_by = actor\<rparr>"

definition insert_ignore :: "Key \<Rightarrow> string \<Rightarrow> int \<Rightarrow> inbox_row list \<Rightarrow> inbox_row list" where
  "insert_ignore key actor now rows =
     (if key \<in> row_key ` set rows then rows else rows @ [pending_row key actor now])"

definition insertPending ::
  "goerr option \<Rightarrow> Key \<Rightarrow> string \<Rightarrow> int \<Rightarrow> inbox_row list \<Rightarrow> goerr + inbox_row list" where
  "insertPending fault key actor now rows =
     (case fault of
        Some e \<Rightarrow> Inl (Wrap ''insert pending inbox event'' e)
      | None \<Rightarrow> Inr (insert_ignore key actor now rows))"

text \<open>\<open>sql.ErrNoRows\<close>, which the query answers with when there is no row.\<close>

definition sql_ErrNoRows :: goerr where "sql_ErrNoRows = Sentinel ''sql: no rows in result set''"

definition lock :: "goerr option \<Rightarrow> Key \<Rightarrow> inbox_row list \<Rightarrow> goerr + (string \<times> int)" where
  "lock fault key rows =
     (case fault of
        Some e \<Rightarrow>
          if errors_Is e sql_ErrNoRows then Inl (Msg ''pending inbox event disappeared'')
          else Inl (Wrap ''lock inbox event'' e)
      | None \<Rightarrow>
          (case sql_find row_key key rows of
             None \<Rightarrow> Inl (Msg ''pending inbox event disappeared'')
           | Some r \<Rightarrow> Inr (status r, attempts r)))"

text \<open>\<open>execOne\<close>: an update of the row of \<open>key\<close> that must hit exactly one row.\<close>

definition execOne ::
  "string \<Rightarrow> stmt_fate \<Rightarrow> Key \<Rightarrow> (inbox_row \<Rightarrow> inbox_row) \<Rightarrow> inbox_row list \<Rightarrow> goerr + inbox_row list" where
  "execOne action fate key f rows =
     (case fate of
        StmtErr e \<Rightarrow> Inl (Wrap action e)
      | CountErr e \<Rightarrow> Inl (Wrap (''count affected rows after '' @ action) e)
      | StmtOk \<Rightarrow>
          if sql_affected (\<lambda>r. row_key r = key) rows \<noteq> 1
          then Inl (Msg (action @ '': expected one affected row, got '' @ Itoa (int (sql_affected (\<lambda>r. row_key r = key) rows))))
          else Inr (sql_update (\<lambda>r. row_key r = key) f rows))"

definition markProcessing :: "stmt_fate \<Rightarrow> Key \<Rightarrow> string \<Rightarrow> int \<Rightarrow> inbox_row list \<Rightarrow> goerr + inbox_row list" where
  "markProcessing fate key actor now rows =
     execOne ''mark inbox event processing'' fate key
       (\<lambda>r. r\<lparr>status := ''processing'', attempts := attempts r + 1, last_error := [], version := version r + 1,
              updated_at := now, updated_by := actor\<rparr>) rows"

definition markFailed :: "stmt_fate \<Rightarrow> Key \<Rightarrow> string \<Rightarrow> goerr \<Rightarrow> int \<Rightarrow> inbox_row list \<Rightarrow> goerr + inbox_row list" where
  "markFailed fate key actor cause now rows =
     execOne ''mark inbox event failed'' fate key
       (\<lambda>r. r\<lparr>status := ''failed'', last_error := truncate_inbox (err_text cause) 4096, version := version r + 1,
              updated_at := now, updated_by := actor\<rparr>) rows"

definition markCompleted :: "stmt_fate \<Rightarrow> Key \<Rightarrow> string \<Rightarrow> int \<Rightarrow> inbox_row list \<Rightarrow> goerr + inbox_row list" where
  "markCompleted fate key actor now rows =
     execOne ''mark inbox event completed'' fate key
       (\<lambda>r. r\<lparr>status := ''completed'', last_error := [], completed_at := Some now, version := version r + 1,
              updated_at := now, updated_by := actor\<rparr>) rows"

section \<open>Process\<close>

type_synonym 'd handler = "'d \<Rightarrow> goerr option \<times> 'd"

definition validateInput :: "Key \<Rightarrow> string \<Rightarrow> 'd handler option \<Rightarrow> goerr option" where
  "validateInput key actor handler =
     (if Consumer key = [] \<or> EventID key = [] \<or> actor = [] \<or> handler = None
      then Some (Msg ''inbox consumer, event ID, actor, and handler are required'')
      else if length (Consumer key) > 255 \<or> length (EventID key) > 255 \<or> length actor > 255
      then Some (Msg ''inbox consumer, event ID, and actor must not exceed 255 bytes'')
      else None)"

text \<open>What a delivery meets: the clock and the fate of every call to the database.\<close>

record inbox_env =
  env_now :: int
  beginErr :: "goerr option"
  insertErr :: "goerr option"
  lockErr :: "goerr option"
  processingFate :: stmt_fate
  savepointErr :: "goerr option"
  rollbackErr :: "goerr option"
  failedFate :: stmt_fate
  releaseErr :: "goerr option"
  completedFate :: stmt_fate
  commitFate :: commit_fate

text \<open>
  The failed branch: roll the domain back to the savepoint, record the failure, commit. \<open>db\<close>
  is the state before the transaction, \<open>rows\<close> and \<open>d\<close> what the transaction has written
  up to the savepoint.
\<close>

definition finishFailed ::
  "inbox_env \<Rightarrow> Key \<Rightarrow> string \<Rightarrow> goerr \<Rightarrow> int \<Rightarrow> 'd inbox_db \<Rightarrow> inbox_row list \<Rightarrow> 'd \<Rightarrow>
   (Result \<times> goerr option) \<times> 'd inbox_db" where
  "finishFailed E key actor handlerErr n db rows d =
     (case rollbackErr E of
        Some e \<Rightarrow> ((no_result, errors_Join [Some handlerErr, Some (Wrap ''rollback inbox domain writes'' e)]), db)
      | None \<Rightarrow>
          (case markFailed (failedFate E) key actor handlerErr (env_now E) rows of
             Inl e \<Rightarrow> ((no_result, errors_Join [Some handlerErr, Some e]), db)
           | Inr rows' \<Rightarrow>
               (case commit (commitFate E) db \<lparr>inbox_rows = rows', domain = d\<rparr> of
                  (Some e, db') \<Rightarrow>
                    ((no_result, errors_Join [Some handlerErr, Some (Wrap ''commit failed inbox attempt'' e)]), db')
                | (None, db') \<Rightarrow>
                    ((\<lparr>Duplicate = False, Attempts = n\<rparr>, Some (Wrap ''process inbox event'' handlerErr)), db'))))"

definition finishCompleted ::
  "inbox_env \<Rightarrow> Key \<Rightarrow> string \<Rightarrow> int \<Rightarrow> 'd inbox_db \<Rightarrow> inbox_row list \<Rightarrow> 'd \<Rightarrow>
   (Result \<times> goerr option) \<times> 'd inbox_db" where
  "finishCompleted E key actor n db rows d =
     (case releaseErr E of
        Some e \<Rightarrow> ((no_result, Some (Wrap ''release inbox savepoint'' e)), db)
      | None \<Rightarrow>
          (case markCompleted (completedFate E) key actor (env_now E) rows of
             Inl e \<Rightarrow> ((no_result, Some e), db)
           | Inr rows' \<Rightarrow>
               (case commit (commitFate E) db \<lparr>inbox_rows = rows', domain = d\<rparr> of
                  (Some e, db') \<Rightarrow> ((no_result, Some (Wrap ''commit inbox transaction'' e)), db')
                | (None, db') \<Rightarrow> ((\<lparr>Duplicate = False, Attempts = n\<rparr>, None), db'))))"

text \<open>The part of \<open>Process\<close> from \<open>attempts++\<close> on: mark, run the handler behind a savepoint, settle.\<close>

definition runHandler ::
  "inbox_env \<Rightarrow> Key \<Rightarrow> string \<Rightarrow> 'd handler \<Rightarrow> int \<Rightarrow> 'd inbox_db \<Rightarrow> inbox_row list \<Rightarrow>
   (Result \<times> goerr option) \<times> 'd inbox_db" where
  "runHandler E key actor handler n db rows =
     (case markProcessing (processingFate E) key actor (env_now E) rows of
        Inl e \<Rightarrow> ((no_result, Some e), db)
      | Inr rows' \<Rightarrow>
          (case savepointErr E of
             Some e \<Rightarrow> ((no_result, Some (Wrap ''create inbox savepoint'' e)), db)
           | None \<Rightarrow>
               (case handler (domain db) of
                  (Some handlerErr, d) \<Rightarrow> finishFailed E key actor handlerErr n db rows' (domain db)
                | (None, d) \<Rightarrow> finishCompleted E key actor n db rows' d)))"

definition Process ::
  "inbox_env \<Rightarrow> Key \<Rightarrow> string \<Rightarrow> 'd handler option \<Rightarrow> 'd inbox_db \<Rightarrow> (Result \<times> goerr option) \<times> 'd inbox_db" where
  "Process E key actor handler db =
     (case validateInput key actor handler of
        Some e \<Rightarrow> ((no_result, Some e), db)
      | None \<Rightarrow>
        (case beginErr E of
           Some e \<Rightarrow> ((no_result, Some (Wrap ''begin inbox transaction'' e)), db)
         | None \<Rightarrow>
           (case insertPending (insertErr E) key actor (env_now E) (inbox_rows db) of
              Inl e \<Rightarrow> ((no_result, Some e), db)
            | Inr rows1 \<Rightarrow>
              (case lock (lockErr E) key rows1 of
                    Inl e \<Rightarrow> ((no_result, Some e), db)
                  | Inr (st, n) \<Rightarrow>
                      if st = ''completed'' then
                        (case commit (commitFate E) db (db\<lparr>inbox_rows := rows1\<rparr>) of
                           (Some e, db') \<Rightarrow> ((no_result, Some (Wrap ''commit duplicate inbox transaction'' e)), db')
                         | (None, db') \<Rightarrow> ((\<lparr>Duplicate = True, Attempts = n\<rparr>, None), db'))
                      else
                        runHandler E key actor (the handler) (n + 1) db rows1))))"

section \<open>Cleaning up\<close>

definition completed_before :: "int \<Rightarrow> inbox_row \<Rightarrow> bool" where
  "completed_before before r \<longleftrightarrow>
     status r = ''completed'' \<and> (case completed_at r of None \<Rightarrow> False | Some t \<Rightarrow> t < before)"

text \<open>
  The deletes run outside a transaction, one per selected key, each with its own fate; a list of
  fates that ends means that the rest succeed.
\<close>

fun deleteKeys :: "stmt_fate list \<Rightarrow> int \<Rightarrow> Key list \<Rightarrow> int \<Rightarrow> inbox_row list \<Rightarrow> (int \<times> goerr option) \<times> inbox_row list" where
  "deleteKeys fates before [] n rows = ((n, None), rows)"
| "deleteKeys fates before (k # ks) n rows =
     (let p = (\<lambda>r. row_key r = k \<and> completed_before before r)
      in case (case fates of [] \<Rightarrow> StmtOk | f # _ \<Rightarrow> f) of
           StmtErr e \<Rightarrow> ((n, Some (Wrap ''delete completed inbox event'' e)), rows)
         | CountErr e \<Rightarrow> ((n, Some (Wrap ''count deleted inbox event'' e)), sql_delete p rows)
         | StmtOk \<Rightarrow> deleteKeys (drop 1 fates) before ks (n + int (sql_affected p rows)) (sql_delete p rows))"

definition oldest_first :: "inbox_row \<Rightarrow> int \<times> string \<times> string" where
  "oldest_first r = (the (completed_at r), consumer r, event_id r)"

definition DeleteCompletedBefore ::
  "goerr option \<Rightarrow> stmt_fate list \<Rightarrow> int \<Rightarrow> int \<Rightarrow> inbox_row list \<Rightarrow> (int \<times> goerr option) \<times> inbox_row list" where
  "DeleteCompletedBefore selectErr fates before limit rows =
     (if limit \<le> 0 then ((0, Some (Msg ''inbox cleanup limit must be positive'')), rows)
      else
        (case selectErr of
           Some e \<Rightarrow> ((0, Some e), rows)
         | None \<Rightarrow>
             (let keys = map row_key (sql_select (completed_before before)
                           oldest_first (nat limit) rows)
              in if keys = [] then ((0, None), rows) else deleteKeys fates before keys 0 rows)))"

section \<open>What a transaction does to the table\<close>

definition unique_keys :: "inbox_row list \<Rightarrow> bool" where
  "unique_keys rows \<longleftrightarrow> distinct (map row_key rows)"

definition status_of :: "inbox_row list \<Rightarrow> Key \<Rightarrow> string option" where
  "status_of rows k = map_option status (sql_find row_key k rows)"

definition completed_in :: "inbox_row list \<Rightarrow> Key set" where
  "completed_in rows = {k. status_of rows k = Some ''completed''}"

lemma row_key_simps [simp]:
  "row_key (r\<lparr>status := a\<rparr>) = row_key r" "row_key (r\<lparr>attempts := n\<rparr>) = row_key r"
  "row_key (r\<lparr>last_error := a\<rparr>) = row_key r" "row_key (r\<lparr>version := n\<rparr>) = row_key r"
  "row_key (r\<lparr>completed_at := t\<rparr>) = row_key r" "row_key (r\<lparr>updated_at := n\<rparr>) = row_key r"
  "row_key (r\<lparr>updated_by := a\<rparr>) = row_key r" "row_key (pending_row k a n) = k"
  by (simp_all add: row_key_def pending_row_def)

lemma find_insert_ignore:
  "sql_find row_key k (insert_ignore key actor now rows) =
     (if k = key \<and> key \<notin> row_key ` set rows then Some (pending_row key actor now) else sql_find row_key k rows)"
proof (cases "key \<in> row_key ` set rows")
  case False
  have "find (\<lambda>r. row_key r = k) (rows @ [pending_row key actor now]) =
        (case find (\<lambda>r. row_key r = k) rows of None \<Rightarrow> if k = key then Some (pending_row key actor now) else None
         | Some r \<Rightarrow> Some r)"
    by (induction rows) auto
  moreover have "find (\<lambda>r. row_key r = key) rows = None"
    using False by (auto simp: find_None_iff)
  ultimately show ?thesis
    using False by (auto simp: insert_ignore_def sql_find_def split: option.splits)
qed (auto simp: insert_ignore_def)

lemma unique_insert_ignore: "unique_keys rows \<Longrightarrow> unique_keys (insert_ignore key actor now rows)"
  by (auto simp: unique_keys_def insert_ignore_def)

lemma key_insert_ignore: "key \<in> row_key ` set (insert_ignore key actor now rows)"
  by (auto simp: insert_ignore_def)

lemma completed_insert_ignore [simp]: "completed_in (insert_ignore key actor now rows) = completed_in rows"
  by (auto simp: completed_in_def status_of_def find_insert_ignore pending_row_def sql_find_None[THEN iffD2]
      dest: sql_find_SomeD)

text \<open>An update that \<open>execOne\<close> accepts changes the row of its key and no other.\<close>

lemma execOne_Inr:
  assumes "execOne action fate key f rows = Inr rows'" "\<And>r. row_key (f r) = row_key r"
  shows "sql_find row_key k rows' =
           (if k = key then map_option f (sql_find row_key key rows) else sql_find row_key k rows)"
    and "unique_keys rows' = unique_keys rows" and "row_key ` set rows' = row_key ` set rows"
proof -
  have r: "rows' = sql_update (\<lambda>r. row_key r = key) f rows"
    using assms(1) by (auto simp: execOne_def split: stmt_fate.splits if_splits)
  then have "sql_find row_key k rows' =
      map_option (\<lambda>r. if row_key r = key then f r else r) (sql_find row_key k rows)"
    using assms(2) by (simp add: sql_find_update)
  then show "sql_find row_key k rows' =
           (if k = key then map_option f (sql_find row_key key rows) else sql_find row_key k rows)"
    by (cases "sql_find row_key k rows") (auto dest: sql_find_SomeD)
  have m: "map row_key rows' = map row_key rows"
    unfolding r by (rule sql_update_keys) (simp add: assms(2))
  then show "unique_keys rows' = unique_keys rows" by (simp add: unique_keys_def)
  from m show "row_key ` set rows' = row_key ` set rows" by (metis list.set_map)
qed

lemma execOne_ok:
  assumes "unique_keys rows" "key \<in> row_key ` set rows"
  shows "execOne action StmtOk key f rows = Inr (sql_update (\<lambda>r. row_key r = key) f rows)"
  using assms by (simp add: execOne_def sql_affected_key unique_keys_def)

lemma execOne_completed:
  assumes "execOne action fate key f rows = Inr rows'" "\<And>r. row_key (f r) = row_key r"
    "key \<in> row_key ` set rows"
  shows "(\<And>r. status (f r) \<noteq> ''completed'') \<Longrightarrow> completed_in rows' = completed_in rows - {key}"
    and "(\<And>r. status (f r) = ''completed'') \<Longrightarrow> completed_in rows' = insert key (completed_in rows)"
  using execOne_Inr(1)[OF assms(1,2)] assms(3) sql_find_None[of row_key key rows]
  by (auto simp: completed_in_def status_of_def option.map_comp)

lemmas mark_defs = markProcessing_def markFailed_def markCompleted_def

lemma lock_Inr:
  "lock fault key rows = Inr (st, n) \<Longrightarrow>
     key \<in> row_key ` set rows \<and> (\<exists>r. sql_find row_key key rows = Some r \<and> status r = st \<and> attempts r = n)"
  by (auto simp: lock_def split: option.splits if_splits dest: sql_find_SomeD)

text \<open>How the two branches after the handler may leave the database.\<close>

lemma finishFailed_db:
  assumes "finishFailed E key actor h n db rows d = (res, db')"
    and "key \<in> row_key ` set rows" "unique_keys rows"
  shows "snd res \<noteq> None \<and> (db' = db \<or> (domain db' = d \<and> unique_keys (inbox_rows db') \<and>
           completed_in (inbox_rows db') = completed_in rows - {key}))"
proof (cases "rollbackErr E")
  case None
  show ?thesis
  proof (cases "markFailed (failedFate E) key actor h (env_now E) rows")
    case (Inr rows')
    have "completed_in rows' = completed_in rows - {key}" "unique_keys rows'"
      using execOne_completed(1)[OF Inr[unfolded markFailed_def] _ assms(2)]
        execOne_Inr(2)[OF Inr[unfolded markFailed_def]] assms(3) by simp_all
    moreover have "snd res \<noteq> None \<and> (db' = db \<or> db' = \<lparr>inbox_rows = rows', domain = d\<rparr>)"
      using assms(1) None Inr by (cases "commitFate E") (auto simp: finishFailed_def)
    ultimately show ?thesis by (elim conjE disjE) simp_all
  qed (use assms(1) None in \<open>auto simp: finishFailed_def\<close>)
qed (use assms(1) in \<open>auto simp: finishFailed_def\<close>)

lemma finishCompleted_db:
  assumes "finishCompleted E key actor n db rows d = (res, db')"
    and "key \<in> row_key ` set rows" "unique_keys rows"
  shows "(snd res \<noteq> None \<and> db' = db) \<or> (domain db' = d \<and> unique_keys (inbox_rows db') \<and>
           completed_in (inbox_rows db') = insert key (completed_in rows))"
proof (cases "releaseErr E")
  case None
  show ?thesis
  proof (cases "markCompleted (completedFate E) key actor (env_now E) rows")
    case (Inr rows')
    have "completed_in rows' = insert key (completed_in rows)" "unique_keys rows'"
      using execOne_completed(2)[OF Inr[unfolded markCompleted_def] _ assms(2)]
        execOne_Inr(2)[OF Inr[unfolded markCompleted_def]] assms(3) by simp_all
    moreover have "snd res \<noteq> None \<and> db' = db \<or> db' = \<lparr>inbox_rows = rows', domain = d\<rparr>"
      using assms(1) None Inr by (cases "commitFate E") (auto simp: finishCompleted_def)
    ultimately show ?thesis by (elim conjE disjE) simp_all
  qed (use assms(1) None in \<open>auto simp: finishCompleted_def\<close>)
qed (use assms(1) in \<open>auto simp: finishCompleted_def\<close>)

text \<open>
  One delivery: either nothing of the domain and of the completed events changes, or the event was
  not completed, its handler succeeded, and its writes and the completion are there together.
\<close>

definition applied :: "'d inbox_db \<Rightarrow> Key \<Rightarrow> 'd handler option \<Rightarrow> 'd inbox_db \<Rightarrow> bool" where
  "applied db key handler db' \<longleftrightarrow>
     key \<notin> completed_in (inbox_rows db) \<and> handler \<noteq> None \<and> the handler (domain db) = (None, domain db') \<and>
     completed_in (inbox_rows db') = insert key (completed_in (inbox_rows db))"

definition untouched :: "'d inbox_db \<Rightarrow> 'd inbox_db \<Rightarrow> bool" where
  "untouched db db' \<longleftrightarrow>
     domain db' = domain db \<and> completed_in (inbox_rows db') = completed_in (inbox_rows db)"

lemma runHandler_db:
  assumes "runHandler E key actor handler n db rows = (res, db')"
    and "key \<in> row_key ` set rows" "unique_keys rows" "key \<notin> completed_in rows"
  shows "(snd res \<noteq> None \<and> db' = db) \<or> unique_keys (inbox_rows db') \<and>
     (snd res \<noteq> None \<and> domain db' = domain db \<and> completed_in (inbox_rows db') = completed_in rows \<or>
      handler (domain db) = (None, domain db') \<and> completed_in (inbox_rows db') = insert key (completed_in rows))"
proof (cases "markProcessing (processingFate E) key actor (env_now E) rows")
  case (Inr rows')
  have c: "completed_in rows' = completed_in rows" and u: "unique_keys rows'"
    and k: "key \<in> row_key ` set rows'"
    using execOne_completed(1)[OF Inr[unfolded markProcessing_def] _ assms(2)]
      execOne_Inr(2,3)[OF Inr[unfolded markProcessing_def]] assms(2-4) by simp_all
  obtain he d where h: "handler (domain db) = (he, d)" by fastforce
  consider e where "savepointErr E = Some e" | "savepointErr E = None" "he = None"
    | e where "savepointErr E = None" "he = Some e" by fastforce
  then show ?thesis
  proof cases
    case 2
    then have "finishCompleted E key actor n db rows' d = (res, db')"
      using assms(1) Inr h by (simp add: runHandler_def)
    from finishCompleted_db[OF this k u] show ?thesis using h 2 c by auto
  next
    case 3
    then have "finishFailed E key actor e n db rows' (domain db) = (res, db')"
      using assms(1) Inr h by (simp add: runHandler_def)
    from finishFailed_db[OF this k u] show ?thesis using c assms(4) by auto
  qed (use assms(1) Inr in \<open>auto simp: runHandler_def\<close>)
qed (use assms(1) in \<open>auto simp: runHandler_def\<close>)

text \<open>The ways through \<open>Process\<close> up to the handler.\<close>

lemma Process_cases:
  assumes "Process E key actor handler db = (res, db')"
  obtains (early) "db' = db" "snd res \<noteq> None"
  | (locked) st n rows h where "handler = Some h" "rows = insert_ignore key actor (env_now E) (inbox_rows db)"
      "lock (lockErr E) key rows = Inr (st, n)"
      "st = ''completed'' \<Longrightarrow>
         (\<exists>e. commit (commitFate E) db (db\<lparr>inbox_rows := rows\<rparr>) = (e, db') \<and>
              res = (case e of None \<Rightarrow> (\<lparr>Duplicate = True, Attempts = n\<rparr>, None)
                     | Some e \<Rightarrow> (no_result, Some (Wrap ''commit duplicate inbox transaction'' e))))"
      "st \<noteq> ''completed'' \<Longrightarrow> runHandler E key actor h (n + 1) db rows = (res, db')"
proof (cases "validateInput key actor handler = None \<and> beginErr E = None \<and> insertErr E = None")
  case False
  then show ?thesis
    using assms by (intro early) (auto simp: Process_def insertPending_def split: option.splits)
next
  case True
  then obtain h where h: "handler = Some h" by (auto simp: validateInput_def split: if_splits)
  let ?rows = "insert_ignore key actor (env_now E) (inbox_rows db)"
  show ?thesis
  proof (cases "lock (lockErr E) key ?rows")
    case (Inl e)
    then show ?thesis using assms True by (intro early) (auto simp: Process_def insertPending_def)
  next
    case (Inr sn)
    then show ?thesis
      using assms True h
      by (intro locked[of h ?rows "fst sn" "snd sn"])
        (auto simp: Process_def insertPending_def split: prod.splits option.splits)
  qed
qed

lemma Process_step:
  assumes "unique_keys (inbox_rows db)" "Process E key actor handler db = (res, db')"
  shows "unique_keys (inbox_rows db') \<and> (untouched db db' \<or> applied db key handler db') \<and>
           (snd res = None \<longrightarrow> key \<in> completed_in (inbox_rows db'))"
  using assms(2)
proof (cases rule: Process_cases)
  case early
  with assms(1) show ?thesis by (auto simp: untouched_def)
next
  case (locked st n rows h)
  obtain r where k: "key \<in> row_key ` set rows" and r: "sql_find row_key key rows = Some r" "status r = st"
    using lock_Inr[OF locked(3)] by auto
  have u: "unique_keys rows" using locked(2) by (simp add: unique_insert_ignore assms(1))
  have c: "completed_in rows = completed_in (inbox_rows db)" using locked(2) by simp
  have st: "key \<in> completed_in rows \<longleftrightarrow> st = ''completed''"
    using r by (simp add: completed_in_def status_of_def)
  show ?thesis
  proof (cases "st = ''completed''")
    case True
    have "db' = db \<or> db' = db\<lparr>inbox_rows := rows\<rparr>"
      using locked(4)[OF True] by (cases "commitFate E") auto
    with True st u c assms(1) show ?thesis
      by (elim disjE) (simp_all add: untouched_def)
  next
    case False
    then have "key \<notin> completed_in rows" by (simp add: st)
    from runHandler_db[OF locked(5)[OF False] k u this] this c locked(1) assms(1)
    show ?thesis by (elim conjE disjE) (simp_all add: untouched_def applied_def)
  qed
qed

section \<open>Sequences of deliveries\<close>

text \<open>
  A broker delivers events in any order and any number of times. \<open>apply_all\<close> is what the
  deliveries mean: the handlers' writes, one after the other.
\<close>

record 'd delivery =
  d_env :: inbox_env
  d_key :: Key
  d_actor :: string
  d_handler :: "'d handler option"

fun deliver_all :: "'d delivery list \<Rightarrow> 'd inbox_db \<Rightarrow> (Result \<times> goerr option) list \<times> 'd inbox_db" where
  "deliver_all [] db = ([], db)"
| "deliver_all (x # xs) db =
     (let (res, db1) = Process (d_env x) (d_key x) (d_actor x) (d_handler x) db;
          (rs, db2) = deliver_all xs db1
      in (res # rs, db2))"

fun apply_all :: "'d delivery list \<Rightarrow> 'd \<Rightarrow> 'd option" where
  "apply_all [] d = Some d"
| "apply_all (x # xs) d =
     (case the (d_handler x) d of (None, d') \<Rightarrow> apply_all xs d' | (Some e, d') \<Rightarrow> None)"

text \<open>A small inbox for the examples: the domain is a counter, the handler adds one to it.\<close>

definition quiet_env :: "int \<Rightarrow> inbox_env" where
  "quiet_env t = \<lparr>env_now = t, beginErr = None, insertErr = None, lockErr = None, processingFate = StmtOk,
     savepointErr = None, rollbackErr = None, failedFate = StmtOk, releaseErr = None, completedFate = StmtOk,
     commitFate = CommitOk\<rparr>"

definition demo_event :: Key where "demo_event = \<lparr>Consumer = ''billing'', EventID = ''e1''\<rparr>"

definition demo_inbox :: "nat inbox_db" where "demo_inbox = \<lparr>inbox_rows = [], domain = 0\<rparr>"

definition demo_count :: "nat \<Rightarrow> goerr option \<times> nat" where "demo_count d = (None, d + 1)"

definition demo_delivery :: "nat delivery" where
  "demo_delivery = \<lparr>d_env = quiet_env 5, d_key = demo_event, d_actor = ''svc'', d_handler = Some demo_count\<rparr>"

lemma demo_inbox_ok:
  "unique_keys (inbox_rows demo_inbox)" "demo_event \<notin> completed_in (inbox_rows demo_inbox)"
  "validateInput demo_event ''svc'' (Some h) = None"
  by (simp_all add: demo_inbox_def unique_keys_def completed_in_def status_of_def sql_find_def demo_event_def validateInput_def)

definition acknowledged :: "Key set \<Rightarrow> 'd delivery list \<Rightarrow> (Result \<times> goerr option) list \<Rightarrow> bool" where
  "acknowledged ks ds rs \<longleftrightarrow> list_all2 (\<lambda>d r. snd r = None \<longrightarrow> d_key d \<in> ks) ds rs"

definition exactly_once ::
  "'d delivery list \<Rightarrow> (Result \<times> goerr option) list \<Rightarrow> 'd inbox_db \<Rightarrow> 'd inbox_db \<Rightarrow> 'd delivery list \<Rightarrow> bool" where
  "exactly_once ds rs db db' es \<longleftrightarrow>
     subseq es ds \<and>
     acknowledged (completed_in (inbox_rows db')) ds rs \<and>
     distinct (map d_key es) \<and>
     set (map d_key es) \<inter> completed_in (inbox_rows db) = {} \<and>
     apply_all es (domain db) = Some (domain db') \<and>
     completed_in (inbox_rows db') = completed_in (inbox_rows db) \<union> set (map d_key es)"

lemma deliver_all_once:
  assumes "unique_keys (inbox_rows db)" "deliver_all ds db = (rs, db')"
  shows "unique_keys (inbox_rows db') \<and> (\<exists>es. exactly_once ds rs db db' es)"
  using assms
proof (induction ds arbitrary: db rs)
  case Nil
  then have "exactly_once [] rs db db' []" by (simp add: exactly_once_def acknowledged_def)
  with Nil show ?case by auto
next
  case (Cons x xs)
  obtain res db1 where p: "Process (d_env x) (d_key x) (d_actor x) (d_handler x) db = (res, db1)" by fastforce
  obtain rs2 db2 where q: "deliver_all xs db1 = (rs2, db2)" by fastforce
  with p Cons.prems(2) have rs: "rs = res # rs2" "db2 = db'" by simp_all
  note step = Process_step[OF Cons.prems(1) p]
  have "unique_keys (inbox_rows db1)" using step by blast
  from Cons.IH[OF this q[unfolded rs(2)]] obtain es where u: "unique_keys (inbox_rows db')"
    and es: "exactly_once xs rs2 db1 db' es" by blast
  have "completed_in (inbox_rows db1) \<subseteq> completed_in (inbox_rows db')"
    using es unfolding exactly_once_def by blast
  then have ack: "acknowledged (completed_in (inbox_rows db')) (x # xs) rs"
    using es rs(1) step by (auto simp: exactly_once_def acknowledged_def simp del: Un_iff)
  have "exactly_once (x # xs) rs db db' es \<or> exactly_once (x # xs) rs db db' (x # es)"
  proof (cases "untouched db db1")
    case True
    have "exactly_once (x # xs) rs db db' es"
      unfolding exactly_once_def
      using es True ack by (simp add: exactly_once_def untouched_def list_emb_Cons)
    then show ?thesis ..
  next
    case False
    with step have a: "applied db (d_key x) (d_handler x) db1" by blast
    have "exactly_once (x # xs) rs db db' (x # es)"
      unfolding exactly_once_def
      using es a ack by (simp add: exactly_once_def applied_def)
    then show ?thesis ..
  qed
  with u show ?case by blast
qed

text \<open>C1. However the broker repeats and orders its deliveries, and wherever the database fails, the
  domain tables end up as if some of the deliveries had been run alone, each successfully, at most one
  per event and none for an event completed before; those are exactly the newly completed events; and
  a delivery that reports no error belongs to a completed event.\<close>

theorem inbox_exactly_once:
  assumes "unique_keys (inbox_rows db)" "deliver_all ds db = (rs, db')"
  shows "\<exists>es. exactly_once ds rs db db' es"
  using deliver_all_once[OF assms] by blast

theorem inbox_exactly_once_witness:
  "domain (snd (deliver_all [demo_delivery, demo_delivery] demo_inbox)) = 1 \<and>
   (\<exists>es. exactly_once [demo_delivery, demo_delivery] (fst (deliver_all [demo_delivery, demo_delivery] demo_inbox))
      demo_inbox (snd (deliver_all [demo_delivery, demo_delivery] demo_inbox)) es)"
proof
  show "\<exists>es. exactly_once [demo_delivery, demo_delivery] (fst (deliver_all [demo_delivery, demo_delivery] demo_inbox))
      demo_inbox (snd (deliver_all [demo_delivery, demo_delivery] demo_inbox)) es"
    by (rule inbox_exactly_once[OF demo_inbox_ok(1) prod.collapse[symmetric]])
  show "domain (snd (deliver_all [demo_delivery, demo_delivery] demo_inbox)) = 1"
    by code_simp
qed

section \<open>One delivery to a healthy database\<close>

definition healthy :: "inbox_env \<Rightarrow> bool" where
  "healthy E \<longleftrightarrow>
     beginErr E = None \<and> insertErr E = None \<and> lockErr E = None \<and> processingFate E = StmtOk \<and>
     savepointErr E = None \<and> rollbackErr E = None \<and> failedFate E = StmtOk \<and> releaseErr E = None \<and>
     completedFate E = StmtOk \<and> commitFate E = CommitOk"

definition prior_attempts :: "inbox_row list \<Rightarrow> Key \<Rightarrow> int" where
  "prior_attempts rows key = (case sql_find row_key key rows of None \<Rightarrow> 0 | Some r \<Rightarrow> attempts r)"

text \<open>The row of the event after \<open>insertPending\<close>.\<close>

definition current_row :: "inbox_env \<Rightarrow> Key \<Rightarrow> string \<Rightarrow> inbox_row list \<Rightarrow> inbox_row" where
  "current_row E key actor rows =
     (case sql_find row_key key rows of None \<Rightarrow> pending_row key actor (env_now E) | Some r \<Rightarrow> r)"

lemma find_current_row:
  "sql_find row_key key (insert_ignore key actor (env_now E) rows) = Some (current_row E key actor rows)"
  using sql_find_None[of row_key key rows]
  by (auto simp: find_insert_ignore current_row_def split: option.splits)

lemma healthy_Process:
  assumes "healthy E" "validateInput key actor (Some h) = None" "key \<notin> completed_in (inbox_rows db)"
  shows "Process E key actor (Some h) db =
           runHandler E key actor h (prior_attempts (inbox_rows db) key + 1) db
             (insert_ignore key actor (env_now E) (inbox_rows db))"
proof -
  have "lock None key (insert_ignore key actor (env_now E) (inbox_rows db)) =
          Inr (status (current_row E key actor (inbox_rows db)), prior_attempts (inbox_rows db) key)"
    by (simp add: lock_def find_current_row)
      (simp add: current_row_def prior_attempts_def pending_row_def split: option.splits)
  moreover have "status (current_row E key actor (inbox_rows db)) \<noteq> ''completed''"
    using assms(3)
    by (auto simp: completed_in_def status_of_def current_row_def pending_row_def split: option.splits)
  ultimately show ?thesis using assms(1,2) by (simp add: Process_def healthy_def insertPending_def)
qed

text \<open>Two updates of the event's row, and the rows around it.\<close>

lemma two_updates:
  assumes u: "unique_keys rows" and f: "\<And>r. row_key (f r) = row_key r" and g: "\<And>r. row_key (g r) = row_key r"
    and rows1: "rows1 = insert_ignore key actor (env_now E) rows"
  obtains rows2 rows3 where "execOne a StmtOk key f rows1 = Inr rows2" "execOne b StmtOk key g rows2 = Inr rows3"
    "sql_find row_key key rows3 = Some (g (f (current_row E key actor rows)))"
    "\<And>k. k \<noteq> key \<Longrightarrow> sql_find row_key k rows3 = sql_find row_key k rows"
proof -
  have u1: "unique_keys rows1" "key \<in> row_key ` set rows1"
    using u rows1 by (simp_all add: unique_insert_ignore key_insert_ignore)
  obtain rows2 where e2: "execOne a StmtOk key f rows1 = Inr rows2" using execOne_ok[OF u1] by blast
  have u2: "unique_keys rows2" "key \<in> row_key ` set rows2"
    using execOne_Inr(2,3)[OF e2 f] u1 by simp_all
  obtain rows3 where e3: "execOne b StmtOk key g rows2 = Inr rows3" using execOne_ok[OF u2] by blast
  have "sql_find row_key key rows3 = Some (g (f (current_row E key actor rows)))"
    by (simp add: execOne_Inr(1)[OF e3 g] execOne_Inr(1)[OF e2 f] rows1 find_current_row)
  moreover have "sql_find row_key k rows3 = sql_find row_key k rows" if "k \<noteq> key" for k
    using that by (simp add: execOne_Inr(1)[OF e3 g] execOne_Inr(1)[OF e2 f] rows1 find_insert_ignore)
  ultimately show ?thesis by (rule that[OF e2 e3])
qed

lemma current_row_attempts: "attempts (current_row E key actor rows) = prior_attempts rows key"
  by (simp add: current_row_def prior_attempts_def pending_row_def split: option.splits)

text \<open>A handler that fails leaves no writes behind and is reported, whatever fails besides.\<close>

lemma failed_handler_rolled_back:
  assumes "unique_keys (inbox_rows db)" "key \<notin> completed_in (inbox_rows db)" "h (domain db) = (Some e, d)"
  shows "domain (snd (Process E key actor (Some h) db)) = domain db" "snd (fst (Process E key actor (Some h) db)) \<noteq> None"
proof -
  obtain res db' where p: "Process E key actor (Some h) db = (res, db')" by fastforce
  from Process_step[OF assms(1) p] assms(3) have "untouched db db'" "snd res = None \<longrightarrow> key \<in> completed_in (inbox_rows db')"
    by (auto simp: applied_def)
  with assms(2) p show "domain (snd (Process E key actor (Some h) db)) = domain db"
    "snd (fst (Process E key actor (Some h) db)) \<noteq> None" by (auto simp: untouched_def)
qed

lemma failed_attempt_recorded:
  assumes "healthy E" "validateInput key actor (Some h) = None" "unique_keys (inbox_rows db)"
    "key \<notin> completed_in (inbox_rows db)" "h (domain db) = (Some e, d)"
  shows "\<exists>db' r. Process E key actor (Some h) db =
      ((\<lparr>Duplicate = False, Attempts = prior_attempts (inbox_rows db) key + 1\<rparr>,
        Some (Wrap ''process inbox event'' e)), db') \<and>
      domain db' = domain db \<and> sql_find row_key key (inbox_rows db') = Some r \<and>
      status r = ''failed'' \<and> attempts r = prior_attempts (inbox_rows db) key + 1 \<and>
      last_error r = truncate_inbox (err_text e) 4096 \<and>
      (\<forall>k. k \<noteq> key \<longrightarrow> sql_find row_key k (inbox_rows db') = sql_find row_key k (inbox_rows db))"
proof -
  let ?f = "\<lambda>r. r\<lparr>status := ''processing'', attempts := attempts r + 1, last_error := [],
                  version := version r + 1, updated_at := env_now E, updated_by := actor\<rparr>"
  let ?g = "\<lambda>r. r\<lparr>status := ''failed'', last_error := truncate_inbox (err_text e) 4096,
                  version := version r + 1, updated_at := env_now E, updated_by := actor\<rparr>"
  show ?thesis
  proof (rule two_updates[OF assms(3) _ _ refl, where f = ?f and g = ?g and key = key and actor = actor and E = E
        and a = "''mark inbox event processing''" and b = "''mark inbox event failed''"])
    fix rows2 rows3
    assume m: "execOne ''mark inbox event processing'' StmtOk key ?f
          (insert_ignore key actor (env_now E) (inbox_rows db)) = Inr rows2"
        "execOne ''mark inbox event failed'' StmtOk key ?g rows2 = Inr rows3"
      and r: "sql_find row_key key rows3 = Some (?g (?f (current_row E key actor (inbox_rows db))))"
        "\<And>k. k \<noteq> key \<Longrightarrow> sql_find row_key k rows3 = sql_find row_key k (inbox_rows db)"
    have "Process E key actor (Some h) db =
        ((\<lparr>Duplicate = False, Attempts = prior_attempts (inbox_rows db) key + 1\<rparr>,
          Some (Wrap ''process inbox event'' e)), \<lparr>inbox_rows = rows3, domain = domain db\<rparr>)"
      unfolding healthy_Process[OF assms(1,2,4)] using m assms(1,5)
      by (simp add: runHandler_def finishFailed_def healthy_def mark_defs)
    with r show ?thesis by (simp add: current_row_attempts)
  qed simp_all
qed

text \<open>C11. A handler that fails leaves nothing behind. Whatever fails in the database besides, the domain is as before
  and the caller gets an error. On a healthy database the failed attempt is
  recorded too (status, attempt count, the error's text cut to at most 4096 bytes at a character boundary), the
  other events' rows are as before, and the error wraps the handler's.\<close>

theorem inbox_failed_attempt:
  assumes "healthy E" "validateInput key actor (Some h) = None" "unique_keys (inbox_rows db)"
    "key \<notin> completed_in (inbox_rows db)" "h (domain db) = (Some e, d)"
  shows "(\<forall>E'. domain (snd (Process E' key actor (Some h) db)) = domain db \<and> snd (fst (Process E' key actor (Some h) db)) \<noteq> None) \<and>
    (\<exists>db' r. Process E key actor (Some h) db =
      ((\<lparr>Duplicate = False, Attempts = prior_attempts (inbox_rows db) key + 1\<rparr>,
        Some (Wrap ''process inbox event'' e)), db') \<and>
      domain db' = domain db \<and> sql_find row_key key (inbox_rows db') = Some r \<and>
      status r = ''failed'' \<and> attempts r = prior_attempts (inbox_rows db) key + 1 \<and>
      last_error r = truncate_inbox (err_text e) 4096 \<and>
      (\<forall>k. k \<noteq> key \<longrightarrow> sql_find row_key k (inbox_rows db') = sql_find row_key k (inbox_rows db)))"
  using failed_handler_rolled_back[where h = h and e = e and d = d, OF assms(3-5)] failed_attempt_recorded[OF assms]
  by (intro conjI allI)

theorem inbox_failed_attempt_witness:
  "snd (fst (Process (quiet_env 5) demo_event ''svc'' (Some (\<lambda>d. (Some (Msg ''no''), d + 7))) demo_inbox)) =
     Some (Wrap ''process inbox event'' (Msg ''no''))"
proof -
  have "healthy (quiet_env 5)" by (simp add: healthy_def quiet_env_def)
  from inbox_failed_attempt[OF this demo_inbox_ok(3) demo_inbox_ok(1,2), where h = "\<lambda>d. (Some (Msg ''no''), d + 7)"]
  show ?thesis by auto
qed

text \<open>A completed row stays as it is, whatever is delivered and whatever fails.\<close>

lemma execOne_find:
  assumes "execOne action fate key f rows = Inr rows'" "k \<noteq> key" "\<And>r. row_key (f r) = row_key r"
  shows "sql_find row_key k rows' = sql_find row_key k rows"
  using execOne_Inr(1)[OF assms(1,3), of k] assms(2) by (simp add: option.map_ident)

lemma commit_rows: "commit fate db db2 = (e, db') \<Longrightarrow> db' = db \<or> db' = db2"
  by (cases fate) auto

lemma runHandler_find:
  assumes "runHandler E key actor h n db rows = (res, db')" "k \<noteq> key"
  shows "sql_find row_key k (inbox_rows db') \<in> {sql_find row_key k (inbox_rows db), sql_find row_key k rows}"
proof (cases "markProcessing (processingFate E) key actor (env_now E) rows")
  case (Inr rows1)
  have 1: "sql_find row_key k rows1 = sql_find row_key k rows"
    using execOne_find[OF Inr[unfolded markProcessing_def] assms(2)] by simp
  obtain he d where h: "h (domain db) = (he, d)" by fastforce
  have f: "sql_find row_key k rows2 = sql_find row_key k rows1" if "markFailed fate key actor e t rows1 = Inr rows2" for fate e t rows2
    using execOne_find[OF that[unfolded markFailed_def] assms(2)] by simp
  have c: "sql_find row_key k rows2 = sql_find row_key k rows1" if "markCompleted fate key actor t rows1 = Inr rows2" for fate t rows2
    using execOne_find[OF that[unfolded markCompleted_def] assms(2)] by simp
  show ?thesis
    using assms(1) Inr h 1
    by (auto simp: runHandler_def finishFailed_def finishCompleted_def split: option.splits sum.splits prod.splits
        dest!: f c commit_rows)
qed (use assms(1) in \<open>auto simp: runHandler_def\<close>)

lemma insert_ignore_keeps: "sql_find row_key k rows = Some r \<Longrightarrow> sql_find row_key k (insert_ignore key actor now rows) = Some r"
  by (induction rows) (auto simp: insert_ignore_def sql_find_def)

lemma Process_keeps_completed:
  assumes "Process E key actor handler db = (res, db')" "sql_find row_key k (inbox_rows db) = Some r" "status r = ''completed''"
  shows "sql_find row_key k (inbox_rows db') = Some r"
  using assms(1)
proof (cases rule: Process_cases)
  case (locked st n rows h)
  have k: "sql_find row_key k rows = Some r" using insert_ignore_keeps[OF assms(2)] locked(2) by simp
  show ?thesis
  proof (cases "st = ''completed''")
    case True
    then show ?thesis using locked(4) commit_rows k assms(2) by fastforce
  next
    case False
    then have "k \<noteq> key" using lock_Inr[OF locked(3)] k assms(3) by auto
    then show ?thesis using runHandler_find[OF locked(5)[OF False], of k] k assms(2) by auto
  qed
qed (use assms in simp)

lemma deliver_all_keeps_completed:
  assumes "deliver_all ds db = (rs, db')" "sql_find row_key k (inbox_rows db) = Some r" "status r = ''completed''"
  shows "sql_find row_key k (inbox_rows db') = Some r"
  using assms(1,2)
proof (induction ds arbitrary: db rs)
  case (Cons d ds)
  obtain res db1 where p: "Process (d_env d) (d_key d) (d_actor d) (d_handler d) db = (res, db1)" by fastforce
  obtain rs1 where q: "deliver_all ds db1 = (rs1, db')" using Cons.prems(1) p by (auto split: prod.splits)
  show ?case using Cons.IH[OF q Process_keeps_completed[OF p Cons.prems(2) assms(3)]] .
qed simp

lemma completed_is_duplicate:
  assumes "healthy E" "validateInput key actor (Some h) = None" "sql_find row_key key (inbox_rows db) = Some r" "status r = ''completed''"
  shows "Process E key actor (Some h) db = ((\<lparr>Duplicate = True, Attempts = attempts r\<rparr>, None), db)"
proof -
  have "insert_ignore key actor (env_now E) (inbox_rows db) = inbox_rows db"
    using sql_find_None[of row_key key "inbox_rows db"] assms(3) by (auto simp: insert_ignore_def)
  then show ?thesis using assms by (simp add: Process_def healthy_def insertPending_def lock_def)
qed

text \<open>C10. When the handler succeeds on a healthy database, its writes are committed and the event is completed.
  From then on, whatever other deliveries of any events come between and whatever fails in them, every delivery of
  it to a healthy database is reported as a duplicate and changes nothing, whatever its handler would do. (Until
  retention deletes the row: then the event is new again.)\<close>

theorem inbox_success_then_duplicate:
  assumes "healthy E" "validateInput key actor (Some h) = None" "unique_keys (inbox_rows db)"
    "key \<notin> completed_in (inbox_rows db)" "h (domain db) = (None, d)"
    "healthy E2" "validateInput key actor2 (Some h2) = None"
  shows "\<exists>db'. Process E key actor (Some h) db =
      ((\<lparr>Duplicate = False, Attempts = prior_attempts (inbox_rows db) key + 1\<rparr>, None), db') \<and>
      domain db' = d \<and>
      (\<forall>ds rs db2. deliver_all ds db' = (rs, db2) \<longrightarrow>
         Process E2 key actor2 (Some h2) db2 =
           ((\<lparr>Duplicate = True, Attempts = prior_attempts (inbox_rows db) key + 1\<rparr>, None), db2))"
proof -
  let ?f = "\<lambda>r. r\<lparr>status := ''processing'', attempts := attempts r + 1, last_error := [],
                  version := version r + 1, updated_at := env_now E, updated_by := actor\<rparr>"
  let ?g = "\<lambda>r. r\<lparr>status := ''completed'', last_error := [], completed_at := Some (env_now E),
                  version := version r + 1, updated_at := env_now E, updated_by := actor\<rparr>"
  show ?thesis
  proof (rule two_updates[OF assms(3) _ _ refl, where f = ?f and g = ?g and key = key and actor = actor and E = E
        and a = "''mark inbox event processing''" and b = "''mark inbox event completed''"])
    fix rows2 rows3
    assume m: "execOne ''mark inbox event processing'' StmtOk key ?f
          (insert_ignore key actor (env_now E) (inbox_rows db)) = Inr rows2"
        "execOne ''mark inbox event completed'' StmtOk key ?g rows2 = Inr rows3"
      and r: "sql_find row_key key rows3 = Some (?g (?f (current_row E key actor (inbox_rows db))))"
    let ?db = "\<lparr>inbox_rows = rows3, domain = d\<rparr>"
    have "Process E key actor (Some h) db =
        ((\<lparr>Duplicate = False, Attempts = prior_attempts (inbox_rows db) key + 1\<rparr>, None), ?db)"
      unfolding healthy_Process[OF assms(1,2,4)] using m assms(1,5)
      by (simp add: runHandler_def finishCompleted_def healthy_def mark_defs)
    moreover have "Process E2 key actor2 (Some h2) db2 =
        ((\<lparr>Duplicate = True, Attempts = prior_attempts (inbox_rows db) key + 1\<rparr>, None), db2)"
      if "deliver_all ds ?db = (rs, db2)" for ds rs db2
      using completed_is_duplicate[OF assms(6,7) deliver_all_keeps_completed[OF that, of key]] r
      by (simp add: current_row_attempts)
    ultimately show ?thesis by auto
  qed simp_all
qed

theorem inbox_success_then_duplicate_witness:
  "Process (quiet_env 9) demo_event ''svc'' (Some demo_count) (snd (deliver_all [demo_delivery, demo_delivery] demo_inbox)) =
     ((\<lparr>Duplicate = True, Attempts = 1\<rparr>, None), snd (deliver_all [demo_delivery, demo_delivery] demo_inbox))"
proof -
  have q: "healthy (quiet_env t)" for t by (simp add: healthy_def quiet_env_def)
  have a: "prior_attempts (inbox_rows demo_inbox) demo_event = 0" by code_simp
  obtain db' where p: "Process (quiet_env 5) demo_event ''svc'' (Some demo_count) demo_inbox =
        ((\<lparr>Duplicate = False, Attempts = 1\<rparr>, None), db')"
      "\<forall>ds rs db2. deliver_all ds db' = (rs, db2) \<longrightarrow>
         Process (quiet_env 9) demo_event ''svc'' (Some demo_count) db2 = ((\<lparr>Duplicate = True, Attempts = 1\<rparr>, None), db2)"
    using inbox_success_then_duplicate[OF q[of 5] demo_inbox_ok(3) demo_inbox_ok(1,2) _ q[of 9] demo_inbox_ok(3),
      where h = demo_count and ?h2.0 = demo_count and d = 1] a by (auto simp: demo_count_def demo_inbox_def)
  have "snd (deliver_all [demo_delivery, demo_delivery] demo_inbox) = snd (deliver_all [demo_delivery] db')"
    using p(1) by (simp add: demo_delivery_def split: prod.splits)
  then show ?thesis using p(2) by (metis prod.collapse)
qed

text \<open>Cutting a text to a byte limit keeps valid UTF-8 valid, gives a prefix within the limit, and
  gives away at most the three bytes of one incomplete character.\<close>

theorem truncate_inbox_utf8:
  assumes "valid_utf8 v"
  shows "valid_utf8 (truncate_inbox v limit) \<and> prefix (truncate_inbox v limit) v \<and>
    length (truncate_inbox v limit) \<le> limit \<and> min limit (length v) \<le> length (truncate_inbox v limit) + 3"
proof (cases "length v \<le> limit")
  case True
  with assms show ?thesis by (simp add: truncate_inbox_def)
next
  case False
  then have "valid_utf8 (take (back_off v limit) v)"
    using back_off_stops[of v limit] back_off_le[of v limit]
    by (cases "back_off v limit = 0") (auto intro: valid_utf8_take[OF assms])
  with False show ?thesis
    using back_off_le[of v limit] back_off_near[OF assms, of limit]
    by (simp add: truncate_inbox_def take_is_prefix)
qed

theorem truncate_inbox_utf8_witness:
  "valid_utf8 [CHR ''a'', CHR 0xC3, CHR 0xA9] \<and> valid_utf8 (truncate_inbox [CHR ''a'', CHR 0xC3, CHR 0xA9] 2)"
proof -
  have v: "valid_utf8 [CHR ''a'', CHR 0xC3, CHR 0xA9]" by code_simp
  with truncate_inbox_utf8[OF v, of 2] show ?thesis by blast
qed

section \<open>Retention\<close>

text \<open>Whatever fails, the deletes that happened are those of a first part of the keys.\<close>

lemma deleteKeys_result:
  assumes "deleteKeys fates before ks n rows = ((m, e), rows')"
  shows "\<exists>i. rows' = sql_delete (\<lambda>r. row_key r \<in> set (take i ks) \<and> completed_before before r) rows \<and>
     (e = None \<longrightarrow> length ks \<le> i \<and>
        m = n + int (sql_affected (\<lambda>r. row_key r \<in> set ks \<and> completed_before before r) rows))"
  using assms
proof (induction fates before ks n rows rule: deleteKeys.induct)
  case (1 fates before n rows)
  then show ?case by (auto simp: sql_delete_def sql_affected_def)
next
  case (2 fates before k ks n rows)
  let ?p = "\<lambda>r. row_key r = k \<and> completed_before before r"
  have or: "(\<lambda>r. ?p r \<or> row_key r \<in> set xs \<and> completed_before before r) =
            (\<lambda>r. row_key r \<in> set (k # xs) \<and> completed_before before r)" for xs by auto
  consider x where "(case fates of [] \<Rightarrow> StmtOk | f # _ \<Rightarrow> f) = StmtErr x"
    | x where "(case fates of [] \<Rightarrow> StmtOk | f # _ \<Rightarrow> f) = CountErr x"
    | "(case fates of [] \<Rightarrow> StmtOk | f # _ \<Rightarrow> f) = StmtOk"
    by (metis stmt_fate.exhaust)
  then show ?case
  proof cases
    case 1
    with "2.prems" show ?thesis by (intro exI[of _ 0]) (auto simp: sql_delete_def)
  next
    case c: 2
    with "2.prems" show ?thesis by (intro exI[of _ 1]) auto
  next
    case 3
    with "2.prems" have "deleteKeys (drop 1 fates) before ks (n + int (sql_affected ?p rows)) (sql_delete ?p rows) = ((m, e), rows')"
      by (simp add: Let_def)
    from "2.IH"[OF refl 3 this] obtain i where
      i: "rows' = sql_delete (\<lambda>r. ?p r \<or> row_key r \<in> set (take i ks) \<and> completed_before before r) rows"
      and n: "e = None \<Longrightarrow> length ks \<le> i \<and> m = n + int (sql_affected ?p rows) +
           int (sql_affected (\<lambda>r. row_key r \<in> set ks \<and> completed_before before r) (sql_delete ?p rows))"
      by (auto simp: sql_delete_delete)
    show ?thesis
      using i n sql_affected_delete[of ?p rows "\<lambda>r. row_key r \<in> set ks \<and> completed_before before r"]
      by (intro exI[of _ "Suc i"]) (auto simp: or simp flip: of_nat_add)
  qed
qed

lemma DeleteCompletedBefore_result:
  assumes "unique_keys rows" "DeleteCompletedBefore selectErr fates before limit rows = ((n, e), rows')"
  shows "\<exists>j. j \<le> nat limit \<and>
     rows' = sql_delete (\<lambda>r. r \<in> set (sql_select (completed_before before) oldest_first j rows)) rows \<and>
     (e = None \<longrightarrow> j = nat limit \<and> 0 < limit \<and> n = int (length (rows)) - int (length rows'))"
proof (cases "limit \<le> 0 \<or> selectErr \<noteq> None")
  case True
  with assms(2) show ?thesis
    by (intro exI[of _ 0]) (auto simp: DeleteCompletedBefore_def sql_select_def sql_delete_def split: if_splits)
next
  case False
  let ?sel = "\<lambda>j. sql_select (completed_before before) oldest_first j rows"
  let ?del = "\<lambda>j. sql_delete (\<lambda>r. row_key r \<in> row_key ` set (?sel j) \<and> completed_before before r) rows"
  have d: "deleteKeys fates before (map row_key (?sel (nat limit))) 0 rows = ((n, e), rows')"
    using assms(2) False by (auto simp: DeleteCompletedBefore_def split: if_splits)
  have tk: "take i (?sel (nat limit)) = ?sel (min i (nat limit))" for i by (simp add: sql_select_def)
  have eq: "?del j = sql_delete (\<lambda>r. r \<in> set (?sel j)) rows" for j
    using in_selected[OF assms(1)[unfolded unique_keys_def]] set_sql_select[of "completed_before before" oldest_first j rows]
    unfolding sql_delete_def by (intro filter_cong refl) blast
  obtain i where i: "rows' = ?del (min i (nat limit))"
    "e = None \<Longrightarrow> length (?sel (nat limit)) \<le> i \<and>
       n = int (sql_affected (\<lambda>r. row_key r \<in> row_key ` set (?sel (nat limit)) \<and> completed_before before r) rows)"
    using deleteKeys_result[OF d] by (auto simp: take_map tk)
  show ?thesis
  proof (cases "e = None")
    case True
    with i(2) have "take i (?sel (nat limit)) = ?sel (nat limit)" by simp
    then have r: "rows' = ?del (nat limit)" using i(1) by (simp add: tk)
    then show ?thesis
      using False True i(2) eq[of "nat limit"]
        length_sql_delete[of "\<lambda>r. row_key r \<in> row_key ` set (?sel (nat limit)) \<and> completed_before before r" rows]
      by (intro exI[of _ "nat limit"]) auto
  next
    case False
    with i(1) eq show ?thesis by (intro exI[of _ "min i (nat limit)"]) auto
  qed
qed

lemma delete_selected_length:
  assumes "unique_keys rows"
  shows "length rows = length (sql_delete (\<lambda>r. r \<in> set (sql_select p ord j rows)) rows) + min j (sql_affected p rows)"
proof -
  have "sql_affected (\<lambda>r. r \<in> set (sql_select p ord j rows)) rows =
        sql_affected (\<lambda>r. row_key r \<in> row_key ` set (sql_select p ord j rows) \<and> p r) rows"
    using in_selected[OF assms[unfolded unique_keys_def]] set_sql_select[of p ord j rows]
    unfolding sql_affected_def by (intro arg_cong[where f = length] filter_cong refl) blast
  then show ?thesis
    using length_sql_delete[of "\<lambda>r. r \<in> set (sql_select p ord j rows)" rows]
      sql_affected_selected[OF assms[unfolded unique_keys_def], of p ord j] length_sql_select[of p ord j rows]
    by simp
qed

text \<open>Whatever fails while it runs, a cleanup removes at most the requested number of rows, only
  completed events older than the cutoff, and none of them before an older one that it leaves.\<close>

theorem inbox_cleanup_safe:
  assumes "unique_keys rows" "DeleteCompletedBefore selectErr fates before limit rows = ((n, e), rows')"
  shows "subseq rows' rows \<and> length rows \<le> length rows' + nat limit \<and>
    (\<forall>r \<in> set rows - set rows'. completed_before before r \<and>
       (\<forall>q \<in> set rows'. completed_before before q \<longrightarrow> oldest_first r \<le> oldest_first q))"
proof -
  obtain j where j: "j \<le> nat limit"
    "rows' = sql_delete (\<lambda>r. r \<in> set (sql_select (completed_before before) oldest_first j rows)) rows"
    using DeleteCompletedBefore_result[OF assms] by blast
  have "subseq rows' rows" unfolding j(2) sql_delete_def by (rule subseq_filter_left)
  moreover have "length rows \<le> length rows' + nat limit"
    using delete_selected_length[OF assms(1), of "completed_before before" oldest_first j] j by simp
  moreover have "completed_before before r \<and> (\<forall>q \<in> set rows'. completed_before before q \<longrightarrow> oldest_first r \<le> oldest_first q)"
    if "r \<in> set rows - set rows'" for r
  proof -
    have "r \<in> set (sql_select (completed_before before) oldest_first j rows)" using that j(2) by simp
    then show ?thesis
      using set_sql_select[of "completed_before before" oldest_first j rows] sql_select_first j(2) by fastforce
  qed
  ultimately show ?thesis by blast
qed

definition demo_rows :: "inbox_row list" where
  "demo_rows = [(pending_row demo_event ''svc'' 1)\<lparr>status := ''completed'', completed_at := Some 2\<rparr>,
                pending_row \<lparr>Consumer = ''billing'', EventID = ''e2''\<rparr> ''svc'' 1]"

lemma demo_rows_unique: "unique_keys demo_rows"
  by (simp add: unique_keys_def demo_rows_def demo_event_def)

theorem inbox_cleanup_safe_witness:
  "subseq (snd (DeleteCompletedBefore None [] 9 10 demo_rows)) demo_rows \<and>
   length (snd (DeleteCompletedBefore None [] 9 10 demo_rows)) = 1"
proof
  show "subseq (snd (DeleteCompletedBefore None [] 9 10 demo_rows)) demo_rows"
    using inbox_cleanup_safe[OF demo_rows_unique, of None "[]" 9 10] by (metis prod.collapse)
  show "length (snd (DeleteCompletedBefore None [] 9 10 demo_rows)) = 1" by code_simp
qed

text \<open>
  The store as the cleaner sees it: what the environment has in store for each batch, and the table.
\<close>

type_synonym inbox_faults = "(goerr option \<times> stmt_fate list) list"

definition inbox_batch :: "(inbox_faults \<times> inbox_row list) batch_delete" where
  "inbox_batch before limit s =
     (let (sel, fates) = (case fst s of [] \<Rightarrow> (None, []) | x # _ \<Rightarrow> x);
          (res, rows') = DeleteCompletedBefore sel fates before limit (snd s)
      in (res, (drop 1 (fst s), rows')))"

lemma inbox_batch_result:
  assumes "unique_keys (snd s)" "inbox_batch cutoff batch s = ((n, e), s')"
  obtains j where "snd s' = sql_delete (\<lambda>r. r \<in> set (sql_select (completed_before cutoff) oldest_first j (snd s))) (snd s)"
    "e = None \<Longrightarrow> j = nat batch \<and> n = int (length (snd s)) - int (length (snd s'))"
proof -
  obtain sel fates where "DeleteCompletedBefore sel fates cutoff batch (snd s) = ((n, e), snd s')"
    using assms(2) by (auto simp: inbox_batch_def Let_def split: prod.splits list.splits)
  from DeleteCompletedBefore_result[OF assms(1) this] show ?thesis using that by blast
qed

definition NewRetentionCleaner_inbox ::
  "(inbox_faults \<times> inbox_row list) batch_delete option \<Rightarrow> RetentionConfig \<Rightarrow>
   goerr + (inbox_faults \<times> inbox_row list) RetentionCleaner" where
  "NewRetentionCleaner_inbox st config =
     NewRetentionCleaner ''completed inbox store, retention, and batch size are required'' st config"

interpretation inbox_cleanup: bounded_cleanup inbox_batch
  "\<lambda>cutoff s. sql_affected (completed_before cutoff) (snd s)"
  "\<lambda>cutoff s. unique_keys (snd s) \<and> sql_delete (completed_before cutoff) (snd s) = keep" for keep
proof (unfold_locales, goal_cases)
  case (1 batch cutoff s n s')
  let ?p = "completed_before cutoff"
  let ?q = "\<lambda>r. r \<in> set (sql_select ?p oldest_first (nat batch) (snd s))"
  obtain j where s': "snd s' = sql_delete ?q (snd s)" and n: "n = int (length (snd s)) - int (length (snd s'))"
    using inbox_batch_result[OF _ 1(3)] 1(2) by blast
  have "sql_affected ?p (snd s') = sql_affected ?p (snd s) - sql_affected ?q (snd s)"
    unfolding s' using set_sql_select[of ?p oldest_first "nat batch" "snd s"] by (intro sql_affected_delete_sub) auto
  then show ?case
    using n delete_selected_length[of "snd s" ?p oldest_first "nat batch"] 1(1,2) s' length_sql_delete[of ?q "snd s"]
    by (auto simp: min_def)
next
  case (2 cutoff s batch)
  obtain n e s' where b: "inbox_batch cutoff batch s = ((n, e), s')" by (metis surj_pair)
  obtain j where s': "snd s' = sql_delete (\<lambda>r. r \<in> set (sql_select (completed_before cutoff) oldest_first j (snd s))) (snd s)"
    using inbox_batch_result[OF _ b] 2 by blast
  have "sql_delete (completed_before cutoff) (snd s') = sql_delete (completed_before cutoff) (snd s)"
    unfolding s' using set_sql_select[of "completed_before cutoff" oldest_first j "snd s"]
    by (auto simp: sql_delete_def intro!: filter_cong)
  then show ?case
    using 2 b s' by (auto simp: unique_keys_def sql_delete_def intro: distinct_map_filter)
qed

text \<open>A cleanup run always returns, in a store whose batches may fail at any point. It never removes
  a row that is not a completed event older than the retention period; without an error it has
  removed exactly those, and returns their number.\<close>

theorem inbox_retention_drains:
  assumes "NewRetentionCleaner_inbox (Some inbox_batch) config = Inr c"
    and "unique_keys rows"
  shows "\<exists>t e faults' rows'. RunOnce_retention c now (faults, rows) = Some ((t, e), (faults', rows')) \<and>
    sql_delete (completed_before (now - Retention config)) rows' = sql_delete (completed_before (now - Retention config)) rows \<and>
    (e = None \<longrightarrow> rows' = sql_delete (completed_before (now - Retention config)) rows \<and>
       t = int (sql_affected (completed_before (now - Retention config)) rows))"
proof -
  let ?p = "completed_before (now - Retention config)"
  have c: "store c = inbox_batch" "retention c = Retention config" "0 < batchSize c"
    using assms(1) by (auto simp: NewRetentionCleaner_inbox_def NewRetentionCleaner_def split: if_splits)
  obtain t e faults' rows' where r: "RunOnce_retention c now (faults, rows) = Some ((t, e), (faults', rows'))"
      "sql_delete ?p rows' = sql_delete ?p rows"
      "e = None \<Longrightarrow> t = int (sql_affected ?p rows) \<and> sql_affected ?p rows' = 0"
    using inbox_cleanup.drain_result[OF c(3), where s = "(faults, rows)" and cutoff = "now - Retention config"
        and acc = 0 and keep = "sql_delete ?p rows"] assms(2)
    by (auto simp: RunOnce_retention_def c)
  have "sql_delete ?p rows' = rows'" if "sql_affected ?p rows' = 0"
    using that by (auto simp: sql_affected_def sql_delete_def filter_empty_conv)
  with r show ?thesis by auto
qed



theorem inbox_retention_drains_witness:
  "\<exists>t e s'. RunOnce_retention \<lparr>store = inbox_batch, retention = 3, batchSize = 10\<rparr> 12 ([], demo_rows) = Some ((t, e), s')"
proof -
  have "NewRetentionCleaner_inbox (Some inbox_batch)
      \<lparr>Retention = 3, BatchSize = 10\<rparr> = Inr \<lparr>store = inbox_batch, retention = 3, batchSize = 10\<rparr>"
    by (simp add: NewRetentionCleaner_inbox_def NewRetentionCleaner_def)
  from inbox_retention_drains[OF this demo_rows_unique, of 12 "[]"] show ?thesis by blast
qed

end
