(* ===== verification/Envelope.thy ===== *)
theory Envelope
  imports Go_Strings
begin

text \<open>
  The shared event envelope (\<open>src/eventbus/envelope.go\<close>). The Protobuf messages are
  generated outside the repository, so they are records with the fields the code reads and writes,
  and their binary encoding is a parameter: \<open>Marshal\<close> and \<open>Unmarshal\<close> functions that
  may fail. A nil message is \<open>None\<close>; the zero \<open>time.Time\<close> is \<open>None\<close> too.
\<close>

record RequestContext =
  rc_RequestId :: string
  rc_TraceId :: string
  rc_ActorId :: string
  rc_ActorType :: string
  rc_TenantId :: string
  rc_MembershipId :: string

record EventEnvelope =
  EventId :: string
  EventType :: string
  AggregateId :: string
  AggregateType :: string
  TenantId :: string
  ApplicationId :: string
  SchemaVersion :: nat
  OccurredAt :: int
  env_Context :: "RequestContext option"
  env_Payload :: string

record Metadata =
  m_EventID :: string
  m_EventType :: string
  m_AggregateID :: string
  m_AggregateType :: string
  m_TenantID :: string
  m_ApplicationID :: string
  m_SchemaVersion :: nat
  m_RequestID :: string
  m_TraceID :: string
  m_ActorID :: string
  m_ActorType :: string
  m_OccurredAt :: "int option"

text \<open>\<open>now\<close> is what \<open>time.Now().UTC()\<close> would return, \<open>marshal\<close> encodes the payload.\<close>

definition NewEnvelope :: "('m \<Rightarrow> goerr + string) \<Rightarrow> int \<Rightarrow> Metadata \<Rightarrow> 'm option \<Rightarrow> goerr + EventEnvelope" where
  "NewEnvelope marshal now metadata payload =
     (if m_EventID metadata = [] \<or> m_EventType metadata = [] \<or> m_AggregateID metadata = [] \<or> m_AggregateType metadata = []
      then Inl (Msg ''event id, type, aggregate id, and aggregate type are required'')
      else if m_SchemaVersion metadata = 0 then Inl (Msg ''event schema version must be positive'')
      else
        (case payload of
           None \<Rightarrow> Inl (Msg ''event payload is required'')
         | Some p \<Rightarrow>
             (case marshal p of
                Inl e \<Rightarrow> Inl e
              | Inr encoded \<Rightarrow>
                  Inr \<lparr>EventId = m_EventID metadata, EventType = m_EventType metadata,
                       AggregateId = m_AggregateID metadata, AggregateType = m_AggregateType metadata,
                       TenantId = m_TenantID metadata, ApplicationId = m_ApplicationID metadata,
                       SchemaVersion = m_SchemaVersion metadata,
                       OccurredAt = (case m_OccurredAt metadata of None \<Rightarrow> now | Some t \<Rightarrow> t),
                       env_Context = Some \<lparr>rc_RequestId = m_RequestID metadata, rc_TraceId = m_TraceID metadata,
                          rc_ActorId = m_ActorID metadata, rc_ActorType = m_ActorType metadata,
                          rc_TenantId = m_TenantID metadata, rc_MembershipId = []\<rparr>,
                       env_Payload = encoded\<rparr>)))"

definition DecodePayload :: "(string \<Rightarrow> goerr + 'm) \<Rightarrow> EventEnvelope option \<Rightarrow> 'm option \<Rightarrow> goerr + 'm" where
  "DecodePayload unmarshal envelope target =
     (case (envelope, target) of
        (Some e, Some t) \<Rightarrow> unmarshal (env_Payload e)
      | _ \<Rightarrow> Inl (Msg ''event envelope and target are required''))"

lemma NewEnvelope_InrD:
  assumes "NewEnvelope marshal now metadata payload = Inr e"
  shows "EventId e = m_EventID metadata" "EventType e = m_EventType metadata" "EventId e \<noteq> []" "EventType e \<noteq> []"
    "AggregateId e = m_AggregateID metadata" "AggregateId e \<noteq> []" "AggregateType e \<noteq> []" "SchemaVersion e \<noteq> 0"
    "\<exists>p. payload = Some p \<and> marshal p = Inr (env_Payload e)"
  using assms by (auto simp: NewEnvelope_def split: if_splits option.splits sum.splits)

text \<open>The metadata without which no envelope can be built.\<close>

lemma NewEnvelope_Inr_iff:
  "(\<exists>e. NewEnvelope marshal now metadata (Some p) = Inr e) \<longleftrightarrow>
     m_EventID metadata \<noteq> [] \<and> m_EventType metadata \<noteq> [] \<and> m_AggregateID metadata \<noteq> [] \<and>
     m_AggregateType metadata \<noteq> [] \<and> m_SchemaVersion metadata \<noteq> 0 \<and> (\<exists>x. marshal p = Inr x)"
  by (auto simp: NewEnvelope_def split: sum.splits)

end
