(* ===== verification/Outbox.thy ===== *)
theory Outbox
  imports Envelope Retention
begin

text \<open>
  The transactional outbox: the SQL store (\<open>src/outbox/sqlstore.go\<close>), the dispatcher
  (\<open>src/outbox/dispatcher.go\<close>) and the cleaner (\<open>src/outbox/retention.go\<close>). The table is
  a list of rows; every statement and every commit may fail; the binary form of an envelope is a
  parameter. \<open>SKIP LOCKED\<close> lets a claim overlook rows that another transaction holds: the
  locked rows are part of what a call meets.
\<close>

section \<open>Types\<close>

record Event =
  ID :: string
  Subject :: string
  Envelope :: "EventEnvelope option"

record outbox_row =
  id_col :: string
  subject :: string
  envelope :: string
  o_attempts :: int
  available_at :: int
  published_at :: "int option"
  o_last_error :: string
  o_version :: int
  o_created_at :: int
  o_updated_at :: int
  o_created_by :: string
  o_updated_by :: string

text \<open>\<open>driver\<close> is the name of the database driver (\<open>db.DriverName()\<close>).\<close>

record SQLStore_outbox =
  table_outbox :: string
  workerActor :: string
  driver :: string

definition validTable :: "string \<Rightarrow> bool" where
  "validTable s =
     (case s of
        [] \<Rightarrow> False
      | c # cs \<Rightarrow> c \<in> {CHR ''a''..CHR ''z''} \<and> length cs \<le> 62 \<and>
          list_all (\<lambda>x. x \<in> {CHR ''a''..CHR ''z''} \<or> x \<in> {CHR ''0''..CHR ''9''} \<or> x = CHR ''_'') cs)"

type_synonym SQLStoreOption = "SQLStore_outbox \<Rightarrow> goerr + SQLStore_outbox"

definition WithWorkerAuditActor :: "string \<Rightarrow> SQLStoreOption" where
  "WithWorkerAuditActor actor st =
     (let a = TrimSpace actor
      in if a = [] \<or> length a > 255
         then Inl (Msg ''outbox worker audit actor must be between 1 and 255 bytes'')
         else Inr (st\<lparr>workerActor := a\<rparr>))"

fun applyOptions :: "SQLStoreOption option list \<Rightarrow> SQLStore_outbox \<Rightarrow> goerr + SQLStore_outbox" where
  "applyOptions [] st = Inr st"
| "applyOptions (None # os) st = Inl (Msg ''outbox SQL store option must not be nil'')"
| "applyOptions (Some f # os) st = (case f st of Inl e \<Rightarrow> Inl e | Inr st' \<Rightarrow> applyOptions os st')"

definition NewSQLStore_outbox :: "string option \<Rightarrow> string \<Rightarrow> SQLStoreOption option list \<Rightarrow> goerr + SQLStore_outbox" where
  "NewSQLStore_outbox db tab options =
     (case db of
        None \<Rightarrow> Inl (Msg ''database and a safe outbox table name are required'')
      | Some drv \<Rightarrow>
          if \<not> validTable tab then Inl (Msg ''database and a safe outbox table name are required'')
          else applyOptions options \<lparr>table_outbox = tab, workerActor = [], driver = drv\<rparr>)"

section \<open>Adding an event\<close>

text \<open>
  The insert into the caller's transaction: \<open>tx\<close> says whether there is one and
  \<open>insertErr\<close> what the database answers. The event becomes part of the table the transaction
  sees; whether it stays is the caller's commit.
\<close>

definition new_row :: "Event \<Rightarrow> string \<Rightarrow> string \<Rightarrow> int \<Rightarrow> outbox_row" where
  "new_row event encoded actor now =
     \<lparr>id_col = ID event, subject = Subject event, envelope = encoded, o_attempts = 0, available_at = now,
      published_at = None, o_last_error = [], o_version = 1, o_created_at = now, o_updated_at = now,
      o_created_by = actor, o_updated_by = actor\<rparr>"

definition AddTx ::
  "(EventEnvelope \<Rightarrow> goerr + string) \<Rightarrow> SQLStore_outbox \<Rightarrow> goerr option \<Rightarrow> int \<Rightarrow> bool \<Rightarrow> Event \<Rightarrow> string \<Rightarrow>
   outbox_row list \<Rightarrow> goerr option \<times> outbox_row list" where
  "AddTx marshal s insErr now tx event actor rows =
     (if \<not> tx \<or> ID event = [] \<or> Subject event = [] \<or> Envelope event = None \<or> actor = []
      then (Some (Msg ''transaction, complete event, and audit actor are required''), rows)
      else if EventId (the (Envelope event)) \<noteq> ID event \<or> EventType (the (Envelope event)) \<noteq> Subject event
      then (Some (Msg ''outbox event id and subject must match its envelope''), rows)
      else
        (case marshal (the (Envelope event)) of
           Inl e \<Rightarrow> (Some (Wrap (''encode '' @ table_outbox s @ '' event '' @ quoted (ID event)) e), rows)
         | Inr encoded \<Rightarrow>
             (case insErr of
                Some e \<Rightarrow> (Some (Wrap (''insert '' @ table_outbox s @ '' event '' @ quoted (ID event)) e), rows)
              | None \<Rightarrow> (None, rows @ [new_row event encoded actor now]))))"

section \<open>Claiming\<close>

text \<open>What a call to the store meets.\<close>

record store_env =
  s_now :: int
  s_beginErr :: "goerr option"
  s_auditErr :: "goerr option"
  s_selectErr :: "goerr option"
  s_locked :: "string list"
  s_leaseErr :: "string \<Rightarrow> goerr option"
  s_execFate :: stmt_fate
  s_commitFate :: commit_fate

definition setWorkerAuditActor :: "SQLStore_outbox \<Rightarrow> store_env \<Rightarrow> goerr option" where
  "setWorkerAuditActor s E =
     (if workerActor s = [] then None
      else if driver s \<in> {''mysql'', ''pgx'', ''postgres'', ''kingbase''}
      then map_option (Wrap (''set '' @ table_outbox s @ '' worker audit actor'')) (s_auditErr E)
      else None)"

definition claimable :: "int \<Rightarrow> string list \<Rightarrow> outbox_row \<Rightarrow> bool" where
  "claimable now locked r \<longleftrightarrow> published_at r = None \<and> available_at r \<le> now \<and> id_col r \<notin> set locked"

definition is_pending :: "string \<Rightarrow> outbox_row \<Rightarrow> bool" where
  "is_pending i r \<longleftrightarrow> id_col r = i \<and> published_at r = None"

definition leaseRow :: "int \<Rightarrow> int \<Rightarrow> outbox_row \<Rightarrow> outbox_row" where
  "leaseRow now lease r =
     r\<lparr>o_attempts := o_attempts r + 1, available_at := now + lease, o_version := o_version r + 1,
       o_updated_at := now, o_updated_by := ''outbox-dispatcher''\<rparr>"

fun leaseAll ::
  "(string \<Rightarrow> goerr + EventEnvelope) \<Rightarrow> SQLStore_outbox \<Rightarrow> store_env \<Rightarrow> int \<Rightarrow> outbox_row list \<Rightarrow> outbox_row list \<Rightarrow>
   goerr + (Event list \<times> outbox_row list)" where
  "leaseAll unmarshal s E lease [] rows = Inr ([], rows)"
| "leaseAll unmarshal s E lease (r # rs) rows =
     (case unmarshal (envelope r) of
        Inl e \<Rightarrow> Inl (Wrap (''decode '' @ table_outbox s @ '' event '' @ quoted (id_col r)) e)
      | Inr env \<Rightarrow>
          (case s_leaseErr E (id_col r) of
             Some e \<Rightarrow> Inl (Wrap (''lease '' @ table_outbox s @ '' event '' @ quoted (id_col r)) e)
           | None \<Rightarrow>
               (case leaseAll unmarshal s E lease rs
                       (sql_update (is_pending (id_col r)) (leaseRow (s_now E) lease) rows) of
                  Inl e \<Rightarrow> Inl e
                | Inr (evs, rows') \<Rightarrow>
                    Inr (\<lparr>ID = id_col r, Subject = subject r, Envelope = Some env\<rparr> # evs, rows'))))"

definition Claim ::
  "(string \<Rightarrow> goerr + EventEnvelope) \<Rightarrow> SQLStore_outbox \<Rightarrow> store_env \<Rightarrow> int \<Rightarrow> int \<Rightarrow> outbox_row list \<Rightarrow>
   (goerr + Event list) \<times> outbox_row list" where
  "Claim unmarshal s E limit lease rows =
     (case s_beginErr E of
        Some e \<Rightarrow> (Inl (Wrap (''begin '' @ table_outbox s @ '' claim'') e), rows)
      | None \<Rightarrow>
        (case setWorkerAuditActor s E of
           Some e \<Rightarrow> (Inl e, rows)
         | None \<Rightarrow>
           (case s_selectErr E of
              Some e \<Rightarrow> (Inl (Wrap (''select '' @ table_outbox s) e), rows)
            | None \<Rightarrow>
              (case leaseAll unmarshal s E lease
                      (sql_select (claimable (s_now E) (s_locked E)) (\<lambda>r. (available_at r, o_created_at r)) (nat limit) rows)
                      rows of
                 Inl e \<Rightarrow> (Inl e, rows)
               | Inr (evs, rows') \<Rightarrow>
                   (case commit (s_commitFate E) rows rows' of
                      (Some e, tab) \<Rightarrow> (Inl (Wrap (''commit '' @ table_outbox s @ '' claim'') e), tab)
                    | (None, tab) \<Rightarrow> (Inr evs, tab))))))"

section \<open>Settling\<close>

text \<open>
  \<open>execWorkerUpdate\<close> and \<open>affected\<close>: the update of one pending row, in a transaction of
  its own when an audit actor is set. The result of the statement is the number of affected rows,
  or an error when it is asked for.
\<close>

definition execWorkerUpdate ::
  "SQLStore_outbox \<Rightarrow> store_env \<Rightarrow> (outbox_row \<Rightarrow> bool) \<Rightarrow> (outbox_row \<Rightarrow> outbox_row) \<Rightarrow> outbox_row list \<Rightarrow>
   (goerr + (goerr + nat)) \<times> outbox_row list" where
  "execWorkerUpdate s E p f rows =
     (let res = (case s_execFate E of CountErr e \<Rightarrow> Inl e | _ \<Rightarrow> Inr (sql_affected p rows))
      in if workerActor s = []
         then (case s_execFate E of StmtErr e \<Rightarrow> (Inl e, rows) | _ \<Rightarrow> (Inr res, sql_update p f rows))
         else
           (case s_beginErr E of
              Some e \<Rightarrow> (Inl (Wrap (''begin '' @ table_outbox s @ '' worker update'') e), rows)
            | None \<Rightarrow>
              (case setWorkerAuditActor s E of
                 Some e \<Rightarrow> (Inl e, rows)
               | None \<Rightarrow>
                 (case s_execFate E of
                    StmtErr e \<Rightarrow> (Inl e, rows)
                  | _ \<Rightarrow>
                    (case commit (s_commitFate E) rows (sql_update p f rows) of
                       (Some e, tab) \<Rightarrow> (Inl (Wrap (''commit '' @ table_outbox s @ '' worker update'') e), tab)
                     | (None, tab) \<Rightarrow> (Inr res, tab))))))"

definition affected :: "goerr + (goerr + nat) \<Rightarrow> string \<Rightarrow> string \<Rightarrow> goerr option" where
  "affected result tab i =
     (case result of
        Inl e \<Rightarrow> Some (Wrap (''update '' @ tab @ '' event '' @ quoted i) e)
      | Inr (Inl e) \<Rightarrow> Some (Wrap (''count '' @ tab @ '' event '' @ quoted i) e)
      | Inr (Inr n) \<Rightarrow>
          if n \<noteq> 1 then Some (Msg (tab @ '' event '' @ quoted i @ '' is no longer pending'')) else None)"

definition MarkPublished ::
  "SQLStore_outbox \<Rightarrow> store_env \<Rightarrow> Event \<Rightarrow> int \<Rightarrow> outbox_row list \<Rightarrow> goerr option \<times> outbox_row list" where
  "MarkPublished s E event at rows =
     (let (res, tab) = execWorkerUpdate s E (is_pending (ID event))
            (\<lambda>r. r\<lparr>published_at := Some at, o_version := o_version r + 1, o_updated_at := at,
                   o_updated_by := ''outbox-dispatcher'', o_last_error := []\<rparr>) rows
      in (affected res (table_outbox s) (ID event), tab))"

definition MarkFailed ::
  "SQLStore_outbox \<Rightarrow> store_env \<Rightarrow> Event \<Rightarrow> string \<Rightarrow> int \<Rightarrow> outbox_row list \<Rightarrow> goerr option \<times> outbox_row list" where
  "MarkFailed s E event message retryAt rows =
     (let msg = (if length message > 4096 then take 4096 message else message);
          (res, tab) = execWorkerUpdate s E (is_pending (ID event))
            (\<lambda>r. r\<lparr>available_at := retryAt, o_last_error := msg, o_version := o_version r + 1,
                   o_updated_at := s_now E, o_updated_by := ''outbox-dispatcher''\<rparr>) rows
      in (affected res (table_outbox s) (ID event), tab))"

section \<open>Cleaning up\<close>

definition published_before :: "int \<Rightarrow> outbox_row \<Rightarrow> bool" where
  "published_before before r \<longleftrightarrow> (case published_at r of None \<Rightarrow> False | Some t \<Rightarrow> t < before)"

definition oldest_published :: "outbox_row \<Rightarrow> int \<times> string" where
  "oldest_published r = (the (published_at r), id_col r)"

text \<open>\<open>sqlx.In\<close> expands the list of ids; it only fails on an empty one, which is excluded before.\<close>

definition DeletePublishedBefore ::
  "goerr option \<Rightarrow> stmt_fate \<Rightarrow> SQLStore_outbox \<Rightarrow> int \<Rightarrow> int \<Rightarrow> outbox_row list \<Rightarrow>
   (int \<times> goerr option) \<times> outbox_row list" where
  "DeletePublishedBefore selErr fate s before limit rows =
     (if limit \<le> 0 then ((0, Some (Msg ''outbox cleanup limit must be positive'')), rows)
      else
        (case selErr of
           Some e \<Rightarrow> ((0, Some e), rows)
         | None \<Rightarrow>
             (let ids = map id_col (sql_select (published_before before) oldest_published (nat limit) rows);
                  p = (\<lambda>r. id_col r \<in> set ids \<and> published_before before r)
              in if ids = [] then ((0, None), rows)
                 else
                   (case fate of
                      StmtErr e \<Rightarrow> ((0, Some (Wrap (''delete published '' @ table_outbox s @ '' events'') e)), rows)
                    | CountErr e \<Rightarrow> ((0, Some e), sql_delete p rows)
                    | StmtOk \<Rightarrow> ((int (sql_affected p rows), None), sql_delete p rows)))))"

section \<open>The dispatcher\<close>

text \<open>
  The interfaces \<open>Store\<close> and \<open>Publisher\<close> as functions on a state \<open>'w\<close> of the world,
  the context's \<open>Err()\<close> and the clock as readings of it.
\<close>

record 'w Store =
  StClaim :: "int \<Rightarrow> int \<Rightarrow> 'w \<Rightarrow> (goerr + Event list) \<times> 'w"
  StMarkPublished :: "Event \<Rightarrow> int \<Rightarrow> 'w \<Rightarrow> goerr option \<times> 'w"
  StMarkFailed :: "Event \<Rightarrow> string \<Rightarrow> int \<Rightarrow> 'w \<Rightarrow> goerr option \<times> 'w"

type_synonym 'w Publisher = "string \<Rightarrow> EventEnvelope option \<Rightarrow> 'w \<Rightarrow> goerr option \<times> 'w"

record Config_outbox =
  c_BatchSize :: int
  c_Lease :: int
  c_RetryDelay :: int

record 'w Dispatcher =
  dp_store :: "'w Store"
  dp_publisher :: "'w Publisher"
  dp_batchSize :: int
  dp_lease :: int
  dp_retryDelay :: int
  dp_now :: "'w \<Rightarrow> int"

definition New_outbox ::
  "('w \<Rightarrow> int) \<Rightarrow> 'w Store option \<Rightarrow> 'w Publisher option \<Rightarrow> Config_outbox \<Rightarrow> goerr + 'w Dispatcher" where
  "New_outbox clock st pub config =
     (case (st, pub) of
        (Some s, Some p) \<Rightarrow>
          Inr \<lparr>dp_store = s, dp_publisher = p,
               dp_batchSize = (if c_BatchSize config \<le> 0 then 100 else c_BatchSize config),
               dp_lease = (if c_Lease config \<le> 0 then 30 * Second else c_Lease config),
               dp_retryDelay = (if c_RetryDelay config \<le> 0 then 5 * Second else c_RetryDelay config),
               dp_now = clock\<rparr>
      | _ \<Rightarrow> Inl (Msg ''outbox store and publisher are required''))"

text \<open>The loop over the claimed events: \<open>n\<close> counts the published ones, \<open>errs\<close> collects the errors.\<close>

fun dispatchAll ::
  "'w Dispatcher \<Rightarrow> ('w \<Rightarrow> goerr option) \<Rightarrow> Event list \<Rightarrow> int \<Rightarrow> goerr list \<Rightarrow> 'w \<Rightarrow> (int \<times> goerr option) \<times> 'w" where
  "dispatchAll d ctxErr [] n errs w = ((n, errors_Join (map Some errs)), w)"
| "dispatchAll d ctxErr (event # events) n errs w =
     (case ctxErr w of
        Some err \<Rightarrow> ((n, errors_Join (map Some (errs @ [err]))), w)
      | None \<Rightarrow>
          (case dp_publisher d (Subject event) (Envelope event) w of
             (Some err, w1) \<Rightarrow>
               (case StMarkFailed (dp_store d) event (err_text err) (dp_now d w1 + dp_retryDelay d) w1 of
                  (Some markErr, w2) \<Rightarrow>
                    dispatchAll d ctxErr events n
                      (errs @ [Join [err, Wrap (''mark event '' @ quoted (ID event) @ '' failed'') markErr]]) w2
                | (None, w2) \<Rightarrow>
                    dispatchAll d ctxErr events n (errs @ [Wrap (''publish event '' @ quoted (ID event)) err]) w2)
           | (None, w1) \<Rightarrow>
               (case StMarkPublished (dp_store d) event (dp_now d w1) w1 of
                  (Some markErr, w2) \<Rightarrow>
                    dispatchAll d ctxErr events n
                      (errs @ [Wrap (''mark event '' @ quoted (ID event) @ '' published'') markErr]) w2
                | (None, w2) \<Rightarrow> dispatchAll d ctxErr events (n + 1) errs w2)))"

definition RunOnce_outbox :: "'w Dispatcher \<Rightarrow> ('w \<Rightarrow> goerr option) \<Rightarrow> 'w \<Rightarrow> (int \<times> goerr option) \<times> 'w" where
  "RunOnce_outbox d ctxErr w =
     (case StClaim (dp_store d) (dp_batchSize d) (dp_lease d) w of
        (Inl e, w1) \<Rightarrow> ((0, Some (Wrap ''claim outbox events'' e)), w1)
      | (Inr events, w1) \<Rightarrow> dispatchAll d ctxErr events 0 [] w1)"

text \<open>
  The contract of the two interfaces: every call is one step of the system the dispatcher is part
  of. Publishing and recording a failure are allowed for an event that was claimed, recording a
  publication only for one whose publication was acknowledged.
\<close>

locale outbox_interface =
  fixes d :: "'w Dispatcher"
    and step :: "'w \<Rightarrow> 'w \<Rightarrow> bool"
    and holds :: "Event \<Rightarrow> 'w \<Rightarrow> bool"
    and acked_by :: "Event \<Rightarrow> 'w \<Rightarrow> bool"
  assumes claim: "StClaim (dp_store d) n l w = (answer, w') \<Longrightarrow>
      step w w' \<and> (\<forall>evs. answer = Inr evs \<longrightarrow> (\<forall>e \<in> set evs. holds e w'))"
    and publish: "holds e w \<Longrightarrow> dp_publisher d (Subject e) (Envelope e) w = (r, w') \<Longrightarrow>
      step w w' \<and> (r = None \<longrightarrow> acked_by e w')"
    and mark_published: "acked_by e w \<Longrightarrow> StMarkPublished (dp_store d) e t w = (r, w') \<Longrightarrow> step w w'"
    and mark_failed: "holds e w \<Longrightarrow> StMarkFailed (dp_store d) e m t w = (r, w') \<Longrightarrow> step w w'"
    and holds_stable: "step w w' \<Longrightarrow> holds e w \<Longrightarrow> holds e w'"
begin

lemma holds_list: "step w w' \<Longrightarrow> \<forall>e \<in> set es. holds e w \<Longrightarrow> \<forall>e \<in> set es. holds e w'"
  using holds_stable by blast

lemma dispatchAll_run:
  "\<forall>e \<in> set es. holds e w \<Longrightarrow> step\<^sup>*\<^sup>* w (snd (dispatchAll d ctxErr es n errs w))"
proof (induction es arbitrary: n errs w)
  case (Cons e es)
  show ?case
  proof (cases "ctxErr w")
    case None
    obtain r w1 where p: "dp_publisher d (Subject e) (Envelope e) w = (r, w1)" by fastforce
    have h: "holds e w" "\<forall>e \<in> set es. holds e w" using Cons.prems by auto
    have s1: "step w w1" and a: "r = None \<longrightarrow> acked_by e w1" using publish[OF h(1) p] by auto
    define m where "m = (case r of None \<Rightarrow> StMarkPublished (dp_store d) e (dp_now d w1) w1
      | Some err \<Rightarrow> StMarkFailed (dp_store d) e (err_text err) (dp_now d w1 + dp_retryDelay d) w1)"
    obtain q w2 where m2: "m = (q, w2)" by fastforce
    have s2: "step w1 w2"
    proof (cases r)
      case None
      with a m2 show ?thesis by (auto simp: m_def intro: mark_published)
    next
      case (Some err)
      with m2 show ?thesis using mark_failed[OF holds_stable[OF s1 h(1)]] by (auto simp: m_def)
    qed
    have "\<forall>e \<in> set es. holds e w2" by (rule holds_list[OF s2 holds_list[OF s1 h(2)]])
    note run = Cons.IH[OF this]
    have "step\<^sup>*\<^sup>* w2 (snd (dispatchAll d ctxErr (e # es) n errs w))"
      using run None p m2 by (cases r; cases q) (auto simp: m_def)
    then show ?thesis using s1 s2 by (meson converse_rtranclp_into_rtranclp)
  qed simp
qed simp

lemma RunOnce_run: "step\<^sup>*\<^sup>* w (snd (RunOnce_outbox d ctxErr w))"
proof -
  obtain r w1 where c: "StClaim (dp_store d) (dp_batchSize d) (dp_lease d) w = (r, w1)" by fastforce
  from claim[OF c] have s: "step w w1" and h: "\<And>evs. r = Inr evs \<Longrightarrow> \<forall>e \<in> set evs. holds e w1" by auto
  show ?thesis
  proof (cases r)
    case (Inl e)
    with c s show ?thesis by (simp add: RunOnce_outbox_def)
  next
    case (Inr evs)
    from dispatchAll_run[OF h[OF Inr], of ctxErr 0 "[]"] s show ?thesis
      using c Inr by (simp add: RunOnce_outbox_def converse_rtranclp_into_rtranclp)
  qed
qed

end

section \<open>The outbox as a system\<close>

text \<open>
  Services add events, any number of dispatchers claim, publish and settle them, cleaners remove
  published ones, in any interleaving. Beside the table the state records what was added, what
  reached the bus, and which events dispatchers hold. The ids of events
  are unique; a publication that reports an error may have reached the bus all the same.
\<close>

record outbox_sys =
  o_rows :: "outbox_row list"
  sent :: "EventEnvelope list"
  in_hand :: "Event list"
  added :: "Event list"

definition empty_sys :: outbox_sys where
  "empty_sys = \<lparr>o_rows = [], sent = [], in_hand = [], added = []\<rparr>"

inductive sys_step ::
  "(EventEnvelope \<Rightarrow> goerr + string) \<Rightarrow> (string \<Rightarrow> goerr + EventEnvelope) \<Rightarrow> SQLStore_outbox \<Rightarrow> outbox_sys \<Rightarrow> outbox_sys \<Rightarrow> bool"
  for marshal unmarshal s where
  sys_add: "AddTx marshal s insErr now True event actor (o_rows S) = (None, rows') \<Longrightarrow>
    ID event \<notin> ID ` set (added S) \<Longrightarrow>
    sys_step marshal unmarshal s S (S\<lparr>o_rows := rows', added := added S @ [event]\<rparr>)"
| sys_claim: "Claim unmarshal s E limit lease (o_rows S) = (r, rows') \<Longrightarrow>
    sys_step marshal unmarshal s S
      (S\<lparr>o_rows := rows', in_hand := in_hand S @ (case r of Inl e \<Rightarrow> [] | Inr evs \<Rightarrow> evs)\<rparr>)"
| sys_publish: "e \<in> set (in_hand S) \<Longrightarrow> sent' = sent S \<or> sent' = sent S @ [the (Envelope e)] \<Longrightarrow>
    sys_step marshal unmarshal s S (S\<lparr>sent := sent'\<rparr>)"
| sys_mark_published: "e \<in> set (in_hand S) \<Longrightarrow> the (Envelope e) \<in> set (sent S) \<Longrightarrow>
    MarkPublished s E e at (o_rows S) = (r, rows') \<Longrightarrow>
    sys_step marshal unmarshal s S (S\<lparr>o_rows := rows'\<rparr>)"
| sys_mark_failed: "e \<in> set (in_hand S) \<Longrightarrow> MarkFailed s E e message retryAt (o_rows S) = (r, rows') \<Longrightarrow>
    sys_step marshal unmarshal s S (S\<lparr>o_rows := rows'\<rparr>)"
| sys_clean: "DeletePublishedBefore selErr fate s before limit (o_rows S) = (r, rows') \<Longrightarrow>
    sys_step marshal unmarshal s S (S\<lparr>o_rows := rows'\<rparr>)"

text \<open>A row tells an added event when it has its id and subject and decodes to its envelope.\<close>

definition tells :: "(string \<Rightarrow> goerr + EventEnvelope) \<Rightarrow> outbox_row \<Rightarrow> Event \<Rightarrow> bool" where
  "tells unmarshal r ev \<longleftrightarrow>
     id_col r = ID ev \<and> subject r = Subject ev \<and> Envelope ev \<noteq> None \<and> unmarshal (envelope r) = Inr (the (Envelope ev))"

definition rows_tell :: "(string \<Rightarrow> goerr + EventEnvelope) \<Rightarrow> Event list \<Rightarrow> outbox_row list \<Rightarrow> bool" where
  "rows_tell unmarshal evs rows \<longleftrightarrow> distinct (map id_col rows) \<and> (\<forall>r \<in> set rows. \<exists>ev \<in> set evs. tells unmarshal r ev)"

definition pending_ids :: "outbox_row list \<Rightarrow> string set" where
  "pending_ids rows = id_col ` set (filter (\<lambda>r. published_at r = None) rows)"

definition sys_inv :: "(string \<Rightarrow> goerr + EventEnvelope) \<Rightarrow> outbox_sys \<Rightarrow> bool" where
  "sys_inv unmarshal S \<longleftrightarrow>
     distinct (map ID (added S)) \<and> rows_tell unmarshal (added S) (o_rows S) \<and>
     set (in_hand S) \<subseteq> set (added S) \<and>
     (\<forall>e \<in> set (added S). the (Envelope e) \<in> set (sent S) \<or> ID e \<in> pending_ids (o_rows S))"

text \<open>An update that keeps what the rows tell: ids, subjects and envelopes stay.\<close>

definition keeps_event :: "(outbox_row \<Rightarrow> outbox_row) \<Rightarrow> bool" where
  "keeps_event f \<longleftrightarrow> (\<forall>r. id_col (f r) = id_col r \<and> subject (f r) = subject r \<and> envelope (f r) = envelope r)"

lemma rows_tell_update:
  assumes "rows_tell unmarshal evs rows" "keeps_event f"
  shows "rows_tell unmarshal evs (sql_update p f rows)"
proof -
  have k: "map id_col (sql_update p f rows) = map id_col rows"
    using assms(2) by (simp add: sql_update_keys keeps_event_def)
  have t: "tells unmarshal (f r) ev = tells unmarshal r ev" for r ev
    using assms(2) by (simp add: tells_def keeps_event_def)
  show ?thesis
    unfolding rows_tell_def k using assms(1) by (auto simp: rows_tell_def sql_update_def t)
qed

lemma pending_update:
  assumes "keeps_event f" "\<And>r. published_at (f r) = published_at r"
  shows "pending_ids (sql_update p f rows) = pending_ids rows"
  using assms by (induction rows) (simp_all add: pending_ids_def sql_update_def keeps_event_def, clarsimp)

lemma execWorkerUpdate_rows:
  "execWorkerUpdate s E p f rows = (res, rows') \<Longrightarrow> rows' = rows \<or> rows' = sql_update p f rows"
  by (cases "s_commitFate E")
    (auto simp: execWorkerUpdate_def Let_def split: if_splits option.splits stmt_fate.splits)

lemma MarkPublished_rows:
  assumes "MarkPublished s E e at rows = (r, rows')"
  obtains f where "keeps_event f" "\<And>r. published_at (f r) = Some at" "rows' = rows \<or> rows' = sql_update (is_pending (ID e)) f rows"
proof -
  let ?f = "\<lambda>r. r\<lparr>published_at := Some at, o_version := o_version r + 1, o_updated_at := at,
                  o_updated_by := ''outbox-dispatcher'', o_last_error := []\<rparr>"
  obtain res where "execWorkerUpdate s E (is_pending (ID e)) ?f rows = (res, rows')"
    using assms by (auto simp: MarkPublished_def Let_def split: prod.splits)
  from execWorkerUpdate_rows[OF this] show ?thesis by (intro that[of ?f]) (auto simp: keeps_event_def)
qed

lemma MarkFailed_rows:
  assumes "MarkFailed s E e message t rows = (r, rows')"
  obtains f where "keeps_event f" "\<And>r. published_at (f r) = published_at r" "\<And>r. available_at (f r) = t"
    "rows' = rows \<or> rows' = sql_update (is_pending (ID e)) f rows"
proof -
  let ?f = "\<lambda>r. r\<lparr>available_at := t, o_last_error := (if length message > 4096 then take 4096 message else message),
     o_version := o_version r + 1, o_updated_at := s_now E, o_updated_by := ''outbox-dispatcher''\<rparr>"
  obtain res where "execWorkerUpdate s E (is_pending (ID e)) ?f rows = (res, rows')"
    using assms by (auto simp: MarkFailed_def Let_def split: prod.splits)
  from execWorkerUpdate_rows[OF this] show ?thesis by (intro that[of ?f]) (auto simp: keeps_event_def)
qed

lemma keeps_leaseRow: "keeps_event (leaseRow now lease)"
  by (simp add: keeps_event_def leaseRow_def)

text \<open>A claim's transaction leases the rows one by one and returns their events.\<close>

lemma leaseAll_rows:
  assumes "leaseAll unmarshal s E lease sel rows = Inr (evs, rows')" "rows_tell unmarshal told rows"
  shows "rows_tell unmarshal told rows' \<and> pending_ids rows' = pending_ids rows"
  using assms
proof (induction sel arbitrary: rows evs rows')
  case (Cons r sel)
  let ?rows = "sql_update (is_pending (id_col r)) (leaseRow (s_now E) lease) rows"
  from Cons.prems(1) obtain evs1 where "leaseAll unmarshal s E lease sel ?rows = Inr (evs1, rows')"
    by (auto split: sum.splits option.splits)
  from Cons.IH[OF this rows_tell_update[OF Cons.prems(2) keeps_leaseRow]]
  show ?case by (simp add: pending_update keeps_leaseRow leaseRow_def)
qed simp

lemma leaseAll_events:
  assumes "leaseAll unmarshal s E lease sel rows = Inr (evs, rows')"
  shows "list_all2 (\<lambda>r ev. id_col r = ID ev \<and> subject r = Subject ev \<and>
           (\<exists>env. Envelope ev = Some env \<and> unmarshal (envelope r) = Inr env)) sel evs"
  using assms by (induction sel arbitrary: rows evs rows') (auto split: sum.splits option.splits)

lemma leaseAll_ids: "leaseAll unmarshal s E lease sel rows = Inr (evs, rows') \<Longrightarrow> map id_col sel = map ID evs"
  by (induction sel arbitrary: rows evs rows') (auto split: sum.splits option.splits)

lemma leaseAll_told:
  assumes "leaseAll unmarshal s E lease sel rows = Inr (evs, rows')"
    and "\<forall>r \<in> set sel. \<exists>ev \<in> set told. tells unmarshal r ev"
  shows "set evs \<subseteq> set told"
proof
  fix ev assume "ev \<in> set evs"
  then obtain i where i: "i < length evs" "evs ! i = ev" by (auto simp: in_set_conv_nth)
  note l = leaseAll_events[OF assms(1)]
  have r: "sel ! i \<in> set sel" using i l by (auto dest: list_all2_lengthD)
  obtain ev' where ev': "ev' \<in> set told" "tells unmarshal (sel ! i) ev'" using assms(2) r by blast
  have "ev = ev'"
    using list_all2_nthD2[OF l i(1)] i(2) ev'(2) by (cases ev; cases ev') (auto simp: tells_def)
  then show "ev \<in> set told" using ev'(1) by simp
qed

lemma Claim_rows:
  assumes "Claim unmarshal s E limit lease rows = (r, rows')" "rows_tell unmarshal told rows"
  shows "rows_tell unmarshal told rows' \<and> pending_ids rows' = pending_ids rows \<and>
     (\<forall>evs. r = Inr evs \<longrightarrow> set evs \<subseteq> set told)"
proof -
  let ?sel = "sql_select (claimable (s_now E) (s_locked E)) (\<lambda>r. (available_at r, o_created_at r)) (nat limit) rows"
  have told: "\<forall>r \<in> set ?sel. \<exists>ev \<in> set told. tells unmarshal r ev"
    using assms(2) set_sql_select[of _ _ _ rows, THEN subsetD] unfolding rows_tell_def by fastforce
  show ?thesis
  proof (cases "leaseAll unmarshal s E lease ?sel rows")
    case (Inl e)
    with assms show ?thesis by (auto simp: Claim_def split: option.splits)
  next
    case (Inr x)
    obtain evs rows2 where x: "leaseAll unmarshal s E lease ?sel rows = Inr (evs, rows2)" using Inr by (cases x) auto
    have "rows' = rows \<or> rows' = rows2" "\<forall>es. r = Inr es \<longrightarrow> es = evs"
      using assms(1) x by (cases "s_commitFate E"; auto simp: Claim_def split: option.splits)+
    then show ?thesis
      using leaseAll_rows[OF x assms(2)] leaseAll_told[OF x told] assms(2) by auto
  qed
qed

lemma DeletePublished_rows:
  assumes "DeletePublishedBefore selErr fate s before limit rows = (r, rows')"
  shows "\<exists>p. rows' = sql_delete p rows \<and> (\<forall>r. p r \<longrightarrow> published_before before r)"
proof -
  let ?p = "\<lambda>r. id_col r \<in> id_col ` set (sql_select (published_before before) oldest_published (nat limit) rows) \<and>
     published_before before r"
  have "rows' = rows \<or> rows' = sql_delete ?p rows"
    using assms unfolding DeletePublishedBefore_def Let_def
    by (cases "limit \<le> 0"; cases selErr; cases fate;
        cases "sql_select (published_before before) oldest_published (nat limit) rows = []") auto
  then show ?thesis
  proof
    assume "rows' = rows"
    then show ?thesis by (intro exI[of _ "\<lambda>r. False"]) (simp add: sql_delete_def)
  qed (intro exI[of _ ?p], simp)
qed

lemma pending_published: "published_before before r \<Longrightarrow> published_at r \<noteq> None"
  by (auto simp: published_before_def split: option.splits)

lemma MarkPublished_inv:
  assumes "sys_inv unmarshal S" "e \<in> set (in_hand S) \<and> the (Envelope e) \<in> set (sent S)"
    "MarkPublished s E e at (o_rows S) = (r, rows')"
  shows "sys_inv unmarshal (S\<lparr>o_rows := rows'\<rparr>)"
  using assms(3)
proof (rule MarkPublished_rows)
  fix f assume f: "keeps_event f" "\<And>r. published_at (f r) = Some at"
    and rows': "rows' = o_rows S \<or> rows' = sql_update (is_pending (ID e)) f (o_rows S)"
  have t: "rows_tell unmarshal (added S) rows'"
    using rows' assms(1) rows_tell_update[OF _ f(1)] by (auto simp: sys_inv_def)
  have "pending_ids (o_rows S) \<subseteq> insert (ID e) (pending_ids rows')"
    using rows' f(1) by (force simp: pending_ids_def sql_update_def is_pending_def keeps_event_def)
  moreover have "ev = e" if "ev \<in> set (added S)" "ID ev = ID e" for ev
    using that assms(1,2) by (auto simp: sys_inv_def distinct_map inj_on_def)
  ultimately have "the (Envelope ev) \<in> set (sent S) \<or> ID ev \<in> pending_ids rows'" if "ev \<in> set (added S)" for ev
    using that assms(1,2) unfolding sys_inv_def by blast
  with t assms(1) show ?thesis by (simp add: sys_inv_def)
qed

lemma AddTx_inv:
  assumes codec: "\<And>x b. marshal x = Inr b \<Longrightarrow> unmarshal b = Inr x"
    and "sys_inv unmarshal S" "AddTx marshal s insErr now True event actor (o_rows S) = (None, rows')"
    "ID event \<notin> ID ` set (added S)"
  shows "sys_inv unmarshal (S\<lparr>o_rows := rows', added := added S @ [event]\<rparr>)"
proof -
  obtain b where b: "Envelope event \<noteq> None" "marshal (the (Envelope event)) = Inr b"
      "rows' = o_rows S @ [new_row event b actor now]"
    using assms(3) by (auto simp: AddTx_def split: if_splits sum.splits option.splits)
  have n: "tells unmarshal (new_row event b actor now) event" "published_at (new_row event b actor now) = None"
    "id_col (new_row event b actor now) = ID event"
    using b codec by (auto simp: tells_def new_row_def)
  have "ID event \<notin> id_col ` set (o_rows S)"
    using assms(2,4) by (force simp: sys_inv_def rows_tell_def tells_def)
  with n assms(2) have "rows_tell unmarshal (added S @ [event]) rows'"
    unfolding sys_inv_def rows_tell_def b(3) by auto
  moreover have "pending_ids rows' = insert (ID event) (pending_ids (o_rows S))"
    using n by (auto simp: pending_ids_def b(3))
  ultimately show ?thesis using assms(2,4) by (auto simp: sys_inv_def)
qed

lemma sys_step_inv:
  assumes codec: "\<And>x b. marshal x = Inr b \<Longrightarrow> unmarshal b = Inr x"
    and "sys_step marshal unmarshal s S S'" "sys_inv unmarshal S"
  shows "sys_inv unmarshal S'"
  using assms(2,3)
proof cases
  case (sys_add insErr now event actor rows')
  then show ?thesis using AddTx_inv[OF codec assms(3)] by blast
next
  case (sys_claim E limit lease r rows')
  have "rows_tell unmarshal (added S) (o_rows S)" using assms(3) by (simp add: sys_inv_def)
  from Claim_rows[OF sys_claim(2) this] show ?thesis
    using assms(3) by (cases r) (auto simp: sys_inv_def sys_claim(1))
next
  case (sys_publish e sent')
  with assms(3) show ?thesis by (auto simp: sys_inv_def)
next
  case (sys_mark_published e E at r rows')
  then show ?thesis using MarkPublished_inv[OF assms(3)] by blast
next
  case (sys_mark_failed e E message retryAt r rows')
  then show ?thesis
    using assms(3) by (elim MarkFailed_rows) (auto simp: sys_inv_def pending_update intro: rows_tell_update)
next
  case (sys_clean selErr fate before limit r rows')
  obtain p where p: "rows' = sql_delete p (o_rows S)" "\<forall>r. p r \<longrightarrow> published_before before r"
    using DeletePublished_rows[OF sys_clean(2)] by blast
  have "pending_ids rows' = pending_ids (o_rows S)"
    using p pending_published by (force simp: pending_ids_def)
  moreover have "rows_tell unmarshal (added S) rows'"
    using assms(3) unfolding sys_inv_def rows_tell_def p(1)
    by (auto simp: sql_delete_def intro: distinct_map_filter)
  ultimately show ?thesis using assms(3) sys_clean(1) by (simp add: sys_inv_def)
qed

lemma empty_sys_inv: "sys_inv unmarshal empty_sys"
  by (simp add: sys_inv_def empty_sys_def rows_tell_def)

lemma reachable_inv:
  assumes codec: "\<And>x b. marshal x = Inr b \<Longrightarrow> unmarshal b = Inr x"
    and "(sys_step marshal unmarshal s)\<^sup>*\<^sup>* empty_sys S"
  shows "sys_inv unmarshal S"
  using assms(2) by induction (auto intro: empty_sys_inv sys_step_inv[OF codec])

text \<open>C2. No event is lost. Whatever services, dispatchers and cleaners do, in any interleaving, and
  whatever fails: the envelope of every event that was added has reached the bus, or its row is still
  in the table, unpublished, with that envelope.\<close>

theorem outbox_no_loss:
  assumes codec: "\<And>x b. marshal x = Inr b \<Longrightarrow> unmarshal b = Inr x"
    and run: "(sys_step marshal unmarshal s)\<^sup>*\<^sup>* empty_sys S" and "ev \<in> set (added S)"
  shows "the (Envelope ev) \<in> set (sent S) \<or>
    (\<exists>r \<in> set (o_rows S). published_at r = None \<and> id_col r = ID ev \<and> unmarshal (envelope r) = Inr (the (Envelope ev)))"
proof (cases "the (Envelope ev) \<in> set (sent S)")
  case False
  note inv = reachable_inv[OF codec run]
  with False assms(3) obtain r where r: "r \<in> set (o_rows S)" "published_at r = None" "id_col r = ID ev"
    by (auto simp: sys_inv_def pending_ids_def)
  moreover obtain ev' where ev': "ev' \<in> set (added S)" "tells unmarshal r ev'"
    using inv r(1) by (auto simp: sys_inv_def rows_tell_def)
  moreover from this r(3) assms(3) inv have "ev' = ev"
    by (auto simp: sys_inv_def tells_def distinct_map inj_on_def)
  ultimately show ?thesis by (auto simp: tells_def)
qed simp

text \<open>A row that says published tells the truth: its envelope has reached the bus.\<close>

theorem outbox_published_was_sent:
  assumes codec: "\<And>x b. marshal x = Inr b \<Longrightarrow> unmarshal b = Inr x"
    and run: "(sys_step marshal unmarshal s)\<^sup>*\<^sup>* empty_sys S" and "r \<in> set (o_rows S)" "published_at r \<noteq> None"
  shows "\<exists>env. unmarshal (envelope r) = Inr env \<and> env \<in> set (sent S)"
proof -
  note inv = reachable_inv[OF codec run]
  obtain ev where ev: "ev \<in> set (added S)" "tells unmarshal r ev"
    using inv assms(3) by (auto simp: sys_inv_def rows_tell_def)
  have "ID ev \<notin> pending_ids (o_rows S)"
    using inv assms(3,4) ev(2)
    by (auto simp: sys_inv_def rows_tell_def pending_ids_def tells_def distinct_map inj_on_def)
  with inv ev(1) have "the (Envelope ev) \<in> set (sent S)" unfolding sys_inv_def by blast
  with ev(2) show ?thesis by (auto simp: tells_def)
qed

section \<open>The dispatcher as part of the system\<close>

text \<open>
  The interfaces implemented: the store over the table, the publisher over the bus, each call
  meeting the next of a list of circumstances. A publication can succeed, fail, or reach the bus
  and report an error.
\<close>

datatype pub_fate = PubOk | PubErr goerr | PubLost goerr

record outbox_world =
  w_sys :: outbox_sys
  w_envs :: "store_env list"
  w_pubs :: "pub_fate list"
  w_clock :: int

definition calm_env :: "int \<Rightarrow> store_env" where
  "calm_env now = \<lparr>s_now = now, s_beginErr = None, s_auditErr = None, s_selectErr = None, s_locked = [],
     s_leaseErr = (\<lambda>_. None), s_execFate = StmtOk, s_commitFate = CommitOk\<rparr>"

definition next_env :: "outbox_world \<Rightarrow> store_env" where
  "next_env w = (case w_envs w of [] \<Rightarrow> calm_env (w_clock w) | E # _ \<Rightarrow> E)"

definition world_store :: "(string \<Rightarrow> goerr + EventEnvelope) \<Rightarrow> SQLStore_outbox \<Rightarrow> outbox_world Store" where
  "world_store unmarshal s =
     \<lparr>StClaim = (\<lambda>n l w.
        let (r, rows') = Claim unmarshal s (next_env w) n l (o_rows (w_sys w))
        in (r, w\<lparr>w_sys := (w_sys w)\<lparr>o_rows := rows',
                   in_hand := in_hand (w_sys w) @ (case r of Inl e \<Rightarrow> [] | Inr evs \<Rightarrow> evs)\<rparr>,
                 w_envs := drop 1 (w_envs w)\<rparr>)),
      StMarkPublished = (\<lambda>e t w.
        let (r, rows') = MarkPublished s (next_env w) e t (o_rows (w_sys w))
        in (r, w\<lparr>w_sys := (w_sys w)\<lparr>o_rows := rows'\<rparr>, w_envs := drop 1 (w_envs w)\<rparr>)),
      StMarkFailed = (\<lambda>e m t w.
        let (r, rows') = MarkFailed s (next_env w) e m t (o_rows (w_sys w))
        in (r, w\<lparr>w_sys := (w_sys w)\<lparr>o_rows := rows'\<rparr>, w_envs := drop 1 (w_envs w)\<rparr>))\<rparr>"

definition world_publish :: "outbox_world Publisher" where
  "world_publish subj env w =
     (let w1 = w\<lparr>w_pubs := drop 1 (w_pubs w)\<rparr>;
          w2 = w1\<lparr>w_sys := (w_sys w)\<lparr>sent := sent (w_sys w) @ [the env]\<rparr>\<rparr>
      in case (case w_pubs w of [] \<Rightarrow> PubOk | f # _ \<Rightarrow> f) of
           PubOk \<Rightarrow> (None, w2) | PubErr e \<Rightarrow> (Some e, w1) | PubLost e \<Rightarrow> (Some e, w2))"

definition world_dispatcher ::
  "(string \<Rightarrow> goerr + EventEnvelope) \<Rightarrow> SQLStore_outbox \<Rightarrow> int \<Rightarrow> int \<Rightarrow> int \<Rightarrow> outbox_world Dispatcher" where
  "world_dispatcher unmarshal s batch lease delay =
     \<lparr>dp_store = world_store unmarshal s, dp_publisher = world_publish, dp_batchSize = batch, dp_lease = lease,
      dp_retryDelay = delay, dp_now = w_clock\<rparr>"

lemma sys_step_in_hand: "sys_step marshal unmarshal s S S' \<Longrightarrow> set (in_hand S) \<subseteq> set (in_hand S')"
  by (cases rule: sys_step.cases) auto

lemma world_publish_sent:
  assumes "world_publish subj env w = (r, w')"
  shows "\<exists>sent'. w_sys w' = (w_sys w)\<lparr>sent := sent'\<rparr> \<and>
     (sent' = sent (w_sys w) \<or> sent' = sent (w_sys w) @ [the env]) \<and> (r = None \<longrightarrow> sent' = sent (w_sys w) @ [the env])"
proof (cases "case w_pubs w of [] \<Rightarrow> PubOk | f # _ \<Rightarrow> f")
  case (PubErr e)
  with assms show ?thesis by (intro exI[of _ "sent (w_sys w)"]) (auto simp: world_publish_def Let_def)
qed (use assms in \<open>intro exI[of _ "sent (w_sys w) @ [the env]"], auto simp: world_publish_def Let_def\<close>)+

interpretation dispatcher: outbox_interface "world_dispatcher unmarshal s batch lease delay"
  "\<lambda>w w'. sys_step marshal unmarshal s (w_sys w) (w_sys w')"
  "\<lambda>e w. e \<in> set (in_hand (w_sys w))"
  "\<lambda>e w. e \<in> set (in_hand (w_sys w)) \<and> the (Envelope e) \<in> set (sent (w_sys w))"
  for marshal unmarshal s batch lease delay
proof (unfold_locales, goal_cases)
  case (1 n l w r w')
  then show ?case
    by (auto simp: world_dispatcher_def world_store_def Let_def split: prod.splits intro: sys_step.sys_claim)
next
  case (2 e w r w')
  obtain sent' where w': "w_sys w' = (w_sys w)\<lparr>sent := sent'\<rparr>"
      "sent' = sent (w_sys w) \<or> sent' = sent (w_sys w) @ [the (Envelope e)]"
      "r = None \<Longrightarrow> sent' = sent (w_sys w) @ [the (Envelope e)]"
    using world_publish_sent[of "Subject e" "Envelope e" w r w'] 2(2) by (auto simp: world_dispatcher_def)
  have "sys_step marshal unmarshal s (w_sys w) ((w_sys w)\<lparr>sent := sent'\<rparr>)"
    using 2(1) w'(2) by (rule sys_step.sys_publish)
  with w' 2(1) show ?case by auto
next
  case (3 e w t r w')
  then show ?case
    by (auto simp: world_dispatcher_def world_store_def Let_def split: prod.splits intro: sys_step.sys_mark_published)
next
  case (4 e w m t r w')
  then show ?case
    by (auto simp: world_dispatcher_def world_store_def Let_def split: prod.splits intro: sys_step.sys_mark_failed)
next
  case (5 w w' e)
  then show ?case using sys_step_in_hand by blast
qed

lemma RunOnce_sys:
  "(sys_step marshal unmarshal s)\<^sup>*\<^sup>* (w_sys w)
     (w_sys (snd (RunOnce_outbox (world_dispatcher unmarshal s batch lease delay) ctxErr w)))"
proof -
  have "(\<lambda>w w'. sys_step marshal unmarshal s (w_sys w) (w_sys w'))\<^sup>*\<^sup>* w w' \<Longrightarrow>
      (sys_step marshal unmarshal s)\<^sup>*\<^sup>* (w_sys w) (w_sys w')" for w'
    by (induction rule: rtranclp_induct) auto
  then show ?thesis using dispatcher.RunOnce_run by blast
qed

text \<open>C8. A run of the dispatcher, with whatever its store and the bus answer and whenever its context
  ends, keeps a reachable system reachable: it makes only calls the system allows, so with dispatchers
  running no event is lost and every published row was sent.\<close>

theorem outbox_dispatcher_refines:
  assumes "(sys_step marshal unmarshal s)\<^sup>*\<^sup>* empty_sys (w_sys w)"
  shows "(sys_step marshal unmarshal s)\<^sup>*\<^sup>* empty_sys
     (w_sys (snd (RunOnce_outbox (world_dispatcher unmarshal s batch lease delay) ctxErr w)))"
  using assms RunOnce_sys by (rule rtranclp_trans)

section \<open>Leases\<close>

text \<open>No dispatcher may claim the event before the time given, unless it is published.\<close>

definition leased_until :: "string \<Rightarrow> int \<Rightarrow> outbox_row list \<Rightarrow> bool" where
  "leased_until i t rows \<longleftrightarrow> (\<forall>r \<in> set rows. id_col r = i \<longrightarrow> published_at r \<noteq> None \<or> t \<le> available_at r)"

lemma leased_update:
  assumes "leased_until i t rows" "\<And>r. id_col (f r) = id_col r"
    "\<And>r. r \<in> set rows \<Longrightarrow> p r \<Longrightarrow> id_col r = i \<Longrightarrow> published_at (f r) \<noteq> None \<or> t \<le> available_at (f r)"
  shows "leased_until i t (sql_update p f rows)"
proof -
  have "published_at (if p r then f r else r) \<noteq> None \<or> t \<le> available_at (if p r then f r else r)"
    if "r \<in> set rows" "id_col (if p r then f r else r) = i" for r
    using that assms(2) assms(3)[of r] assms(1) by (cases "p r") (auto simp: leased_until_def)
  then show ?thesis unfolding leased_until_def sql_update_def set_map by blast
qed

lemma leaseAll_keeps:
  assumes "leaseAll unmarshal s E lease sel rows = Inr (evs, rows')" "leased_until i t rows"
    "t \<le> s_now E + lease \<or> i \<notin> id_col ` set sel"
  shows "leased_until i t rows'"
  using assms
proof (induction sel arbitrary: rows evs rows')
  case (Cons r sel)
  let ?rows = "sql_update (is_pending (id_col r)) (leaseRow (s_now E) lease) rows"
  from Cons.prems(1) obtain evs1 where "leaseAll unmarshal s E lease sel ?rows = Inr (evs1, rows')"
    by (auto split: sum.splits option.splits)
  moreover have "leased_until i t ?rows"
    using Cons.prems(2,3) by (intro leased_update) (auto simp: leaseRow_def is_pending_def)
  moreover have "t \<le> s_now E + lease \<or> i \<notin> id_col ` set sel" using Cons.prems(3) by auto
  ultimately show ?case by (rule Cons.IH)
qed simp

lemma leaseAll_leases:
  assumes "leaseAll unmarshal s E lease sel rows = Inr (evs, rows')" "i \<in> id_col ` set sel"
  shows "leased_until i (s_now E + lease) rows'"
  using assms
proof (induction sel arbitrary: rows evs rows')
  case (Cons r sel)
  let ?rows = "sql_update (is_pending (id_col r)) (leaseRow (s_now E) lease) rows"
  from Cons.prems(1) obtain evs1 where l: "leaseAll unmarshal s E lease sel ?rows = Inr (evs1, rows')"
    by (auto split: sum.splits option.splits)
  show ?case
  proof (cases "i = id_col r")
    case True
    then have "leased_until i (s_now E + lease) ?rows"
      by (auto simp: leased_until_def sql_update_def is_pending_def leaseRow_def)
    from leaseAll_keeps[OF l this] show ?thesis by simp
  next
    case False
    with Cons.prems(2) Cons.IH[OF l] show ?thesis by auto
  qed
qed simp

text \<open>The claim of the transaction, seen from outside.\<close>

lemma Claim_cases:
  assumes "Claim unmarshal s E limit lease rows = (r, rows')"
  obtains (unchanged) "rows' = rows" "\<And>evs. r \<noteq> Inr evs"
  | (leased) evs where "leaseAll unmarshal s E lease
      (sql_select (claimable (s_now E) (s_locked E)) (\<lambda>r. (available_at r, o_created_at r)) (nat limit) rows) rows =
        Inr (evs, rows')" "\<And>es. r = Inr es \<Longrightarrow> es = evs"
proof (cases "\<exists>x. s_beginErr E = None \<and> setWorkerAuditActor s E = None \<and> s_selectErr E = None \<and>
    leaseAll unmarshal s E lease
      (sql_select (claimable (s_now E) (s_locked E)) (\<lambda>r. (available_at r, o_created_at r)) (nat limit) rows) rows = Inr x")
  case False
  then show ?thesis
    using assms by (intro unchanged) (auto simp: Claim_def split: option.splits sum.splits)
next
  case True
  then obtain evs rows2 where x: "s_beginErr E = None" "setWorkerAuditActor s E = None" "s_selectErr E = None"
    "leaseAll unmarshal s E lease
      (sql_select (claimable (s_now E) (s_locked E)) (\<lambda>r. (available_at r, o_created_at r)) (nat limit) rows) rows =
        Inr (evs, rows2)" by auto
  show ?thesis
  proof (cases "s_commitFate E")
    case (CommitLost e)
    with assms x show ?thesis by (intro unchanged) (auto simp: Claim_def)
  qed (use assms x in \<open>(intro leased[of evs], auto simp: Claim_def)\<close>)+
qed

lemma Claim_ids:
  assumes "Claim unmarshal s E limit lease rows = (Inr evs, rows')"
  shows "ID ` set evs \<subseteq> id_col ` {r \<in> set rows. claimable (s_now E) (s_locked E) r} \<and>
    (\<forall>ev \<in> set evs. leased_until (ID ev) (s_now E + lease) rows')"
  using assms
proof (cases rule: Claim_cases)
  case (leased evs')
  let ?sel = "sql_select (claimable (s_now E) (s_locked E)) (\<lambda>r. (available_at r, o_created_at r)) (nat limit) rows"
  have evs: "evs' = evs" using leased(2)[OF refl] by simp
  have "map id_col ?sel = map ID evs" using leaseAll_ids[OF leased(1)] evs by simp
  then have ids: "ID ` set evs = id_col ` set ?sel" by (metis list.set_map)
  moreover have "set ?sel \<subseteq> {r \<in> set rows. claimable (s_now E) (s_locked E) r}" by (rule set_sql_select)
  ultimately show ?thesis using leaseAll_leases[OF leased(1)] by auto
qed blast

datatype outbox_op =
    OpAdd "goerr option" int Event string
  | OpClaim store_env int int
  | OpPublished store_env Event int
  | OpFailed store_env Event string int
  | OpClean "goerr option" stmt_fate int int

fun exec_op ::
  "(EventEnvelope \<Rightarrow> goerr + string) \<Rightarrow> (string \<Rightarrow> goerr + EventEnvelope) \<Rightarrow> SQLStore_outbox \<Rightarrow> outbox_op \<Rightarrow>
   outbox_row list \<Rightarrow> outbox_row list" where
  "exec_op m u s (OpAdd insErr now ev actor) rows = snd (AddTx m s insErr now True ev actor rows)"
| "exec_op m u s (OpClaim E n l) rows = snd (Claim u s E n l rows)"
| "exec_op m u s (OpPublished E ev t) rows = snd (MarkPublished s E ev t rows)"
| "exec_op m u s (OpFailed E ev msg t) rows = snd (MarkFailed s E ev msg t rows)"
| "exec_op m u s (OpClean selErr fate before limit) rows = snd (DeletePublishedBefore selErr fate s before limit rows)"

text \<open>Only recording a failure with an earlier retry time gives a leased event back before its time.\<close>

fun gives_back :: "string \<Rightarrow> int \<Rightarrow> outbox_op \<Rightarrow> bool" where
  "gives_back i t (OpFailed E ev msg retryAt) \<longleftrightarrow> ID ev = i \<and> retryAt < t"
| "gives_back i t (OpAdd insErr now ev actor) \<longleftrightarrow> ID ev = i"
| "gives_back i t (OpClaim E n l) \<longleftrightarrow> l < 0"
| "gives_back i t op \<longleftrightarrow> False"

lemma exec_op_leased:
  assumes "leased_until i t rows" "\<not> gives_back i t op"
  shows "leased_until i t (exec_op m u s op rows)"
proof (cases op)
  case (OpAdd insErr now ev actor)
  with assms show ?thesis
    by (auto simp: AddTx_def leased_until_def new_row_def split: sum.splits option.splits)
next
  case (OpClaim E n l)
  obtain r rows' where c: "Claim u s E n l rows = (r, rows')" by fastforce
  then have "leased_until i t rows'"
  proof (cases rule: Claim_cases)
    case (leased evs)
    have "t \<le> s_now E + l" if "x \<in> set rows" "claimable (s_now E) (s_locked E) x" "id_col x = i" for x
      using that assms OpClaim by (auto simp: leased_until_def claimable_def)
    then show ?thesis
      using leaseAll_keeps[OF leased(1) assms(1)] set_sql_select[of _ _ _ rows, THEN subsetD] by fastforce
  qed (use assms in simp)
  with c OpClaim show ?thesis by simp
next
  case (OpPublished E ev at)
  obtain r rows' where c: "MarkPublished s E ev at rows = (r, rows')" by fastforce
  then have "leased_until i t rows'"
    by (rule MarkPublished_rows) (use assms(1) in \<open>auto simp: keeps_event_def intro: leased_update\<close>)
  with c OpPublished show ?thesis by simp
next
  case (OpFailed E ev msg at)
  obtain r rows' where c: "MarkFailed s E ev msg at rows = (r, rows')" by fastforce
  then have "leased_until i t rows'"
    by (rule MarkFailed_rows)
      (use assms OpFailed in \<open>auto simp: keeps_event_def is_pending_def intro!: leased_update\<close>)
  with c OpFailed show ?thesis by simp
next
  case (OpClean selErr fate before limit)
  obtain r rows' where c: "DeletePublishedBefore selErr fate s before limit rows = (r, rows')" by fastforce
  then have "leased_until i t rows'" using DeletePublished_rows[OF c] assms(1) by (auto simp: leased_until_def)
  with c OpClean show ?thesis by simp
qed

text \<open>C7. A claimed event is leased: until the lease ends, no claim returns it, whatever other calls come
  between and fail, unless a failure of this event is recorded with an earlier retry time.\<close>

theorem outbox_lease_exclusive:
  assumes "Claim u s E n l rows = (Inr evs, rows1)" "ev \<in> set evs"
    and "\<forall>op \<in> set ops. \<not> gives_back (ID ev) (s_now E + l) op"
    and "Claim u s E2 n2 l2 (fold (exec_op m u s) ops rows1) = (Inr evs2, rows2)" "s_now E2 < s_now E + l"
  shows "ID ev \<notin> ID ` set evs2"
proof -
  have "leased_until (ID ev) (s_now E + l) rows1" using Claim_ids[OF assms(1)] assms(2) by blast
  then have l: "leased_until (ID ev) (s_now E + l) (fold (exec_op m u s) ops rows1)"
    using assms(3) by (induction ops arbitrary: rows1) (auto simp: exec_op_leased)
  show ?thesis
  proof
    assume "ID ev \<in> ID ` set evs2"
    then obtain r where "r \<in> set (fold (exec_op m u s) ops rows1)" "id_col r = ID ev" "claimable (s_now E2) (s_locked E2) r"
      using Claim_ids[OF assms(4)] by auto
    with l assms(5) show False by (auto simp: leased_until_def claimable_def)
  qed
qed

section \<open>Failures do not hold up other events\<close>

definition settle :: "int \<Rightarrow> int \<Rightarrow> pub_fate \<Rightarrow> outbox_row \<Rightarrow> outbox_row" where
  "settle now delay f r =
     (case f of
        PubOk \<Rightarrow> r\<lparr>published_at := Some now, o_version := o_version r + 1, o_updated_at := now,
                    o_updated_by := ''outbox-dispatcher'', o_last_error := []\<rparr>
      | PubErr e \<Rightarrow> r\<lparr>available_at := now + delay, o_last_error := take 4096 (err_text e),
                      o_version := o_version r + 1, o_updated_at := now, o_updated_by := ''outbox-dispatcher''\<rparr>
      | PubLost e \<Rightarrow> r\<lparr>available_at := now + delay, o_last_error := take 4096 (err_text e),
                       o_version := o_version r + 1, o_updated_at := now, o_updated_by := ''outbox-dispatcher''\<rparr>)"

definition settle_all :: "int \<Rightarrow> int \<Rightarrow> (string \<times> pub_fate) list \<Rightarrow> outbox_row list \<Rightarrow> outbox_row list" where
  "settle_all now delay fates rows =
     map (\<lambda>r. case map_of fates (id_col r) of
                None \<Rightarrow> r
              | Some f \<Rightarrow> if published_at r = None then settle now delay f r else r) rows"

lemma settle_all_Cons:
  assumes "i \<notin> fst ` set fates"
  shows "settle_all now delay fates (sql_update (is_pending i) (settle now delay f) rows) =
         settle_all now delay ((i, f) # fates) rows"
proof -
  have "map_of fates i = None" using assms by (simp add: map_of_eq_None_iff)
  moreover have "id_col (settle now delay f r) = id_col r" for r by (cases f) (simp_all add: settle_def)
  ultimately show ?thesis
    by (auto simp: settle_all_def sql_update_def is_pending_def)
qed

lemma calm_update:
  "execWorkerUpdate s (calm_env now) p f rows = (Inr (Inr (sql_affected p rows)), sql_update p f rows)"
  by (simp add: execWorkerUpdate_def calm_env_def setWorkerAuditActor_def Let_def)

lemma calm_MarkPublished:
  assumes "sql_affected (is_pending (ID ev)) rows = 1"
  shows "MarkPublished s (calm_env now) ev now rows = (None, sql_update (is_pending (ID ev)) (settle now delay PubOk) rows)"
  using assms by (simp add: MarkPublished_def calm_update affected_def settle_def[abs_def])

lemma calm_MarkFailed:
  assumes "sql_affected (is_pending (ID ev)) rows = 1"
  shows "MarkFailed s (calm_env now) ev (err_text e) (now + delay) rows =
           (None, sql_update (is_pending (ID ev)) (settle now delay (PubErr e)) rows)"
  using assms by (simp add: MarkFailed_def calm_update affected_def settle_def[abs_def] calm_env_def[of now, THEN arg_cong[where f = s_now]])

lemma world_dispatcher_simps [simp]:
  "dp_store (world_dispatcher u s b l d) = world_store u s" "dp_publisher (world_dispatcher u s b l d) = world_publish"
  "dp_batchSize (world_dispatcher u s b l d) = b" "dp_lease (world_dispatcher u s b l d) = l"
  "dp_retryDelay (world_dispatcher u s b l d) = d" "dp_now (world_dispatcher u s b l d) = w_clock"
  by (simp_all add: world_dispatcher_def)

text \<open>Publishing and settling one event in a calm world, where its row is pending.\<close>

definition settled_world :: "int \<Rightarrow> Event \<Rightarrow> pub_fate \<Rightarrow> pub_fate list \<Rightarrow> outbox_world \<Rightarrow> outbox_world" where
  "settled_world delay ev f fs w =
     w\<lparr>w_pubs := fs,
       w_sys := (case f of PubErr e \<Rightarrow> w_sys w
                 | _ \<Rightarrow> (w_sys w)\<lparr>sent := sent (w_sys w) @ [the (Envelope ev)]\<rparr>)
                \<lparr>o_rows := sql_update (is_pending (ID ev)) (settle (w_clock w) delay f) (o_rows (w_sys w))\<rparr>,
       w_envs := []\<rparr>"

lemma settle_PubLost: "settle now delay (PubLost e) = settle now delay (PubErr e)"
  by (simp add: settle_def[abs_def])

lemma settle_one:
  assumes "w_envs w = []" "sql_affected (is_pending (ID ev)) (o_rows (w_sys w)) = 1" "w_pubs w = f # fs"
    and d: "d = world_dispatcher unmarshal s batch lease delay"
  shows "dispatchAll d (\<lambda>_. None) (ev # evs) n errs w =
       (case f of
          PubOk \<Rightarrow> dispatchAll d (\<lambda>_. None) evs (n + 1) errs (settled_world delay ev f fs w)
        | PubErr e \<Rightarrow> dispatchAll d (\<lambda>_. None) evs n
                        (errs @ [Wrap (''publish event '' @ quoted (ID ev)) e]) (settled_world delay ev f fs w)
        | PubLost e \<Rightarrow> dispatchAll d (\<lambda>_. None) evs n
                        (errs @ [Wrap (''publish event '' @ quoted (ID ev)) e]) (settled_world delay ev f fs w))"
proof -
  let ?w1 = "w\<lparr>w_pubs := fs\<rparr>"
  let ?w2 = "w\<lparr>w_pubs := fs, w_sys := (w_sys w)\<lparr>sent := sent (w_sys w) @ [the (Envelope ev)]\<rparr>\<rparr>"
  have pub: "world_publish (Subject ev) (Envelope ev) w =
      (case f of PubOk \<Rightarrow> (None, ?w2) | PubErr e \<Rightarrow> (Some e, ?w1) | PubLost e \<Rightarrow> (Some e, ?w2))"
    using assms(3) by (simp add: world_publish_def Let_def split: pub_fate.splits)
  have n: "next_env ?w1 = calm_env (w_clock w)" "next_env ?w2 = calm_env (w_clock w)"
    using assms(1) by (simp_all add: next_env_def)
  note marks = calm_MarkPublished[OF assms(2), where delay = delay] calm_MarkFailed[OF assms(2)]
  show ?thesis
    using assms(1) pub n marks
    by (cases f) (simp_all add: d world_store_def settled_world_def settle_PubLost)
qed

lemma pending_other:
  assumes "i \<noteq> j" "keeps_event f"
  shows "sql_affected (is_pending i) (sql_update (is_pending j) f rows) = sql_affected (is_pending i) rows"
  using assms by (induction rows) (auto simp: sql_affected_def sql_update_def is_pending_def keeps_event_def)

lemma keeps_settle: "keeps_event (settle now delay f)"
  by (cases f) (simp_all add: keeps_event_def settle_def)

lemma dispatch_calm:
  assumes "w_envs w = []" "length evs \<le> length (w_pubs w)" "distinct (map ID evs)"
    "\<forall>ev \<in> set evs. sql_affected (is_pending (ID ev)) (o_rows (w_sys w)) = 1"
  shows "\<exists>err w'. dispatchAll (world_dispatcher unmarshal s batch lease delay) (\<lambda>_. None) evs n errs w =
      ((n + int (length (filter (\<lambda>f. f = PubOk) (take (length evs) (w_pubs w)))), err), w') \<and>
    o_rows (w_sys w') = settle_all (w_clock w) delay (zip (map ID evs) (w_pubs w)) (o_rows (w_sys w)) \<and>
    (err = None \<longleftrightarrow> errs = [] \<and> (\<forall>f \<in> set (take (length evs) (w_pubs w)). f = PubOk))"
  using assms
proof (induction evs arbitrary: w n errs)
  case Nil
  then show ?case by (simp add: settle_all_def)
next
  case (Cons ev evs)
  obtain f fs where fs: "w_pubs w = f # fs" using Cons.prems(2) by (cases "w_pubs w") auto
  have one: "sql_affected (is_pending (ID ev)) (o_rows (w_sys w)) = 1" using Cons.prems(4) by simp
  let ?w2 = "settled_world delay ev f fs w"
  have w2: "w_envs ?w2 = []" "w_clock ?w2 = w_clock w" "w_pubs ?w2 = fs"
    "o_rows (w_sys ?w2) = sql_update (is_pending (ID ev)) (settle (w_clock w) delay f) (o_rows (w_sys w))"
    by (simp_all add: settled_world_def)
  have "\<forall>x \<in> set evs. sql_affected (is_pending (ID x)) (o_rows (w_sys ?w2)) = 1"
  proof
    fix x assume x: "x \<in> set evs"
    have "ID ev \<notin> ID ` set evs" using Cons.prems(3) by simp
    with x have "ID x \<noteq> ID ev" by (metis imageI)
    moreover have "sql_affected (is_pending (ID x)) (o_rows (w_sys w)) = 1" using x Cons.prems(4) by simp
    ultimately show "sql_affected (is_pending (ID x)) (o_rows (w_sys ?w2)) = 1"
      unfolding w2(4) by (simp add: pending_other[OF _ keeps_settle])
  qed
  note ih = Cons.IH[OF w2(1) _ _ this]
  have "ID ev \<notin> fst ` set (zip (map ID evs) fs)" using Cons.prems(3) by (auto dest: set_zip_leftD)
  from settle_all_Cons[OF this, of "w_clock w" delay f "o_rows (w_sys w)"]
  show ?case
    using settle_one[OF Cons.prems(1) one fs refl, of unmarshal s batch lease delay evs n errs]
      ih[of "n + 1" errs] ih[of n "errs @ [Wrap (''publish event '' @ quoted (ID ev)) e]" for e]
      Cons.prems(2,3) fs w2(2-4)
    by (cases f) (auto simp: add.assoc)
qed

lemma leaseAll_kept:
  assumes "leaseAll unmarshal s E lease sel rows = Inr (evs, rows')"
  shows "map id_col rows' = map id_col rows \<and> pending_ids rows' = pending_ids rows"
  using assms
proof (induction sel arbitrary: rows evs rows')
  case (Cons r sel)
  let ?rows = "sql_update (is_pending (id_col r)) (leaseRow (s_now E) lease) rows"
  from Cons.prems(1) obtain evs1 where "leaseAll unmarshal s E lease sel ?rows = Inr (evs1, rows')"
    by (auto split: sum.splits option.splits)
  moreover have "map id_col ?rows = map id_col rows" by (rule sql_update_keys) (simp add: leaseRow_def)
  moreover have "pending_ids ?rows = pending_ids rows" by (simp add: pending_update keeps_leaseRow leaseRow_def)
  ultimately show ?case using Cons.IH by metis
qed simp

lemma one_pending:
  assumes "distinct (map id_col rows)" "i \<in> pending_ids rows"
  shows "sql_affected (is_pending i) rows = 1"
proof -
  obtain r where r: "r \<in> set rows" "id_col r = i" "published_at r = None" using assms(2) by (auto simp: pending_ids_def)
  have "filter (is_pending i) rows = filter (\<lambda>x. id_col x = i) rows"
    using r assms(1) by (intro filter_cong refl) (auto simp: is_pending_def distinct_map inj_on_def)
  then show ?thesis
    using sql_affected_key[OF assms(1), of i] r by (auto simp: sql_affected_def)
qed

text \<open>C12. Failed publications do not hold up other events. In one run of the dispatcher in which every store
  call succeeds (the database raises no fault) and the context does not end, and in which any of the
  publications may fail, each claimed event is settled by its own publication: published ones are marked,
  failed ones stay pending with the error and the retry time, every other row is as the claim left it; the
  count is the number of publications that succeeded and the error is nil exactly when all did.\<close>

theorem outbox_failures_isolated:
  assumes "distinct (map id_col (o_rows (w_sys w)))" "w_envs w = []"
    and "Claim unmarshal s (calm_env (w_clock w)) batch lease (o_rows (w_sys w)) = (Inr evs, rows1)"
    and "length evs \<le> length (w_pubs w)"
  shows "\<exists>err w'. RunOnce_outbox (world_dispatcher unmarshal s batch lease delay) (\<lambda>_. None) w =
      ((int (length (filter (\<lambda>f. f = PubOk) (take (length evs) (w_pubs w)))), err), w') \<and>
    o_rows (w_sys w') = settle_all (w_clock w) delay (zip (map ID evs) (w_pubs w)) rows1 \<and>
    (err = None \<longleftrightarrow> (\<forall>f \<in> set (take (length evs) (w_pubs w)). f = PubOk))"
  using assms(3)
proof (cases rule: Claim_cases)
  case (leased evs')
  let ?sel = "sql_select (claimable (s_now (calm_env (w_clock w))) (s_locked (calm_env (w_clock w))))
      (\<lambda>r. (available_at r, o_created_at r)) (nat batch) (o_rows (w_sys w))"
  have evs: "evs' = evs" using leased(2)[OF refl] by simp
  note l = leased(1)[unfolded evs]
  define w1 where "w1 = w\<lparr>w_sys := (w_sys w)\<lparr>o_rows := rows1, in_hand := in_hand (w_sys w) @ evs\<rparr>\<rparr>"
  have w1: "w_envs w1 = []" "w_pubs w1 = w_pubs w" "w_clock w1 = w_clock w" "o_rows (w_sys w1) = rows1"
    by (simp_all add: w1_def assms(2))
  have "distinct (map ID evs)"
    using sql_select_distinct[OF assms(1)] leaseAll_ids[OF l] by metis
  moreover have "\<forall>ev \<in> set evs. sql_affected (is_pending (ID ev)) rows1 = 1"
  proof
    fix ev assume "ev \<in> set evs"
    then have "ID ev \<in> pending_ids (o_rows (w_sys w))"
      using Claim_ids[OF assms(3)] by (force simp: pending_ids_def claimable_def)
    then show "sql_affected (is_pending (ID ev)) rows1 = 1"
      using leaseAll_kept[OF l] assms(1) by (intro one_pending) auto
  qed
  ultimately obtain err w' where d: "dispatchAll (world_dispatcher unmarshal s batch lease delay) (\<lambda>_. None) evs 0 [] w1 =
      ((0 + int (length (filter (\<lambda>f. f = PubOk) (take (length evs) (w_pubs w1)))), err), w')"
    "o_rows (w_sys w') = settle_all (w_clock w1) delay (zip (map ID evs) (w_pubs w1)) (o_rows (w_sys w1))"
    "err = None \<longleftrightarrow> [] = ([] :: goerr list) \<and> (\<forall>f \<in> set (take (length evs) (w_pubs w1)). f = PubOk)"
    using dispatch_calm[of w1 evs unmarshal s batch lease delay 0 "[]"] assms(4) w1 by auto
  moreover have "StClaim (world_store unmarshal s) batch lease w = (Inr evs, w1)"
    using assms(2,3) by (simp add: world_store_def next_env_def w1_def)
  ultimately show ?thesis by (auto simp: RunOnce_outbox_def w1)
qed blast

section \<open>Retention\<close>

type_synonym outbox_faults = "(goerr option \<times> stmt_fate) list"

definition outbox_batch :: "SQLStore_outbox \<Rightarrow> (outbox_faults \<times> outbox_row list) batch_delete" where
  "outbox_batch s before limit st =
     (let (sel, fate) = (case fst st of [] \<Rightarrow> (None, StmtOk) | x # _ \<Rightarrow> x);
          (res, rows') = DeletePublishedBefore sel fate s before limit (snd st)
      in (res, (drop 1 (fst st), rows')))"

definition NewRetentionCleaner_outbox ::
  "(outbox_faults \<times> outbox_row list) batch_delete option \<Rightarrow> RetentionConfig \<Rightarrow>
   goerr + (outbox_faults \<times> outbox_row list) RetentionCleaner" where
  "NewRetentionCleaner_outbox st config =
     NewRetentionCleaner ''published outbox store, retention, and batch size are required'' st config"

lemma DeletePublished_ok:
  assumes "distinct (map id_col rows)" "0 < limit" "DeletePublishedBefore sel fate s before limit rows = ((n, None), rows')"
  shows "n = min limit (int (sql_affected (published_before before) rows)) \<and>
    int (sql_affected (published_before before) rows') = int (sql_affected (published_before before) rows) - n"
proof -
  let ?p = "published_before before"
  let ?sel = "sql_select ?p oldest_published (nat limit) rows"
  let ?q = "\<lambda>r. id_col r \<in> id_col ` set ?sel \<and> ?p r"
  have l: "length ?sel = min (nat limit) (sql_affected ?p rows)" by (rule length_sql_select)
  show ?thesis
  proof (cases "?sel = []")
    case True
    then have "n = 0" "rows' = rows"
      using assms(2,3) by (auto simp: DeletePublishedBefore_def Let_def split: option.splits)
    with l True assms(2) show ?thesis by (simp add: min_def split: if_splits)
  next
    case False
    then have r: "n = int (sql_affected ?q rows)" "rows' = sql_delete ?q rows"
      using assms(2,3)
      by (auto simp: DeletePublishedBefore_def Let_def split: option.splits stmt_fate.splits)
    have "sql_affected ?p (sql_delete ?q rows) = sql_affected ?p rows - sql_affected ?q rows"
      by (rule sql_affected_delete_sub) auto
    moreover have "sql_affected ?q rows = length ?sel" by (rule sql_affected_selected[OF assms(1)])
    ultimately show ?thesis using r l assms(2) by (auto simp: min_def)
  qed
qed

interpretation outbox_cleanup: bounded_cleanup "outbox_batch q"
  "\<lambda>cutoff st. sql_affected (published_before cutoff) (snd st)"
  "\<lambda>cutoff st. distinct (map id_col (snd st)) \<and> sql_delete (published_before cutoff) (snd st) = keep" for q keep
proof (unfold_locales, goal_cases)
  case (1 batch cutoff st n st')
  obtain sel fate where "DeletePublishedBefore sel fate q cutoff batch (snd st) = ((n, None), snd st')"
    using 1(3) by (auto simp: outbox_batch_def Let_def split: prod.splits list.splits)
  from DeletePublished_ok[OF _ 1(1) this] 1(2) show ?case by blast
next
  case (2 cutoff st batch)
  obtain sel fate where "(case fst st of [] \<Rightarrow> (None, StmtOk) | x # _ \<Rightarrow> x) = (sel, fate)" by fastforce
  then have "DeletePublishedBefore sel fate q cutoff batch (snd st) =
      (fst (DeletePublishedBefore sel fate q cutoff batch (snd st)), snd (snd (outbox_batch q cutoff batch st)))"
    by (auto simp: outbox_batch_def Let_def split: prod.splits)
  from DeletePublished_rows[OF this] obtain p where
    p: "snd (snd (outbox_batch q cutoff batch st)) = sql_delete p (snd st)" "\<forall>r. p r \<longrightarrow> published_before cutoff r" by blast
  have "sql_delete (published_before cutoff) (sql_delete p (snd st)) = sql_delete (published_before cutoff) (snd st)"
    using p(2) by (auto simp: sql_delete_def intro!: filter_cong)
  with 2 show ?case unfolding p(1) by (auto simp: sql_delete_def intro: distinct_map_filter)
qed

text \<open>C14. A cleanup of the outbox always returns. It never removes a pending or failed event, nor a
  published one younger than the retention period; without an error it has removed exactly the older
  published ones and returns their number.\<close>

theorem outbox_retention_drains:
  assumes "NewRetentionCleaner_outbox (Some (outbox_batch s)) config = Inr c" and "distinct (map id_col rows)"
  shows "\<exists>t e faults' rows'. RunOnce_retention c now (faults, rows) = Some ((t, e), (faults', rows')) \<and>
    sql_delete (published_before (now - Retention config)) rows' = sql_delete (published_before (now - Retention config)) rows \<and>
    (e = None \<longrightarrow> rows' = sql_delete (published_before (now - Retention config)) rows \<and>
       t = int (sql_affected (published_before (now - Retention config)) rows))"
proof -
  let ?p = "published_before (now - Retention config)"
  have c: "store c = outbox_batch s" "retention c = Retention config" "0 < batchSize c"
    using assms(1) by (auto simp: NewRetentionCleaner_outbox_def NewRetentionCleaner_def split: if_splits)
  obtain t e faults' rows' where r: "RunOnce_retention c now (faults, rows) = Some ((t, e), (faults', rows'))"
      "sql_delete ?p rows' = sql_delete ?p rows"
      "e = None \<Longrightarrow> t = int (sql_affected ?p rows) \<and> sql_affected ?p rows' = 0"
    using outbox_cleanup.drain_result[OF c(3), where s = "(faults, rows)" and cutoff = "now - Retention config"
        and acc = 0 and keep = "sql_delete ?p rows" and q = s] assms(2)
    by (auto simp: RunOnce_retention_def c)
  have "sql_delete ?p rows' = rows'" if "sql_affected ?p rows' = 0"
    using that by (auto simp: sql_affected_def sql_delete_def filter_empty_conv)
  with r show ?thesis by auto
qed

section \<open>The text of a failure\<close>

lemma valid_ascii_prefix: "valid_utf8 (replicate n (CHR ''a'') @ t) \<longleftrightarrow> valid_utf8 t"
proof (induction n)
  case (Suc n)
  then show ?case by (simp add: valid_utf8_step utf8_width_def rune_need_def Let_def)
qed simp

lemma invalid_lone_byte: "\<not> valid_utf8 [CHR 0xC3]"
  by code_simp

definition long_message :: string where
  "long_message = replicate 4095 (CHR ''a'') @ [CHR 0xC3, CHR 0xA9]"

text \<open>A failure's text is cut after 4096 bytes wherever that falls. A valid UTF-8 text whose 4096th byte
  starts a two-byte character is stored as text that is not valid UTF-8, unlike the inbox, which moves
  the cut back to a character boundary.\<close>

theorem outbox_failure_text_cut:
  assumes "sql_affected (is_pending (ID ev)) rows = 1"
  shows "valid_utf8 long_message \<and>
    (\<exists>r \<in> set (snd (MarkFailed s (calm_env now) ev long_message t rows)). id_col r = ID ev \<and> \<not> valid_utf8 (o_last_error r))"
proof
  have "valid_utf8 [CHR 0xC3, CHR 0xA9]" by code_simp
  then show "valid_utf8 long_message" by (simp add: long_message_def valid_ascii_prefix)
  have cut: "take 4096 long_message = replicate 4095 (CHR ''a'') @ [CHR 0xC3]" "4096 < length long_message"
    by (simp_all add: long_message_def take_Cons')
  have "filter (is_pending (ID ev)) rows \<noteq> []" using assms by (auto simp: sql_affected_def)
  then obtain r where "r \<in> set rows" "is_pending (ID ev) r" by (auto simp: filter_empty_conv)
  then show "\<exists>r \<in> set (snd (MarkFailed s (calm_env now) ev long_message t rows)). id_col r = ID ev \<and> \<not> valid_utf8 (o_last_error r)"
    using cut valid_ascii_prefix[of 4095 "[CHR 0xC3]"] invalid_lone_byte
    by (simp add: MarkFailed_def calm_update sql_update_def is_pending_def bex_Un) blast
qed

section \<open>An example\<close>

text \<open>An encoding for the examples: the envelope's id.\<close>

definition demo_marshal :: "EventEnvelope \<Rightarrow> goerr + string" where
  "demo_marshal e = (if e = \<lparr>EventId = EventId e, EventType = ''t'', AggregateId = ''a'', AggregateType = ''b'', TenantId = [],
     ApplicationId = [], SchemaVersion = 1, OccurredAt = 0, env_Context = None, env_Payload = []\<rparr>
     then Inr (EventId e) else Inl (Msg ''unsupported''))"

definition demo_envelope :: "string \<Rightarrow> EventEnvelope" where
  "demo_envelope i = \<lparr>EventId = i, EventType = ''t'', AggregateId = ''a'', AggregateType = ''b'', TenantId = [],
     ApplicationId = [], SchemaVersion = 1, OccurredAt = 0, env_Context = None, env_Payload = []\<rparr>"

definition demo_unmarshal :: "string \<Rightarrow> goerr + EventEnvelope" where
  "demo_unmarshal b = Inr (demo_envelope b)"

lemma demo_codec: "demo_marshal x = Inr b \<Longrightarrow> demo_unmarshal b = Inr x"
  by (auto simp: demo_marshal_def demo_unmarshal_def demo_envelope_def split: if_splits)

definition demo_store :: SQLStore_outbox where
  "demo_store = \<lparr>table_outbox = ''outbox'', workerActor = [], driver = ''pgx''\<rparr>"

definition demo_outbox_event :: "string \<Rightarrow> Event" where
  "demo_outbox_event i = \<lparr>ID = i, Subject = ''t'', Envelope = Some (demo_envelope i)\<rparr>"

definition demo_outbox_row :: "string \<Rightarrow> int \<Rightarrow> outbox_row" where
  "demo_outbox_row i t = new_row (demo_outbox_event i) i ''svc'' t"

definition demo_world :: outbox_world where
  "demo_world = \<lparr>w_sys = empty_sys\<lparr>o_rows := [demo_outbox_row ''e1'' 1, demo_outbox_row ''e2'' 2]\<rparr>,
     w_envs = [], w_pubs = [PubErr (Msg ''down''), PubOk], w_clock = 10\<rparr>"

lemma demo_added:
  "sys_step demo_marshal demo_unmarshal demo_store empty_sys
     (empty_sys\<lparr>o_rows := [demo_outbox_row ''e1'' 1], added := [demo_outbox_event ''e1'']\<rparr>)"
proof -
  have "AddTx demo_marshal demo_store None 1 True (demo_outbox_event ''e1'') ''svc'' (o_rows empty_sys) =
      (None, [demo_outbox_row ''e1'' 1])"
    by (simp add: AddTx_def demo_outbox_event_def demo_envelope_def demo_marshal_def demo_outbox_row_def empty_sys_def)
  from sys_step.sys_add[OF this] show ?thesis by (simp add: empty_sys_def)
qed

lemma demo_published:
  "(sys_step demo_marshal demo_unmarshal demo_store)\<^sup>*\<^sup>* empty_sys
     \<lparr>o_rows = [settle 10 5 PubOk (leaseRow 10 30 (demo_outbox_row ''e1'' 1))], sent = [demo_envelope ''e1''],
      in_hand = [demo_outbox_event ''e1''], added = [demo_outbox_event ''e1'']\<rparr>"
proof -
  let ?S1 = "empty_sys\<lparr>o_rows := [demo_outbox_row ''e1'' 1], added := [demo_outbox_event ''e1'']\<rparr>"
  let ?w = "\<lparr>w_sys = ?S1, w_envs = [], w_pubs = [], w_clock = 10\<rparr>"
  have "w_sys (snd (RunOnce_outbox (world_dispatcher demo_unmarshal demo_store 9 30 5) (\<lambda>_. None) ?w)) =
     \<lparr>o_rows = [settle 10 5 PubOk (leaseRow 10 30 (demo_outbox_row ''e1'' 1))], sent = [demo_envelope ''e1''],
      in_hand = [demo_outbox_event ''e1''], added = [demo_outbox_event ''e1'']\<rparr>"
    by code_simp
  then have "(sys_step demo_marshal demo_unmarshal demo_store)\<^sup>*\<^sup>* ?S1
     \<lparr>o_rows = [settle 10 5 PubOk (leaseRow 10 30 (demo_outbox_row ''e1'' 1))], sent = [demo_envelope ''e1''],
      in_hand = [demo_outbox_event ''e1''], added = [demo_outbox_event ''e1'']\<rparr>"
    using RunOnce_sys[of demo_marshal demo_unmarshal demo_store ?w 9 30 5 "\<lambda>_. None"] by simp
  with demo_added show ?thesis by (rule converse_rtranclp_into_rtranclp)
qed

text \<open>The properties on these examples.\<close>

theorem outbox_no_loss_witness:
  "demo_envelope ''e1'' \<in> {demo_envelope ''e1''} \<or>
    (\<exists>r \<in> set [settle 10 5 PubOk (leaseRow 10 30 (demo_outbox_row ''e1'' 1))].
       published_at r = None \<and> id_col r = ''e1'' \<and> demo_unmarshal (envelope r) = Inr (demo_envelope ''e1''))"
  using outbox_no_loss[OF demo_codec demo_published, of "demo_outbox_event ''e1''"]
  by (simp add: demo_outbox_event_def)

theorem outbox_published_was_sent_witness:
  "\<exists>env. demo_unmarshal (envelope (settle 10 5 PubOk (leaseRow 10 30 (demo_outbox_row ''e1'' 1)))) = Inr env \<and>
     env \<in> {demo_envelope ''e1''}"
  using outbox_published_was_sent[OF demo_codec demo_published,
      of "settle 10 5 PubOk (leaseRow 10 30 (demo_outbox_row ''e1'' 1))"]
  by (simp add: settle_def)

theorem outbox_lease_exclusive_witness:
  "''e1'' \<notin> ID ` set [demo_outbox_event ''e2'']"
proof -
  let ?rows = "[demo_outbox_row ''e1'' 1, demo_outbox_row ''e2'' 2]"
  have a: "Claim demo_unmarshal demo_store (calm_env 10) 1 30 ?rows =
      (Inr [demo_outbox_event ''e1''], [leaseRow 10 30 (demo_outbox_row ''e1'' 1), demo_outbox_row ''e2'' 2])"
    by code_simp
  have b: "Claim demo_unmarshal demo_store (calm_env 20) 9 30
        (fold (exec_op demo_marshal demo_unmarshal demo_store) []
           [leaseRow 10 30 (demo_outbox_row ''e1'' 1), demo_outbox_row ''e2'' 2]) =
      (Inr [demo_outbox_event ''e2''], [leaseRow 10 30 (demo_outbox_row ''e1'' 1), leaseRow 20 30 (demo_outbox_row ''e2'' 2)])"
    by code_simp
  show ?thesis
    using outbox_lease_exclusive[OF a _ _ b, of "demo_outbox_event ''e1''"]
    by (simp add: demo_outbox_event_def calm_env_def)
qed

theorem outbox_failures_isolated_witness:
  "fst (fst (RunOnce_outbox (world_dispatcher demo_unmarshal demo_store 9 30 5) (\<lambda>_. None) demo_world)) = 1"
proof -
  have c: "Claim demo_unmarshal demo_store (calm_env (w_clock demo_world)) 9 30 (o_rows (w_sys demo_world)) =
      (Inr [demo_outbox_event ''e1'', demo_outbox_event ''e2''],
       [leaseRow 10 30 (demo_outbox_row ''e1'' 1), leaseRow 10 30 (demo_outbox_row ''e2'' 2)])"
    by code_simp
  have d: "distinct (map id_col (o_rows (w_sys demo_world)))"
    by (simp add: demo_world_def demo_outbox_row_def new_row_def demo_outbox_event_def)
  show ?thesis
    using outbox_failures_isolated[OF d _ c, of 5] by (auto simp: demo_world_def)
qed

theorem outbox_retention_drains_witness:
  "\<exists>t e st'. RunOnce_retention \<lparr>store = outbox_batch demo_store, retention = 3, batchSize = 10\<rparr> 12
     ([], [demo_outbox_row ''e1'' 1]) = Some ((t, e), st')"
proof -
  have c: "NewRetentionCleaner_outbox (Some (outbox_batch demo_store)) \<lparr>Retention = 3, BatchSize = 10\<rparr> =
      Inr \<lparr>store = outbox_batch demo_store, retention = 3, batchSize = 10\<rparr>"
    by (simp add: NewRetentionCleaner_outbox_def NewRetentionCleaner_def)
  have d: "distinct (map id_col [demo_outbox_row ''e1'' 1])" by simp
  from outbox_retention_drains[OF c d, of 12 "[]"] show ?thesis by blast
qed

theorem outbox_failure_text_cut_witness:
  "\<exists>r \<in> set (snd (MarkFailed demo_store (calm_env 10) (demo_outbox_event ''e1'') long_message 15 [demo_outbox_row ''e1'' 1])).
     \<not> valid_utf8 (o_last_error r)"
proof -
  have "sql_affected (is_pending (ID (demo_outbox_event ''e1''))) [demo_outbox_row ''e1'' 1] = 1" by code_simp
  from outbox_failure_text_cut[OF this] show ?thesis by blast
qed

theorem outbox_dispatcher_refines_witness:
  "(sys_step demo_marshal demo_unmarshal demo_store)\<^sup>*\<^sup>* empty_sys
     (w_sys (snd (RunOnce_outbox (world_dispatcher demo_unmarshal demo_store 9 30 5) (\<lambda>_. None)
        \<lparr>w_sys = empty_sys\<lparr>o_rows := [demo_outbox_row ''e1'' 1], added := [demo_outbox_event ''e1'']\<rparr>,
         w_envs = [], w_pubs = [], w_clock = 10\<rparr>)))"
  by (rule outbox_dispatcher_refines) (use demo_added in auto)

end
