(* ===== verification/EventBus.thy ===== *)
theory EventBus
  imports Envelope
begin

text \<open>
  The event bus (\<open>src/eventbus/bus.go\<close>, \<open>config.go\<close>, \<open>consumer.go\<close>). What a call
  does to the outside is a trace of actions: messages acknowledged, scheduled again or terminated,
  envelopes published, errors reported, connections closed. NATS, the Protobuf encoding, the digest
  and the handlers are parameters. In the text of a reported error a duration is written as its
  number of nanoseconds.
\<close>

section \<open>Configuration\<close>

definition DeadLetterSubject :: string where "DeadLetterSubject = ''platform.system.event.dead-lettered.v1''"
definition DeadLetterEventType :: string where "DeadLetterEventType = ''platform.system.event.dead-lettered.v1''"

record Config_bus =
  URLs :: "string list"
  ClientName :: string
  StreamName :: string
  Subjects :: "string list"
  Storage :: string
  MaxAge :: int
  DuplicateWindow :: int
  ConnectTimeout :: int
  ReconnectWait :: int
  PublishTimeout :: int
  ConsumerAckWait :: int
  ConsumerAckTimeout :: int
  ConsumerHandlerTimeout :: int
  ConsumerRetryDelay :: int
  ConsumerMaxRetryDelay :: int
  ConsumerMaxDeliver :: int
  ConsumerMaxAckPending :: int
  DeadLetterSubject_cfg :: string
  DeadLetterMaxDataBytes :: int

definition validate :: "Config_bus \<Rightarrow> goerr option" where
  "validate c =
     (if ConsumerHandlerTimeout c \<ge> ConsumerAckWait c
      then Some (Msg ''consumer handler timeout must be shorter than ack wait'')
      else if ConsumerRetryDelay c > ConsumerMaxRetryDelay c
      then Some (Msg ''consumer retry delay must not exceed maximum retry delay'')
      else None)"

definition or_default :: "int \<Rightarrow> int \<Rightarrow> int" where
  "or_default v d = (if v \<le> 0 then d else v)"

definition defaults :: "Config_bus \<Rightarrow> Config_bus" where
  "defaults c =
     \<lparr>URLs = (if URLs c = [] then [''nats://127.0.0.1:4222''] else URLs c),
      ClientName = (if ClientName c = [] then ''platform-service'' else ClientName c),
      StreamName = (if StreamName c = [] then ''PLATFORM_EVENTS'' else StreamName c),
      Subjects = (if Subjects c = [] then [''platform.>''] else Subjects c),
      Storage = (if Storage c = [] then ''file'' else Storage c),
      MaxAge = or_default (MaxAge c) (7 * 24 * Hour),
      DuplicateWindow = or_default (DuplicateWindow c) (10 * Minute),
      ConnectTimeout = or_default (ConnectTimeout c) (5 * Second),
      ReconnectWait = or_default (ReconnectWait c) Second,
      PublishTimeout = or_default (PublishTimeout c) (5 * Second),
      ConsumerAckWait = or_default (ConsumerAckWait c) (30 * Second),
      ConsumerAckTimeout = or_default (ConsumerAckTimeout c) (5 * Second),
      ConsumerHandlerTimeout = or_default (ConsumerHandlerTimeout c) (25 * Second),
      ConsumerRetryDelay = or_default (ConsumerRetryDelay c) Second,
      ConsumerMaxRetryDelay = or_default (ConsumerMaxRetryDelay c) Minute,
      ConsumerMaxDeliver = or_default (ConsumerMaxDeliver c) 10,
      ConsumerMaxAckPending = or_default (ConsumerMaxAckPending c) 64,
      DeadLetterSubject_cfg = (if DeadLetterSubject_cfg c = [] then DeadLetterSubject else DeadLetterSubject_cfg c),
      DeadLetterMaxDataBytes = or_default (DeadLetterMaxDataBytes c) (2 ^ 20)\<rparr>"

section \<open>The bus\<close>

definition HeaderRequestID :: string where "HeaderRequestID = ''X-Request-ID''"
definition HeaderTraceID :: string where "HeaderTraceID = ''X-Trace-ID''"
definition HeaderTraceParent :: string where "HeaderTraceParent = ''traceparent''"

text \<open>A message on the wire: subject, data, headers (a map of its own), and the deduplication id.\<close>

record nats_msg =
  n_subject :: string
  n_data :: string
  n_header :: "string \<rightharpoonup> string"
  n_msgID :: string

datatype conn_action = Connected | ConnClosed | Drained

record Bus =
  b_config :: Config_bus
  b_closed :: bool

text \<open>
  \<open>New\<close>, given how connecting, creating the context and provisioning the stream end. The second
  component is what happened to the connection.
\<close>

definition New_bus ::
  "goerr option \<Rightarrow> goerr option \<Rightarrow> (Config_bus \<Rightarrow> bool \<Rightarrow> goerr option) \<Rightarrow> Config_bus \<Rightarrow> (goerr + Bus) \<times> conn_action list" where
  "New_bus connErr jsErr provision config =
     (let c = defaults config
      in case validate c of
           Some e \<Rightarrow> (Inl (Wrap ''validate event bus config'' e), [])
         | None \<Rightarrow>
           (case connErr of
              Some e \<Rightarrow> (Inl (Wrap ''connect to NATS'' e), [])
            | None \<Rightarrow>
              (case jsErr of
                 Some e \<Rightarrow> (Inl (Wrap ''create JetStream context'' e), [Connected, ConnClosed])
               | None \<Rightarrow>
                 (case provision c (Storage c = ''memory'') of
                    Some e \<Rightarrow> (Inl (Wrap ''provision JetStream stream'' e), [Connected, ConnClosed])
                  | None \<Rightarrow> (Inr \<lparr>b_config = c, b_closed = False\<rparr>, [Connected])))))"

text \<open>
  \<open>Publish\<close>: \<open>inject\<close> adds the trace headers of the context, \<open>js\<close> hands the message
  to JetStream under a timeout.
\<close>

definition Publish ::
  "(EventEnvelope \<Rightarrow> goerr + string) \<Rightarrow> ((string \<rightharpoonup> string) \<Rightarrow> (string \<rightharpoonup> string)) \<Rightarrow> (int \<Rightarrow> nats_msg \<Rightarrow> goerr option) \<Rightarrow>
   Bus option \<Rightarrow> string \<Rightarrow> EventEnvelope option \<Rightarrow> goerr option \<times> nats_msg list" where
  "Publish marshal inject js b subj env =
     (case b of
        None \<Rightarrow> (Some (Msg ''event bus is disabled''), [])
      | Some bus \<Rightarrow>
        (case env of
           None \<Rightarrow> (Some (Msg ''event envelope with event_id is required''), [])
         | Some e \<Rightarrow>
           if EventId e = [] then (Some (Msg ''event envelope with event_id is required''), [])
           else
             (case marshal e of
                Inl err \<Rightarrow> (Some (Wrap ''encode event envelope'' err), [])
              | Inr bytes \<Rightarrow>
                  (let h = (case env_Context e of
                              None \<Rightarrow> Map.empty
                            | Some rc \<Rightarrow> [HeaderRequestID \<mapsto> rc_RequestId rc, HeaderTraceID \<mapsto> rc_TraceId rc]);
                       m = \<lparr>n_subject = subj, n_data = bytes, n_header = inject h, n_msgID = EventId e\<rparr>
                   in case js (PublishTimeout (b_config bus)) m of
                        Some err \<Rightarrow> (Some (Wrap (''publish event '' @ quoted (EventId e)) err), [m])
                      | None \<Rightarrow> (None, [m])))))"

definition Close :: "goerr option \<Rightarrow> Bus option \<Rightarrow> (goerr option \<times> Bus option) \<times> conn_action list" where
  "Close drainErr b =
     (case b of
        None \<Rightarrow> ((None, None), [])
      | Some bus \<Rightarrow>
          if b_closed bus then ((None, Some bus), [])
          else
            (case drainErr of
               Some e \<Rightarrow> ((Some (Wrap ''drain NATS connection'' e), Some (bus\<lparr>b_closed := True\<rparr>)), [ConnClosed])
             | None \<Rightarrow> ((None, Some (bus\<lparr>b_closed := True\<rparr>)), [Drained, ConnClosed])))"

section \<open>The consumer\<close>

text \<open>What a handler is given besides the envelope: the request id in its context and its time limit.\<close>

record handler_ctx =
  h_requestID :: "string option"
  h_timeout :: int

type_synonym Handler = "handler_ctx \<Rightarrow> EventEnvelope \<Rightarrow> goerr option"

definition RequestIDFromContext :: "handler_ctx \<Rightarrow> string" where
  "RequestIDFromContext ctx = (case h_requestID ctx of None \<Rightarrow> [] | Some v \<Rightarrow> v)"

record ConsumerOptions =
  Durable :: string
  FilterSubject :: string
  o_Handler :: "Handler option"

record DeadLetterEvent =
  OriginalEvent :: "EventEnvelope option"
  OriginalSubject :: string
  dl_Consumer :: string
  Reason :: string
  DeliveryCount :: nat
  DeadLetteredAt :: int
  DecodingFailed :: bool
  OriginalData :: string
  OriginalDataTruncated :: bool

text \<open>A delivered message: its content, and how the calls on it end.\<close>

record consumerMessage =
  msg_Data :: string
  msg_Headers :: "string \<rightharpoonup> string"
  msg_Subject :: string
  msg_Metadata :: "goerr + nat"
  msg_ackErr :: "goerr option"
  msg_nakErr :: "goerr option"
  msg_termErr :: "goerr option"

datatype action =
    Handled EventEnvelope
  | Published string EventEnvelope "goerr option"
  | Acked
  | Naked int
  | Termed string
  | Reported goerr

text \<open>
  The libraries and surroundings of a consumer: decoding envelopes, encoding dead letters, the hex
  form of the first 16 bytes of SHA-256, the clock, the publisher, and whether the consumer's context
  has ended by the time the handler returns.
\<close>

record bus_env =
  unmarshalEnvelope :: "string \<Rightarrow> goerr + EventEnvelope"
  marshalDeadLetter :: "DeadLetterEvent \<Rightarrow> goerr + string"
  digest16 :: "string \<Rightarrow> string"
  clock_now :: int
  publisher :: "string \<Rightarrow> EventEnvelope \<Rightarrow> goerr option"
  ctxDone :: bool

record consumerProcessor =
  cp_config :: Config_bus
  cp_durable :: string
  cp_handler :: Handler
  cp_onError :: bool

text \<open>The UTF-8 form of U+FFFD.\<close>

definition replacement :: string where "replacement = [CHR 0xEF, CHR 0xBF, CHR 0xBD]"

definition limitedReason :: "goerr option \<Rightarrow> string" where
  "limitedReason err =
     (case err of
        None \<Rightarrow> ''unknown consumer failure''
      | Some e \<Rightarrow>
          (let reason = ToValidUTF8 (TrimSpace (err_text e)) replacement
           in if length reason > 4096 then drop_invalid_tail (take 4096 reason) else reason))"

definition report :: "consumerProcessor \<Rightarrow> goerr \<Rightarrow> action list" where
  "report p e = (if cp_onError p then [Reported e] else [])"

fun doubleDelay :: "Config_bus \<Rightarrow> nat \<Rightarrow> int \<Rightarrow> int" where
  "doubleDelay c 0 delay = delay"
| "doubleDelay c (Suc k) delay =
     (if delay \<ge> go_div (ConsumerMaxRetryDelay c) 2 then ConsumerMaxRetryDelay c
      else doubleDelay c k (wrap64 (delay * 2)))"

definition retryDelay :: "consumerProcessor \<Rightarrow> nat \<Rightarrow> int" where
  "retryDelay p delivery =
     (let shift = (if delivery > 1 then delivery - 1 else 0);
          shift = (if shift > 16 then 16 else shift)
      in doubleDelay (cp_config p) shift (ConsumerRetryDelay (cp_config p)))"

definition retry :: "consumerProcessor \<Rightarrow> consumerMessage \<Rightarrow> nat \<Rightarrow> action list" where
  "retry p m delivery =
     (let delay = retryDelay p delivery
      in Naked delay #
         (case msg_nakErr m of
            None \<Rightarrow> []
          | Some e \<Rightarrow> report p (Wrap (''schedule event redelivery after '' @ Itoa delay) e)))"

definition terminate :: "consumerProcessor \<Rightarrow> consumerMessage \<Rightarrow> string \<Rightarrow> action list" where
  "terminate p m reason =
     Termed reason #
     (case msg_termErr m of None \<Rightarrow> [] | Some e \<Rightarrow> report p (Wrap ''terminate event delivery'' e))"

text \<open>The event and the metadata of a dead letter.\<close>

definition deadLetter ::
  "bus_env \<Rightarrow> consumerProcessor \<Rightarrow> consumerMessage \<Rightarrow> nat \<Rightarrow> EventEnvelope option \<Rightarrow> goerr \<Rightarrow> bool \<Rightarrow> DeadLetterEvent \<times> Metadata" where
  "deadLetter E p m delivered original cause failed =
     (let dl = \<lparr>OriginalEvent = original, OriginalSubject = msg_Subject m, dl_Consumer = cp_durable p,
                Reason = limitedReason (Some cause), DeliveryCount = delivered, DeadLetteredAt = clock_now E,
                DecodingFailed = failed, OriginalData = [], OriginalDataTruncated = False\<rparr>;
          md = \<lparr>m_EventID = [], m_EventType = DeadLetterEventType, m_AggregateID = [], m_AggregateType = ''event'',
                m_TenantID = [], m_ApplicationID = [], m_SchemaVersion = 1, m_RequestID = [], m_TraceID = [],
                m_ActorID = [], m_ActorType = [], m_OccurredAt = Some (clock_now E)\<rparr>
      in case original of
           Some o' \<Rightarrow>
             (let md = md\<lparr>m_EventID := ''dead-letter:'' @ cp_durable p @ '':'' @ EventId o',
                          m_AggregateID := AggregateId o', m_TenantID := TenantId o'\<rparr>
              in (dl,
                  case env_Context o' of
                    None \<Rightarrow> md
                  | Some rc \<Rightarrow> md\<lparr>m_RequestID := rc_RequestId rc, m_TraceID := rc_TraceId rc,
                                   m_ActorID := rc_ActorId rc, m_ActorType := rc_ActorType rc\<rparr>))
         | None \<Rightarrow>
             (let limit = nat (DeadLetterMaxDataBytes (cp_config p));
                  cut = length (msg_Data m) > limit;
                  i = digest16 E (msg_Data m)
              in (dl\<lparr>OriginalData := (if cut then take limit (msg_Data m) else msg_Data m), OriginalDataTruncated := cut\<rparr>,
                  md\<lparr>m_EventID := ''dead-letter:'' @ cp_durable p @ '':'' @ i, m_AggregateID := i,
                     m_RequestID := (case msg_Headers m HeaderRequestID of None \<Rightarrow> [] | Some v \<Rightarrow> v)\<rparr>)))"

definition publishDeadLetter ::
  "bus_env \<Rightarrow> consumerProcessor \<Rightarrow> consumerMessage \<Rightarrow> nat \<Rightarrow> EventEnvelope option \<Rightarrow> goerr \<Rightarrow> bool \<Rightarrow> goerr option \<times> action list" where
  "publishDeadLetter E p m delivered original cause failed =
     (let (dl, md) = deadLetter E p m delivered original cause failed
      in case NewEnvelope (marshalDeadLetter E) (clock_now E) md (Some dl) of
           Inl e \<Rightarrow> (Some (Wrap ''build dead letter envelope'' e), [])
         | Inr env \<Rightarrow>
             (let s = DeadLetterSubject_cfg (cp_config p); r = publisher E s env
              in (map_option (Wrap (''publish dead letter for consumer '' @ quoted (cp_durable p))) r, [Published s env r])))"

text \<open>\<open>uint64(int)\<close>.\<close>

definition uint64 :: "int \<Rightarrow> nat" where "uint64 i = nat (i mod 2 ^ 64)"

definition process :: "bus_env \<Rightarrow> consumerProcessor \<Rightarrow> consumerMessage \<Rightarrow> action list" where
  "process E p m =
     (case msg_Metadata m of
        Inl e \<Rightarrow> report p (Wrap ''read consumer metadata'' e) @ retry p m 1
      | Inr delivered \<Rightarrow>
        (case unmarshalEnvelope E (msg_Data m) of
           Inl e \<Rightarrow>
             (case publishDeadLetter E p m delivered None e True of
                (Some publishErr, tr) \<Rightarrow> tr @ report p publishErr @ retry p m delivered
              | (None, tr) \<Rightarrow> tr @ terminate p m ''invalid event envelope'')
         | Inr envl \<Rightarrow>
             (let rid = (case env_Context envl of
                           None \<Rightarrow> None
                         | Some rc \<Rightarrow> if rc_RequestId rc = [] then None else Some (rc_RequestId rc));
                  ctx = \<lparr>h_requestID = rid, h_timeout = ConsumerHandlerTimeout (cp_config p)\<rparr>
              in Handled envl #
                 (case cp_handler p ctx envl of
                    None \<Rightarrow>
                      Acked #
                      (case msg_ackErr m of
                         None \<Rightarrow> []
                       | Some e \<Rightarrow> report p (Wrap (''ack event '' @ quoted (EventId envl)) e))
                  | Some err \<Rightarrow>
                      if ctxDone E then []
                      else if delivered \<ge> uint64 (ConsumerMaxDeliver (cp_config p)) then
                        (if EventType envl \<noteq> DeadLetterEventType then
                           (case publishDeadLetter E p m delivered (Some envl) err False of
                              (Some publishErr, tr) \<Rightarrow> tr @ report p publishErr @ retry p m delivered
                            | (None, tr) \<Rightarrow> tr @ terminate p m (limitedReason (Some err)))
                         else terminate p m (limitedReason (Some err)))
                      else
                        report p (Wrap (''handle event '' @ quoted (EventId envl) @ '' delivery '' @ Itoa (int delivered)) err) @
                        retry p m delivered))))"

text \<open>\<open>ConsumeWithOptions\<close> and \<open>Consume\<close>: the processor that would run, or the error.\<close>

record ConsumerConfig =
  cc_Durable :: string
  cc_FilterSubject :: string
  cc_AckWait :: int
  cc_MaxDeliver :: int
  cc_MaxAckPending :: int

definition ConsumeWithOptions ::
  "(ConsumerConfig \<Rightarrow> goerr option) \<Rightarrow> goerr option \<Rightarrow> Bus option \<Rightarrow> ConsumerOptions \<Rightarrow> bool \<Rightarrow> goerr + consumerProcessor" where
  "ConsumeWithOptions provision startErr b opts onError =
     (case b of
        None \<Rightarrow> Inl (Msg ''event bus is disabled'')
      | Some bus \<Rightarrow>
          if Durable opts = [] \<or> FilterSubject opts = [] \<or> o_Handler opts = None
          then Inl (Msg ''durable name, filter subject, and handler are required'')
          else
            (case provision \<lparr>cc_Durable = Durable opts, cc_FilterSubject = FilterSubject opts,
                     cc_AckWait = ConsumerAckWait (b_config bus), cc_MaxDeliver = ConsumerMaxDeliver (b_config bus),
                     cc_MaxAckPending = ConsumerMaxAckPending (b_config bus)\<rparr> of
               Some e \<Rightarrow> Inl (Wrap (''provision consumer '' @ quoted (Durable opts)) e)
             | None \<Rightarrow>
                 (case startErr of
                    Some e \<Rightarrow> Inl (Wrap (''start consumer '' @ quoted (Durable opts)) e)
                  | None \<Rightarrow> Inr \<lparr>cp_config = b_config bus, cp_durable = Durable opts,
                                 cp_handler = the (o_Handler opts), cp_onError = onError\<rparr>)))"

definition Consume ::
  "(ConsumerConfig \<Rightarrow> goerr option) \<Rightarrow> goerr option \<Rightarrow> Bus option \<Rightarrow> string \<Rightarrow> string \<Rightarrow> Handler option \<Rightarrow> goerr + consumerProcessor" where
  "Consume provision startErr b durable filterSubject handler =
     ConsumeWithOptions provision startErr b \<lparr>Durable = durable, FilterSubject = filterSubject, o_Handler = handler\<rparr> False"

section \<open>Settling a delivery\<close>

fun settles :: "action \<Rightarrow> bool" where
  "settles Acked = True" | "settles (Naked d) = True" | "settles (Termed r) = True" | "settles _ = False"

lemma report_quiet [simp]:
  "filter settles (report p e) = []" "Acked \<notin> set (report p e)" "Termed r \<notin> set (report p e)"
  "Naked d \<notin> set (report p e)" "Published s env q \<notin> set (report p e)"
  by (simp_all add: report_def)

lemma retry_trace [simp]:
  "filter settles (retry p m n) = [Naked (retryDelay p n)]" "Acked \<notin> set (retry p m n)" "Termed r \<notin> set (retry p m n)"
  "Published s env q \<notin> set (retry p m n)"
  by (simp_all add: retry_def Let_def split: option.splits)

lemma terminate_trace [simp]:
  "filter settles (terminate p m r) = [Termed r]" "Acked \<notin> set (terminate p m r)"
  "Termed q \<in> set (terminate p m r) \<longleftrightarrow> q = r" "Published s env x \<notin> set (terminate p m r)"
  by (auto simp: terminate_def split: option.splits)

text \<open>A dead letter is published, or there is an error and nothing was accepted by the bus.\<close>

lemma publishDeadLetter_cases:
  assumes "publishDeadLetter E p m n original cause failed = (r, tr)"
  obtains (unbuilt) e where "tr = []" "r = Some e"
    "\<And>env. NewEnvelope (marshalDeadLetter E) (clock_now E) (snd (deadLetter E p m n original cause failed))
       (Some (fst (deadLetter E p m n original cause failed))) \<noteq> Inr env"
  | (tried) env where "tr = [Published (DeadLetterSubject_cfg (cp_config p)) env
        (publisher E (DeadLetterSubject_cfg (cp_config p)) env)]"
    "r = None \<longleftrightarrow> publisher E (DeadLetterSubject_cfg (cp_config p)) env = None"
    "NewEnvelope (marshalDeadLetter E) (clock_now E) (snd (deadLetter E p m n original cause failed))
       (Some (fst (deadLetter E p m n original cause failed))) = Inr env"
proof (cases "NewEnvelope (marshalDeadLetter E) (clock_now E) (snd (deadLetter E p m n original cause failed))
       (Some (fst (deadLetter E p m n original cause failed)))")
  case (Inl e)
  with assms show ?thesis by (intro unbuilt) (auto simp: publishDeadLetter_def split: prod.splits)
next
  case (Inr env)
  with assms show ?thesis by (intro tried[of env]) (auto simp: publishDeadLetter_def Let_def split: prod.splits)
qed

lemma publishDeadLetter_quiet:
  assumes "publishDeadLetter E p m n original cause failed = (r, tr)"
  shows "filter settles tr = []" "Acked \<notin> set tr" "Termed q \<notin> set tr"
    "r = None \<Longrightarrow> \<exists>env. tr = [Published (DeadLetterSubject_cfg (cp_config p)) env None]"
  using assms by (auto elim: publishDeadLetter_cases)

text \<open>The context and the ways through \<open>process\<close> once the message is decoded.\<close>

definition message_ctx :: "consumerProcessor \<Rightarrow> EventEnvelope \<Rightarrow> handler_ctx" where
  "message_ctx p envl =
     \<lparr>h_requestID = (case env_Context envl of
                       None \<Rightarrow> None
                     | Some rc \<Rightarrow> if rc_RequestId rc = [] then None else Some (rc_RequestId rc)),
      h_timeout = ConsumerHandlerTimeout (cp_config p)\<rparr>"

definition at_limit :: "consumerProcessor \<Rightarrow> nat \<Rightarrow> bool" where
  "at_limit p n \<longleftrightarrow> uint64 (ConsumerMaxDeliver (cp_config p)) \<le> n"

lemma process_cases:
  obtains (no_metadata) e where "msg_Metadata m = Inl e" "process E p m = report p (Wrap ''read consumer metadata'' e) @ retry p m 1"
  | (undecodable) n e r tr where "msg_Metadata m = Inr n" "unmarshalEnvelope E (msg_Data m) = Inl e"
      "publishDeadLetter E p m n None e True = (r, tr)"
      "process E p m = tr @ (case r of Some x \<Rightarrow> report p x @ retry p m n | None \<Rightarrow> terminate p m ''invalid event envelope'')"
  | (handled) n envl where "msg_Metadata m = Inr n" "unmarshalEnvelope E (msg_Data m) = Inr envl"
      "cp_handler p (message_ctx p envl) envl = None"
      "process E p m = Handled envl # Acked # (case msg_ackErr m of None \<Rightarrow> []
         | Some e \<Rightarrow> report p (Wrap (''ack event '' @ quoted (EventId envl)) e))"
  | (cancelled) n envl err where "msg_Metadata m = Inr n" "unmarshalEnvelope E (msg_Data m) = Inr envl"
      "cp_handler p (message_ctx p envl) envl = Some err" "ctxDone E" "process E p m = [Handled envl]"
  | (again) n envl err where "msg_Metadata m = Inr n" "unmarshalEnvelope E (msg_Data m) = Inr envl"
      "cp_handler p (message_ctx p envl) envl = Some err" "\<not> ctxDone E" "\<not> at_limit p n"
      "process E p m = Handled envl #
         report p (Wrap (''handle event '' @ quoted (EventId envl) @ '' delivery '' @ Itoa (int n)) err) @ retry p m n"
  | (dead) n envl err where "msg_Metadata m = Inr n" "unmarshalEnvelope E (msg_Data m) = Inr envl"
      "cp_handler p (message_ctx p envl) envl = Some err" "\<not> ctxDone E" "at_limit p n"
      "EventType envl = DeadLetterEventType"
      "process E p m = Handled envl # terminate p m (limitedReason (Some err))"
  | (letter) n envl err r tr where "msg_Metadata m = Inr n" "unmarshalEnvelope E (msg_Data m) = Inr envl"
      "cp_handler p (message_ctx p envl) envl = Some err" "\<not> ctxDone E" "at_limit p n"
      "EventType envl \<noteq> DeadLetterEventType" "publishDeadLetter E p m n (Some envl) err False = (r, tr)"
      "process E p m = Handled envl # tr @
         (case r of Some x \<Rightarrow> report p x @ retry p m n | None \<Rightarrow> terminate p m (limitedReason (Some err)))"
proof (cases "msg_Metadata m")
  case (Inl e)
  then show ?thesis by (intro no_metadata) (auto simp: process_def)
next
  case md: (Inr n)
  show ?thesis
  proof (cases "unmarshalEnvelope E (msg_Data m)")
    case (Inl e)
    obtain r tr where pd: "publishDeadLetter E p m n None e True = (r, tr)" by fastforce
    with md Inl show ?thesis by (intro undecodable[OF md Inl pd]) (auto simp: process_def split: option.splits)
  next
    case un: (Inr envl)
    show ?thesis
    proof (cases "cp_handler p (message_ctx p envl) envl")
      case None
      with md un show ?thesis by (intro handled) (auto simp: process_def message_ctx_def Let_def)
    next
      case (Some err)
      obtain r tr where pd: "publishDeadLetter E p m n (Some envl) err False = (r, tr)" by fastforce
      note defs = process_def message_ctx_def at_limit_def Let_def
      consider "ctxDone E" | "\<not> ctxDone E" "\<not> at_limit p n"
        | "\<not> ctxDone E" "at_limit p n" "EventType envl = DeadLetterEventType"
        | "\<not> ctxDone E" "at_limit p n" "EventType envl \<noteq> DeadLetterEventType" by blast
      then show ?thesis
      proof cases
        case 1
        with md un Some show ?thesis by (intro cancelled) (auto simp: defs)
      next
        case 2
        with md un Some show ?thesis by (intro again) (auto simp: defs)
      next
        case 3
        with md un Some show ?thesis by (intro dead) (auto simp: defs)
      next
        case 4
        with md un Some pd show ?thesis by (intro letter[OF md un Some 4 pd]) (auto simp: defs split: option.splits)
      qed
    qed
  qed
qed

text \<open>A delivery is settled exactly once (acknowledged, scheduled again, or terminated), except when
  the handler fails while the consumer is shutting down: then it is left to the acknowledgement
  timeout.\<close>

theorem eventbus_settles_once:
  "(if \<exists>n envl err. msg_Metadata m = Inr n \<and> unmarshalEnvelope E (msg_Data m) = Inr envl \<and>
         cp_handler p (message_ctx p envl) envl = Some err \<and> ctxDone E
    then filter settles (process E p m) = [] else length (filter settles (process E p m)) = 1)"
proof (rule process_cases[of m E p])
  fix n e r tr assume "publishDeadLetter E p m n None e True = (r, tr)"
    "process E p m = tr @ (case r of Some x \<Rightarrow> report p x @ retry p m n | None \<Rightarrow> terminate p m ''invalid event envelope'')"
    "unmarshalEnvelope E (msg_Data m) = Inl e"
  then show ?thesis using publishDeadLetter_quiet(1) by (cases r) auto
next
  fix n envl err r tr assume "publishDeadLetter E p m n (Some envl) err False = (r, tr)"
    "process E p m = Handled envl # tr @
         (case r of Some x \<Rightarrow> report p x @ retry p m n | None \<Rightarrow> terminate p m (limitedReason (Some err)))"
    "\<not> ctxDone E"
  then show ?thesis using publishDeadLetter_quiet(1) by (cases r) auto
qed (auto split: option.splits)

text \<open>C15. No event is dropped silently. A message is acknowledged only after its handler succeeded, and
  terminated only after a dead letter for it was accepted by the bus, unless it is itself a dead
  letter that failed its last delivery.\<close>

theorem eventbus_no_silent_drop:
  "(Acked \<in> set (process E p m) \<longrightarrow>
     (\<exists>envl. unmarshalEnvelope E (msg_Data m) = Inr envl \<and> cp_handler p (message_ctx p envl) envl = None)) \<and>
   (Termed r \<in> set (process E p m) \<longrightarrow>
     (\<exists>pre env post. process E p m = pre @ Published (DeadLetterSubject_cfg (cp_config p)) env None # post \<and>
        Termed r \<in> set post) \<or>
     (\<exists>n envl. msg_Metadata m = Inr n \<and> at_limit p n \<and> unmarshalEnvelope E (msg_Data m) = Inr envl \<and>
        EventType envl = DeadLetterEventType))"
proof (rule process_cases[of m E p])
  fix n e q tr assume pd: "publishDeadLetter E p m n None e True = (q, tr)"
    and pr: "process E p m = tr @ (case q of Some x \<Rightarrow> report p x @ retry p m n | None \<Rightarrow> terminate p m ''invalid event envelope'')"
  show ?thesis
  proof (cases q)
    case None
    then obtain env where "tr = [Published (DeadLetterSubject_cfg (cp_config p)) env None]"
      using publishDeadLetter_quiet(4)[OF pd] by blast
    with pr None show ?thesis by (auto intro!: exI[of _ "[]"])
  qed (use pr publishDeadLetter_quiet(2,3)[OF pd] in auto)
next
  fix n envl err q tr assume pd: "publishDeadLetter E p m n (Some envl) err False = (q, tr)"
    and pr: "process E p m = Handled envl # tr @
         (case q of Some x \<Rightarrow> report p x @ retry p m n | None \<Rightarrow> terminate p m (limitedReason (Some err)))"
  show ?thesis
  proof (cases q)
    case None
    then obtain env where "tr = [Published (DeadLetterSubject_cfg (cp_config p)) env None]"
      using publishDeadLetter_quiet(4)[OF pd] by blast
    with pr None show ?thesis by (auto intro!: exI[of _ "[Handled envl]"])
  qed (use pr publishDeadLetter_quiet(2,3)[OF pd] in auto)
qed (auto split: option.splits)

section \<open>Reasons\<close>

lemma valid_replacement: "valid_utf8 replacement"
  by code_simp

lemma limitedReason_valid: "valid_utf8 (limitedReason err)"
proof (cases err)
  case None
  have "valid_utf8 ''unknown consumer failure''" by code_simp
  with None show ?thesis by (simp add: limitedReason_def)
next
  case (Some e)
  have "valid_utf8 (ToValidUTF8 (TrimSpace (err_text e)) replacement)"
    unfolding ToValidUTF8_def by (rule valid_to_valid[OF valid_replacement])
  with Some show ?thesis by (simp add: limitedReason_def Let_def drop_invalid_tail_valid)
qed

text \<open>The reason put into a dead letter is valid UTF-8 of at most 4096 bytes, whatever the error's text;
  a valid text without surrounding spaces that fits is kept as it is.\<close>

theorem limitedReason_utf8:
  "valid_utf8 (limitedReason err) \<and> length (limitedReason err) \<le> 4096 \<and>
   (\<forall>e. err = Some e \<and> valid_utf8 (err_text e) \<and> TrimSpace (err_text e) = err_text e \<and> length (err_text e) \<le> 4096 \<longrightarrow>
      limitedReason err = err_text e)"
proof (cases err)
  case None
  with limitedReason_valid[of err] show ?thesis by (simp add: limitedReason_def)
next
  case (Some e)
  let ?r = "ToValidUTF8 (TrimSpace (err_text e)) replacement"
  have "length (drop_invalid_tail (take 4096 ?r)) \<le> 4096"
    using prefix_length_le[OF drop_invalid_tail_prefix, of "take 4096 ?r"] by simp
  then have "length (limitedReason err) \<le> 4096" using Some by (simp add: limitedReason_def Let_def)
  moreover have "limitedReason err = err_text e"
    if "valid_utf8 (err_text e)" "TrimSpace (err_text e) = err_text e" "length (err_text e) \<le> 4096"
    using that Some by (simp add: limitedReason_def ToValidUTF8_def to_valid_id)
  ultimately show ?thesis using Some limitedReason_valid[of err] by auto
qed

theorem limitedReason_utf8_witness:
  "limitedReason (Some (Msg ''boom'')) = ''boom''"
proof -
  have "valid_utf8 ''boom'' \<and> TrimSpace ''boom'' = ''boom''" by code_simp
  then show ?thesis using limitedReason_utf8[of "Some (Msg ''boom'')"] by simp
qed

section \<open>Retry delays\<close>

text \<open>What \<open>New\<close> guarantees of the configuration a consumer runs with.\<close>

definition good_config :: "Config_bus \<Rightarrow> bool" where
  "good_config c \<longleftrightarrow>
     0 < ConsumerHandlerTimeout c \<and> ConsumerHandlerTimeout c < ConsumerAckWait c \<and>
     0 < ConsumerRetryDelay c \<and> ConsumerRetryDelay c \<le> ConsumerMaxRetryDelay c \<and>
     0 < ConsumerMaxDeliver c \<and> 0 < ConsumerMaxAckPending c \<and> 0 < PublishTimeout c \<and> 0 < DeadLetterMaxDataBytes c \<and>
     DeadLetterSubject_cfg c \<noteq> [] \<and> URLs c \<noteq> [] \<and> StreamName c \<noteq> [] \<and> Subjects c \<noteq> []"

lemma or_default_pos: "0 < d \<Longrightarrow> 0 < or_default v d"
  by (simp add: or_default_def)

lemma validate_None:
  "validate c = None \<Longrightarrow> ConsumerHandlerTimeout c < ConsumerAckWait c \<and> ConsumerRetryDelay c \<le> ConsumerMaxRetryDelay c"
  by (auto simp: validate_def split: if_splits)

lemma New_bus_good:
  assumes "New_bus connErr jsErr provision config = (Inr b, tr)"
  shows "good_config (b_config b)"
proof -
  have b: "b_config b = defaults config" "validate (defaults config) = None"
    using assms by (auto simp: New_bus_def Let_def split: option.splits)
  have "0 < ConsumerHandlerTimeout (b_config b)" "0 < ConsumerRetryDelay (b_config b)"
    "0 < ConsumerMaxDeliver (b_config b)" "0 < ConsumerMaxAckPending (b_config b)" "0 < PublishTimeout (b_config b)"
    "0 < DeadLetterMaxDataBytes (b_config b)" "DeadLetterSubject_cfg (b_config b) \<noteq> []" "URLs (b_config b) \<noteq> []"
    "StreamName (b_config b) \<noteq> []" "Subjects (b_config b) \<noteq> []"
    unfolding b(1) by (simp_all add: defaults_def or_default_pos duration_defs DeadLetterSubject_def)
  then show ?thesis using validate_None[OF b(2)] by (simp add: good_config_def b(1))
qed

lemma ConsumeWithOptions_config:
  "ConsumeWithOptions provision startErr (Some b) opts onError = Inr p \<Longrightarrow> cp_config p = b_config b"
  by (auto simp: ConsumeWithOptions_def split: if_splits option.splits)

lemma doubleDelay_result:
  assumes "0 < d" "d \<le> ConsumerMaxRetryDelay c" "ConsumerMaxRetryDelay c \<le> max_int64"
  shows "doubleDelay c k d = ConsumerMaxRetryDelay c \<or>
    (doubleDelay c k d = d * 2 ^ k \<and> d * 2 ^ k \<le> ConsumerMaxRetryDelay c)"
  using assms
proof (induction k arbitrary: d)
  case (Suc k)
  have h: "go_div (ConsumerMaxRetryDelay c) 2 = ConsumerMaxRetryDelay c div 2"
    using Suc.prems by (intro go_div_nonneg) auto
  show ?case
  proof (cases "d \<ge> ConsumerMaxRetryDelay c div 2")
    case False
    then have b: "d * 2 \<le> ConsumerMaxRetryDelay c" "0 < d * 2" using Suc.prems by auto
    then have "wrap64 (d * 2) = d * 2" using Suc.prems by (intro wrap64_id) auto
    with False Suc.IH[OF b(2,1) Suc.prems(3)] h show ?thesis by (simp add: algebra_simps)
  qed (simp add: h)
qed simp

lemma doubleDelay_mono:
  assumes "0 < d" "d \<le> ConsumerMaxRetryDelay c" "ConsumerMaxRetryDelay c \<le> max_int64"
  shows "doubleDelay c k d \<le> doubleDelay c (Suc k) d"
  using assms
proof (induction k arbitrary: d)
  case (Suc k)
  have h: "go_div (ConsumerMaxRetryDelay c) 2 = ConsumerMaxRetryDelay c div 2"
    using Suc.prems by (intro go_div_nonneg) auto
  show ?case
  proof (cases "d \<ge> ConsumerMaxRetryDelay c div 2")
    case False
    then have b: "d * 2 \<le> ConsumerMaxRetryDelay c" "0 < d * 2" using Suc.prems by auto
    then have w: "wrap64 (d * 2) = d * 2" using Suc.prems by (intro wrap64_id) auto
    from Suc.IH[OF b(2,1) Suc.prems(3)] show ?thesis using False h w by (simp only: doubleDelay.simps) simp
  qed (simp add: h)
next
  case 0
  have h: "go_div (ConsumerMaxRetryDelay c) 2 = ConsumerMaxRetryDelay c div 2"
    using 0 by (intro go_div_nonneg) auto
  show ?case
  proof (cases "d \<ge> ConsumerMaxRetryDelay c div 2")
    case False
    then have b: "d * 2 \<le> ConsumerMaxRetryDelay c" "0 < d * 2" using 0 by auto
    then have w: "wrap64 (d * 2) = d * 2" using 0 by (intro wrap64_id) auto
    with False h 0 show ?thesis by simp
  qed (use 0 h in simp)
qed

lemma doubleDelay_mono_le:
  assumes "0 < d" "d \<le> ConsumerMaxRetryDelay c" "ConsumerMaxRetryDelay c \<le> max_int64" "j \<le> k"
  shows "doubleDelay c j d \<le> doubleDelay c k d"
  using assms(4)
  by (induction rule: dec_induct) (auto intro: order_trans doubleDelay_mono[OF assms(1-3)] simp del: doubleDelay.simps)

text \<open>C16. With the configuration of a bus that was created without error and a 64-bit maximum, the delay before
  redelivery is positive, never exceeds the maximum, never shrinks from one delivery to the next, and is
  the configured delay doubled once per earlier delivery (at most 16 times) or the maximum; the
  multiplication never overflows.\<close>

theorem eventbus_retry_delay:
  assumes "New_bus connErr jsErr provision config = (Inr b, tr)"
    and "ConsumeWithOptions provision2 startErr (Some b) opts onError = Inr p"
    and "ConsumerMaxRetryDelay (b_config b) \<le> max_int64"
  shows "0 < retryDelay p n \<and> retryDelay p n \<le> ConsumerMaxRetryDelay (b_config b) \<and>
    retryDelay p n \<le> retryDelay p (n + 1) \<and> retryDelay p 1 = ConsumerRetryDelay (b_config b) \<and>
    (retryDelay p n = ConsumerMaxRetryDelay (b_config b) \<or>
     retryDelay p n = ConsumerRetryDelay (b_config b) * 2 ^ min 16 (n - 1))"
proof -
  let ?c = "b_config b" and ?k = "\<lambda>n. min 16 (n - 1) :: nat"
  have g: "0 < ConsumerRetryDelay ?c" "ConsumerRetryDelay ?c \<le> ConsumerMaxRetryDelay ?c"
    using New_bus_good[OF assms(1)] by (simp_all add: good_config_def)
  have r: "retryDelay p n = doubleDelay ?c (?k n) (ConsumerRetryDelay ?c)" for n
    by (auto simp: retryDelay_def Let_def ConsumeWithOptions_config[OF assms(2)] min_def)
  have m: "doubleDelay ?c (?k n) (ConsumerRetryDelay ?c) \<le> doubleDelay ?c (?k (n + 1)) (ConsumerRetryDelay ?c)"
    by (rule doubleDelay_mono_le[OF g assms(3)]) auto
  show ?thesis
    using doubleDelay_result[OF g assms(3), of "?k n"] m g unfolding r by auto
qed

section \<open>Dead letters\<close>

lemma deadLetter_fields:
  "OriginalSubject (fst (deadLetter E p m n original cause failed)) = msg_Subject m"
  "dl_Consumer (fst (deadLetter E p m n original cause failed)) = cp_durable p"
  "DeliveryCount (fst (deadLetter E p m n original cause failed)) = n"
  "Reason (fst (deadLetter E p m n original cause failed)) = limitedReason (Some cause)"
  "OriginalEvent (fst (deadLetter E p m n original cause failed)) = original"
  "DecodingFailed (fst (deadLetter E p m n original cause failed)) = failed"
  by (simp_all add: deadLetter_def Let_def split: option.splits)

lemma deadLetter_type: "m_EventType (snd (deadLetter E p m n original cause failed)) = DeadLetterEventType"
  by (simp add: deadLetter_def Let_def split: option.splits)

lemma deadLetter_raw:
  "prefix (OriginalData (fst (deadLetter E p m n None cause failed))) (msg_Data m) \<and>
   (OriginalDataTruncated (fst (deadLetter E p m n None cause failed)) \<longleftrightarrow>
      OriginalData (fst (deadLetter E p m n None cause failed)) \<noteq> msg_Data m)"
  by (auto simp: deadLetter_def Let_def take_is_prefix)

text \<open>A dead letter tells what went wrong: its payload encodes the subject, the consumer, the delivery
  count and the reason, and either the whole event whose handler failed, or, for a message that cannot
  be decoded, its bytes up to the configured limit with a flag that says whether they were cut.\<close>

theorem eventbus_dead_letter_content:
  assumes "Published s env q \<in> set (process E p m)"
  shows "\<exists>dl n. marshalDeadLetter E dl = Inr (env_Payload env) \<and> EventType env = DeadLetterEventType \<and>
    s = DeadLetterSubject_cfg (cp_config p) \<and> msg_Metadata m = Inr n \<and> DeliveryCount dl = n \<and>
    OriginalSubject dl = msg_Subject m \<and> dl_Consumer dl = cp_durable p \<and> valid_utf8 (Reason dl) \<and>
    (case unmarshalEnvelope E (msg_Data m) of
       Inr envl \<Rightarrow> OriginalEvent dl = Some envl \<and> \<not> DecodingFailed dl \<and> at_limit p n
     | Inl e \<Rightarrow> DecodingFailed dl \<and> prefix (OriginalData dl) (msg_Data m) \<and>
         (OriginalDataTruncated dl \<longleftrightarrow> OriginalData dl \<noteq> msg_Data m))"
proof (rule process_cases[of m E p])
  fix n e r tr assume c: "msg_Metadata m = Inr n" "unmarshalEnvelope E (msg_Data m) = Inl e"
      "publishDeadLetter E p m n None e True = (r, tr)"
      "process E p m = tr @ (case r of Some x \<Rightarrow> report p x @ retry p m n | None \<Rightarrow> terminate p m ''invalid event envelope'')"
  from c(3) show ?thesis
  proof (cases rule: publishDeadLetter_cases)
    case unbuilt
    with assms c(4) show ?thesis by auto
  next
    case (tried env')
    then have e: "env' = env" "s = DeadLetterSubject_cfg (cp_config p)" using assms c(4) by (cases r; auto)+
    note ne = NewEnvelope_InrD[OF tried(3)[unfolded e]]
    show ?thesis
      using ne(2,9) c(1,2) e(2) deadLetter_raw[of E p m n e True]
      by (intro exI[of _ "fst (deadLetter E p m n None e True)"] exI[of _ n])
        (simp add: deadLetter_fields limitedReason_valid deadLetter_type)
  qed
next
  fix n envl err r tr assume c: "msg_Metadata m = Inr n" "unmarshalEnvelope E (msg_Data m) = Inr envl"
      "at_limit p n" "publishDeadLetter E p m n (Some envl) err False = (r, tr)"
      "process E p m = Handled envl # tr @
         (case r of Some x \<Rightarrow> report p x @ retry p m n | None \<Rightarrow> terminate p m (limitedReason (Some err)))"
  from c(4) show ?thesis
  proof (cases rule: publishDeadLetter_cases)
    case unbuilt
    with assms c(5) show ?thesis by auto
  next
    case (tried env')
    then have e: "env' = env" "s = DeadLetterSubject_cfg (cp_config p)" using assms c(5) by (cases r; auto)+
    note ne = NewEnvelope_InrD[OF tried(3)[unfolded e]]
    show ?thesis
      using ne(2,9) c(1-3) e(2)
      by (intro exI[of _ "fst (deadLetter E p m n (Some envl) err False)"] exI[of _ n])
        (simp add: deadLetter_fields limitedReason_valid deadLetter_type)
  qed
qed (use assms in \<open>auto split: option.splits\<close>)

text \<open>C17. An event without an aggregate id cannot be dead-lettered, because the envelope of the dead letter
  needs one. When a delivery has reached the delivery limit, the handler fails on it and the consumer is not
  stopping, the only settling action is a negative acknowledgement with the retry delay: the message is
  neither acknowledged nor terminated, and no dead letter is published. What becomes of the message then
  is the broker's decision and not part of the statement.\<close>

theorem eventbus_no_aggregate_no_dead_letter:
  assumes "msg_Metadata m = Inr n" "at_limit p n" "\<not> ctxDone E" "unmarshalEnvelope E (msg_Data m) = Inr envl"
    "cp_handler p (message_ctx p envl) envl = Some err" "EventType envl \<noteq> DeadLetterEventType" "AggregateId envl = []"
  shows "filter settles (process E p m) = [Naked (retryDelay p n)] \<and> (\<forall>s env q. Published s env q \<notin> set (process E p m))"
proof -
  let ?d = "deadLetter E p m n (Some envl) err False"
  have "m_AggregateID (snd ?d) = []" using assms(7) by (simp add: deadLetter_def Let_def split: option.splits)
  then have "NewEnvelope (marshalDeadLetter E) (clock_now E) (snd ?d) (Some (fst ?d)) =
      Inl (Msg ''event id, type, aggregate id, and aggregate type are required'')"
    by (simp add: NewEnvelope_def)
  then have pd: "publishDeadLetter E p m n (Some envl) err False = (Some (Wrap ''build dead letter envelope''
      (Msg ''event id, type, aggregate id, and aggregate type are required'')), [])"
    by (auto simp: publishDeadLetter_def split: prod.splits)
  show ?thesis
    by (rule process_cases[of m E p]) (use assms pd in auto)
qed

section \<open>An example\<close>

definition demo_config :: Config_bus where
  "demo_config = \<lparr>URLs = [], ClientName = [], StreamName = [], Subjects = [], Storage = [], MaxAge = 0, DuplicateWindow = 0,
     ConnectTimeout = 0, ReconnectWait = 0, PublishTimeout = 0, ConsumerAckWait = 0, ConsumerAckTimeout = 0,
     ConsumerHandlerTimeout = 0, ConsumerRetryDelay = 0, ConsumerMaxRetryDelay = 0, ConsumerMaxDeliver = 3,
     ConsumerMaxAckPending = 0, DeadLetterSubject_cfg = [], DeadLetterMaxDataBytes = 4\<rparr>"

definition demo_options :: ConsumerOptions where
  "demo_options = \<lparr>Durable = ''billing'', FilterSubject = ''orders.>'', o_Handler = Some (\<lambda>_ _. Some (Msg ''boom''))\<rparr>"

definition demo_bus_processor :: consumerProcessor where
  "demo_bus_processor = \<lparr>cp_config = defaults demo_config, cp_durable = ''billing'',
     cp_handler = (\<lambda>_ _. Some (Msg ''boom'')), cp_onError = False\<rparr>"

definition demo_bus_event :: "string \<Rightarrow> EventEnvelope" where
  "demo_bus_event agg = \<lparr>EventId = ''e1'', EventType = ''order'', AggregateId = agg, AggregateType = ''order'', TenantId = [],
     ApplicationId = [], SchemaVersion = 1, OccurredAt = 0, env_Context = None, env_Payload = []\<rparr>"

text \<open>The bytes of an envelope are its aggregate id here; the byte string \<open>bad\<close> does not decode.\<close>

definition demo_bus_env :: bus_env where
  "demo_bus_env = \<lparr>unmarshalEnvelope = (\<lambda>b. if b = ''bad'' then Inl (Msg ''malformed'') else Inr (demo_bus_event b)),
     marshalDeadLetter = (\<lambda>dl. Inr (OriginalSubject dl)), digest16 = (\<lambda>_. ''00ff''), clock_now = 7,
     publisher = (\<lambda>_ _. None), ctxDone = False\<rparr>"

definition demo_message :: "string \<Rightarrow> consumerMessage" where
  "demo_message b = \<lparr>msg_Data = b, msg_Headers = Map.empty, msg_Subject = ''orders.new'', msg_Metadata = Inr 3,
     msg_ackErr = None, msg_nakErr = None, msg_termErr = None\<rparr>"

theorem eventbus_no_silent_drop_witness:
  "\<exists>pre env post. process demo_bus_env demo_bus_processor (demo_message ''a1'') =
     pre @ Published DeadLetterSubject env None # post \<and> Termed ''boom'' \<in> set post"
proof -
  have t: "Termed ''boom'' \<in> set (process demo_bus_env demo_bus_processor (demo_message ''a1''))" by code_simp
  have c: "DeadLetterSubject_cfg (cp_config demo_bus_processor) = DeadLetterSubject" by code_simp
  show ?thesis
    using eventbus_no_silent_drop[of demo_bus_env demo_bus_processor "demo_message ''a1''" "''boom''"] t
    unfolding c by (auto simp: demo_bus_env_def demo_message_def demo_bus_event_def DeadLetterEventType_def)
qed

theorem eventbus_retry_delay_witness:
  "retryDelay demo_bus_processor 1 = Second \<and> retryDelay demo_bus_processor 40 \<le> Minute"
proof -
  have b: "New_bus None None (\<lambda>_ _. None) demo_config = (Inr \<lparr>b_config = defaults demo_config, b_closed = False\<rparr>, [Connected])"
    by (simp add: New_bus_def Let_def validate_def defaults_def demo_config_def or_default_def duration_defs)
  have c: "ConsumeWithOptions (\<lambda>_. None) None (Some \<lparr>b_config = defaults demo_config, b_closed = False\<rparr>) demo_options False =
      Inr demo_bus_processor"
    by (simp add: ConsumeWithOptions_def demo_options_def demo_bus_processor_def)
  have d: "ConsumerMaxRetryDelay (defaults demo_config) = Minute" "ConsumerRetryDelay (defaults demo_config) = Second"
    by (simp_all add: defaults_def demo_config_def or_default_def)
  have m: "ConsumerMaxRetryDelay (b_config \<lparr>b_config = defaults demo_config, b_closed = False\<rparr>) \<le> max_int64"
    by (simp add: d max_int64_def duration_defs)
  show ?thesis using eventbus_retry_delay[OF b c m, of 40] by (simp add: d)
qed

theorem eventbus_dead_letter_content_witness:
  "\<exists>dl. marshalDeadLetter demo_bus_env dl = Inr ''orders.new'' \<and> DecodingFailed dl \<and> OriginalData dl = ''bad''"
proof -
  let ?env = "\<lparr>EventId = ''dead-letter:billing:00ff'', EventType = DeadLetterEventType, AggregateId = ''00ff'',
     AggregateType = ''event'', TenantId = [], ApplicationId = [], SchemaVersion = 1, OccurredAt = 7,
     env_Context = Some \<lparr>rc_RequestId = [], rc_TraceId = [], rc_ActorId = [], rc_ActorType = [], rc_TenantId = [], rc_MembershipId = []\<rparr>,
     env_Payload = ''orders.new''\<rparr>"
  let ?dl = "fst (deadLetter demo_bus_env demo_bus_processor (demo_message ''bad'') 3 None (Msg ''malformed'') True)"
  have "Published DeadLetterSubject ?env None \<in> set (process demo_bus_env demo_bus_processor (demo_message ''bad''))"
    by code_simp
  from eventbus_dead_letter_content[OF this] have "\<exists>dl. marshalDeadLetter demo_bus_env dl = Inr ''orders.new'' \<and> DecodingFailed dl"
    by (auto simp: demo_bus_env_def demo_message_def)
  moreover have "marshalDeadLetter demo_bus_env ?dl = Inr ''orders.new'' \<and> DecodingFailed ?dl \<and> OriginalData ?dl = ''bad''"
    by code_simp
  ultimately show ?thesis by blast
qed

theorem eventbus_no_aggregate_no_dead_letter_witness:
  "filter settles (process demo_bus_env demo_bus_processor (demo_message [])) = [Naked (retryDelay demo_bus_processor 3)]"
  using eventbus_no_aggregate_no_dead_letter[of "demo_message []" 3 demo_bus_processor demo_bus_env "demo_bus_event []" "Msg ''boom''"]
  by (simp add: demo_message_def demo_bus_processor_def demo_bus_env_def demo_bus_event_def at_limit_def uint64_def
      defaults_def demo_config_def or_default_def DeadLetterEventType_def)

end
