(* ===== verification/Tree_Build.thy ===== *)
theory Tree_Build
  imports Go_Prelude
begin

text \<open>
  Validated tree construction (\<open>src/tree/tree.go\<close>). The nodes are heap objects, one per key,
  so a pointer to a node is its key and the heap maps keys to the node's value and its children.
  Nothing in the type keeps the heap from being cyclic: \<open>Walk\<close> is a partial function, and that
  it returns on a forest that \<open>Build\<close> accepted is a theorem.
\<close>

definition ErrDuplicateID :: goerr where "ErrDuplicateID = Sentinel ''tree contains duplicate id''"
definition ErrMissingParent :: goerr where "ErrMissingParent = Sentinel ''tree contains missing parent''"
definition ErrCycle :: goerr where "ErrCycle = Sentinel ''tree contains cycle''"

record ('t, 'k) Node =
  Value :: 't
  Children :: "'k list"

type_synonym ('t, 'k) heap = "'k \<rightharpoonup> ('t, 'k) Node"

fun makeNodes :: "('t \<Rightarrow> 'k) \<Rightarrow> 't list \<Rightarrow> ('t, 'k) heap \<Rightarrow> goerr + ('t, 'k) heap" where
  "makeNodes key [] nodes = Inr nodes"
| "makeNodes key (item # items) nodes =
     (if nodes (key item) \<noteq> None then Inl ErrDuplicateID
      else makeNodes key items (nodes(key item \<mapsto> \<lparr>Value = item, Children = []\<rparr>)))"

fun linkNodes ::
  "('t \<Rightarrow> 'k) \<Rightarrow> ('t \<Rightarrow> 'k option) \<Rightarrow> 't list \<Rightarrow> 'k list \<Rightarrow> ('t, 'k) heap \<Rightarrow> goerr + ('k list \<times> ('t, 'k) heap)" where
  "linkNodes key parent [] roots nodes = Inr (roots, nodes)"
| "linkNodes key parent (item # items) roots nodes =
     (case parent item of
        None \<Rightarrow> linkNodes key parent items (roots @ [key item]) nodes
      | Some parentKey \<Rightarrow>
          (case nodes parentKey of
             None \<Rightarrow> Inl ErrMissingParent
           | Some n \<Rightarrow>
               linkNodes key parent items roots (nodes(parentKey \<mapsto> n\<lparr>Children := Children n @ [key item]\<rparr>))))"

text \<open>\<open>hasCycle\<close>: the map of parents, later entries first, and the chase from every item.\<close>

definition parentsOf :: "('t \<Rightarrow> 'k) \<Rightarrow> ('t \<Rightarrow> 'k option) \<Rightarrow> 't list \<Rightarrow> ('k \<times> 'k) list" where
  "parentsOf key parent items =
     fold (\<lambda>item ps. case parent item of None \<Rightarrow> ps | Some p \<Rightarrow> (key item, p) # ps) items []"

function chase :: "('k \<times> 'k) list \<Rightarrow> 'k list \<Rightarrow> 'k \<Rightarrow> bool" where
  "chase parents seen current =
     (if current \<in> set seen then True
      else
        (case map_of parents current of
           None \<Rightarrow> False
         | Some nxt \<Rightarrow> chase parents (current # seen) nxt))"
  by pat_completeness auto
termination
proof (relation "measure (\<lambda>(parents, seen, current). card (fst ` set parents - set seen))", simp, goal_cases)
  case (1 parents seen current nxt)
  then have "current \<in> fst ` set parents - set seen" by (force dest: map_of_SomeD)
  then have "card (fst ` set parents - set (current # seen)) < card (fst ` set parents - set seen)"
    by (intro psubset_card_mono) auto
  then show ?case by simp
qed

declare chase.simps [simp del]

definition hasCycle :: "'t list \<Rightarrow> ('t \<Rightarrow> 'k) \<Rightarrow> ('t \<Rightarrow> 'k option) \<Rightarrow> bool" where
  "hasCycle items key parent = list_ex (\<lambda>item. chase (parentsOf key parent items) [] (key item)) items"

definition Build :: "'t list \<Rightarrow> ('t \<Rightarrow> 'k) \<Rightarrow> ('t \<Rightarrow> 'k option) \<Rightarrow> goerr + ('k list \<times> ('t, 'k) heap)" where
  "Build items key parent =
     (case makeNodes key items Map.empty of
        Inl e \<Rightarrow> Inl e
      | Inr nodes \<Rightarrow>
          (case linkNodes key parent items [] nodes of
             Inl e \<Rightarrow> Inl e
           | Inr (roots, nodes') \<Rightarrow>
               if hasCycle items key parent then Inl ErrCycle else Inr (roots, nodes')))"

text \<open>\<open>Walk\<close>; a visitor is a function on a state that says whether to go on. A dangling pointer would panic.\<close>

partial_function (option) Walk ::
  "('t, 'k) heap \<Rightarrow> 'k list \<Rightarrow> ('t \<Rightarrow> 's \<Rightarrow> bool \<times> 's) \<Rightarrow> 's \<Rightarrow> 's option" where
  "Walk h forest visit s =
     (case forest of
        [] \<Rightarrow> Some s
      | k # ks \<Rightarrow>
          (case h k of
             None \<Rightarrow> None
           | Some n \<Rightarrow>
               (case visit (Value n) s of
                  (go, s1) \<Rightarrow>
                    if \<not> go then Some s1
                    else Option.bind (Walk h (Children n) visit s1) (\<lambda>s2. Walk h ks visit s2))))"

definition Flatten :: "('t, 'k) heap \<Rightarrow> 'k list \<Rightarrow> 't list option" where
  "Flatten h forest = Walk h forest (\<lambda>v vs. (True, vs @ [v])) []"

section \<open>What Build accepts\<close>

definition parent_rel :: "'t list \<Rightarrow> ('t \<Rightarrow> 'k) \<Rightarrow> ('t \<Rightarrow> 'k option) \<Rightarrow> ('k \<times> 'k) set" where
  "parent_rel items key parent = {(key x, p) | x p. x \<in> set items \<and> parent x = Some p}"

definition parents_exist :: "'t list \<Rightarrow> ('t \<Rightarrow> 'k) \<Rightarrow> ('t \<Rightarrow> 'k option) \<Rightarrow> bool" where
  "parents_exist items key parent \<longleftrightarrow> (\<forall>x \<in> set items. \<forall>p. parent x = Some p \<longrightarrow> p \<in> key ` set items)"

definition item_of :: "('t \<Rightarrow> 'k) \<Rightarrow> 't list \<Rightarrow> 'k \<Rightarrow> 't option" where
  "item_of key items k = find (\<lambda>x. key x = k) items"

lemma item_of_Some: "item_of key items k = Some x \<Longrightarrow> x \<in> set items \<and> key x = k"
  by (auto simp: item_of_def find_Some_iff)

lemma item_of_None: "item_of key items k = None \<longleftrightarrow> k \<notin> key ` set items"
  by (auto simp: item_of_def find_None_iff)

lemma item_of_key: "distinct (map key items) \<Longrightarrow> x \<in> set items \<Longrightarrow> item_of key items (key x) = Some x"
  by (induction items) (auto simp: item_of_def image_iff)

lemma makeNodes_Inr:
  "makeNodes key items nodes = Inr h \<Longrightarrow>
     distinct (map key items) \<and> (\<forall>x \<in> set items. nodes (key x) = None) \<and>
     (\<forall>k. h k = (case item_of key items k of None \<Rightarrow> nodes k | Some x \<Rightarrow> Some \<lparr>Value = x, Children = []\<rparr>))"
proof (induction items arbitrary: nodes)
  case (Cons x items)
  have "makeNodes key items (nodes(key x \<mapsto> \<lparr>Value = x, Children = []\<rparr>)) = Inr h" "nodes (key x) = None"
    using Cons.prems by (auto split: if_splits)
  from Cons.IH[OF this(1)] this(2) show ?case
    by (auto simp: item_of_def split: if_splits option.splits dest: item_of_Some[unfolded item_of_def])
qed (simp add: item_of_def)

lemma makeNodes_Inl: "makeNodes key items nodes = Inl e \<Longrightarrow> e = ErrDuplicateID"
  by (induction items arbitrary: nodes) (auto split: if_splits)

lemma makeNodes_ok:
  "distinct (map key items) \<Longrightarrow> \<forall>x \<in> set items. nodes (key x) = None \<Longrightarrow> \<exists>h. makeNodes key items nodes = Inr h"
proof (induction items arbitrary: nodes)
  case (Cons x items)
  then have "\<exists>h. makeNodes key items (nodes(key x \<mapsto> \<lparr>Value = x, Children = []\<rparr>)) = Inr h"
    by (intro Cons.IH) (auto, metis imageI)
  with Cons.prems show ?case by simp
qed simp

text \<open>Linking: what is appended to the roots and to the children of a node, in the order of the items.\<close>

definition child_keys :: "('t \<Rightarrow> 'k) \<Rightarrow> ('t \<Rightarrow> 'k option) \<Rightarrow> 't list \<Rightarrow> 'k option \<Rightarrow> 'k list" where
  "child_keys key parent items p = map key (filter (\<lambda>x. parent x = p) items)"

lemma linkNodes_Inr:
  "linkNodes key parent items roots nodes = Inr (roots', h) \<Longrightarrow>
     roots' = roots @ child_keys key parent items None \<and>
     (\<forall>x \<in> set items. \<forall>p. parent x = Some p \<longrightarrow> nodes p \<noteq> None) \<and>
     (\<forall>k. h k = map_option (\<lambda>n. n\<lparr>Children := Children n @ child_keys key parent items (Some k)\<rparr>) (nodes k))"
proof (induction items arbitrary: roots nodes)
  case (Cons x items)
  show ?case
  proof (cases "parent x")
    case None
    with Cons.prems have "linkNodes key parent items (roots @ [key x]) nodes = Inr (roots', h)" by simp
    from Cons.IH[OF this] None show ?thesis by (auto simp: child_keys_def)
  next
    case (Some p)
    with Cons.prems obtain n where n: "nodes p = Some n"
      and l: "linkNodes key parent items roots (nodes(p \<mapsto> n\<lparr>Children := Children n @ [key x]\<rparr>)) = Inr (roots', h)"
      by (auto split: option.splits)
    from Cons.IH[OF l] Some n show ?thesis by (auto simp: child_keys_def split: if_splits)
  qed
next
  case Nil
  then show ?case by (auto simp: child_keys_def option.map_ident)
qed

lemma linkNodes_ok:
  "\<forall>x \<in> set items. \<forall>p. parent x = Some p \<longrightarrow> nodes p \<noteq> None \<Longrightarrow> \<exists>r. linkNodes key parent items roots nodes = Inr r"
proof (induction items arbitrary: roots nodes)
  case (Cons x items)
  then show ?case by (cases "parent x") (auto intro!: Cons.IH)
qed simp

lemma linkNodes_Inl: "linkNodes key parent items roots nodes = Inl e \<Longrightarrow> e = ErrMissingParent"
  by (induction items arbitrary: roots nodes) (auto split: option.splits)

text \<open>The chase decides whether a cycle can be reached.\<close>

definition succ_rel :: "('k \<times> 'k) list \<Rightarrow> ('k \<times> 'k) set" where
  "succ_rel parents = {(x, y). map_of parents x = Some y}"

lemma chase_False:
  assumes "\<not> chase parents seen k"
  shows "(k, a) \<in> (succ_rel parents)\<^sup>* \<Longrightarrow> (a, a) \<notin> (succ_rel parents)\<^sup>+"
  using assms
proof (induction parents seen k arbitrary: a rule: chase.induct)
  case (1 parents seen k)
  let ?R = "succ_rel parents"
  have ns: "k \<notin> set seen" using "1.prems"(2) by (subst (asm) chase.simps) auto
  show ?case
  proof (cases "map_of parents k")
    case None
    then have "(k, b) \<notin> ?R\<^sup>+" for b by (auto dest: tranclD simp: succ_rel_def)
    moreover have "a = k" using "1.prems"(1) None by (auto elim: converse_rtranclE simp: succ_rel_def)
    ultimately show ?thesis by simp
  next
    case (Some nxt)
    then have nc: "\<not> chase parents (k # seen) nxt" using "1.prems"(2) ns by (subst (asm) chase.simps) auto
    note ih = "1.IH"[OF ns Some _ nc]
    have step: "(k, b) \<in> ?R\<^sup>+ \<Longrightarrow> (nxt, b) \<in> ?R\<^sup>*" for b using Some by (auto dest!: tranclD simp: succ_rel_def)
    show ?thesis
    proof
      assume aa: "(a, a) \<in> ?R\<^sup>+"
      from "1.prems"(1) have "(nxt, a) \<in> ?R\<^sup>*"
      proof (cases rule: converse_rtranclE)
        case base
        with aa step show ?thesis by simp
      next
        case (step y)
        with Some show ?thesis by (simp add: succ_rel_def)
      qed
      from ih[OF this] aa show False by simp
    qed
  qed
qed

lemma chase_True:
  assumes "chase parents seen k" "\<forall>s \<in> set seen. (s, k) \<in> (succ_rel parents)\<^sup>+"
  shows "\<not> acyclic (succ_rel parents)"
  using assms
proof (induction parents seen k rule: chase.induct)
  case (1 parents seen k)
  show ?case
  proof (cases "k \<in> set seen")
    case True
    with "1.prems"(2) show ?thesis by (auto simp: acyclic_def)
  next
    case False
    with "1.prems"(1) obtain nxt where n: "map_of parents k = Some nxt" "chase parents (k # seen) nxt"
      by (subst (asm) chase.simps) (auto split: option.splits)
    have "\<forall>s \<in> set (k # seen). (s, nxt) \<in> (succ_rel parents)\<^sup>+"
      using "1.prems"(2) n(1) by (auto intro: trancl_into_trancl simp: succ_rel_def)
    from "1.IH"[OF False n(1) n(2) this] show ?thesis .
  qed
qed

lemma set_parentsOf: "set (parentsOf key parent items) = parent_rel items key parent"
proof -
  have "set (fold (\<lambda>item ps. case parent item of None \<Rightarrow> ps | Some p \<Rightarrow> (key item, p) # ps) items acc) =
        set acc \<union> parent_rel items key parent" for acc
    by (induction items arbitrary: acc) (auto simp: parent_rel_def split: option.splits)
  then show ?thesis by (simp add: parentsOf_def)
qed

lemma parent_rel_single:
  assumes "distinct (map key items)"
  shows "single_valued (parent_rel items key parent)"
  using assms by (auto simp: single_valued_def parent_rel_def distinct_map inj_on_def)

lemma succ_parentsOf:
  assumes "distinct (map key items)"
  shows "succ_rel (parentsOf key parent items) = parent_rel items key parent"
proof -
  have "map_of (parentsOf key parent items) k = Some p \<longleftrightarrow> (k, p) \<in> parent_rel items key parent" for k p
  proof
    assume "map_of (parentsOf key parent items) k = Some p"
    then show "(k, p) \<in> parent_rel items key parent" using map_of_SomeD set_parentsOf by fastforce
  next
    assume kp: "(k, p) \<in> parent_rel items key parent"
    then obtain q where q: "map_of (parentsOf key parent items) k = Some q"
      using set_parentsOf by (metis weak_map_of_SomeI)
    then have "(k, q) \<in> parent_rel items key parent" using map_of_SomeD set_parentsOf by fastforce
    with kp q show "map_of (parentsOf key parent items) k = Some p"
      using parent_rel_single[OF assms, of parent] by (auto simp: single_valued_def)
  qed
  then show ?thesis by (auto simp: succ_rel_def)
qed

lemma hasCycle_iff:
  assumes "distinct (map key items)"
  shows "hasCycle items key parent \<longleftrightarrow> \<not> acyclic (parent_rel items key parent)"
proof
  assume "hasCycle items key parent"
  then obtain x where "chase (parentsOf key parent items) [] (key x)" by (auto simp: hasCycle_def list_ex_iff)
  from chase_True[OF this] show "\<not> acyclic (parent_rel items key parent)" by (simp add: succ_parentsOf[OF assms])
next
  assume "\<not> acyclic (parent_rel items key parent)"
  then obtain a where a: "(a, a) \<in> (parent_rel items key parent)\<^sup>+" by (auto simp: acyclic_def)
  then obtain x where x: "x \<in> set items" "key x = a" by (auto dest!: tranclD simp: parent_rel_def)
  have "chase (parentsOf key parent items) [] (key x)"
  proof (rule ccontr)
    assume "\<not> chase (parentsOf key parent items) [] (key x)"
    from chase_False[OF this, of a] a x(2) show False by (simp add: succ_parentsOf[OF assms])
  qed
  with x(1) show "hasCycle items key parent" by (auto simp: hasCycle_def list_ex_iff)
qed

text \<open>The heap that Build returns.\<close>

lemma Build_Inr:
  assumes "Build items key parent = Inr (roots, h)"
  shows "distinct (map key items)" "parents_exist items key parent" "acyclic (parent_rel items key parent)"
    "roots = child_keys key parent items None"
    "h k = map_option (\<lambda>x. \<lparr>Value = x, Children = child_keys key parent items (Some k)\<rparr>) (item_of key items k)"
proof -
  obtain nodes where m: "makeNodes key items Map.empty = Inr nodes" and l: "linkNodes key parent items [] nodes = Inr (roots, h)"
    and c: "\<not> hasCycle items key parent"
    using assms by (auto simp: Build_def split: sum.splits prod.splits if_splits)
  note mm = makeNodes_Inr[OF m] and ll = linkNodes_Inr[OF l]
  show d: "distinct (map key items)" using mm by blast
  show "acyclic (parent_rel items key parent)" using c hasCycle_iff[OF d] by blast
  show "roots = child_keys key parent items None" using ll by simp
  have n: "nodes k = map_option (\<lambda>x. \<lparr>Value = x, Children = []\<rparr>) (item_of key items k)" for k
    using mm by (auto split: option.splits)
  have "p \<in> key ` set items" if "x \<in> set items" "parent x = Some p" for x p
  proof -
    have "item_of key items p \<noteq> None" using ll n[of p] that by fastforce
    then show ?thesis unfolding item_of_None by blast
  qed
  then show "parents_exist items key parent" unfolding parents_exist_def by blast
  show "h k = map_option (\<lambda>x. \<lparr>Value = x, Children = child_keys key parent items (Some k)\<rparr>) (item_of key items k)"
    using ll n by (cases "item_of key items k") auto
qed

text \<open>C18. Build accepts exactly the flat lists that are forests: unique ids, existing parents, no cycle. Otherwise it
  returns the error that names the first of these that fails.\<close>

theorem tree_build_accepts:
  "case Build items key parent of
     Inr _ \<Rightarrow> distinct (map key items) \<and> parents_exist items key parent \<and> acyclic (parent_rel items key parent)
   | Inl e \<Rightarrow> e = (if \<not> distinct (map key items) then ErrDuplicateID
                   else if \<not> parents_exist items key parent then ErrMissingParent else ErrCycle) \<and>
              \<not> (distinct (map key items) \<and> parents_exist items key parent \<and> acyclic (parent_rel items key parent))"
proof (cases "Build items key parent")
  case (Inr rh)
  then show ?thesis using Build_Inr(1-3)[of items key parent "fst rh" "snd rh"] by simp
next
  case (Inl e)
  show ?thesis
  proof (cases "makeNodes key items Map.empty")
    case mk: (Inl e')
    then have "\<not> distinct (map key items)" using makeNodes_ok[of key items Map.empty] by auto
    then show ?thesis using Inl mk makeNodes_Inl[OF mk] by (simp add: Build_def)
  next
    case mk: (Inr nodes)
    note mm = makeNodes_Inr[OF mk]
    then have d: "distinct (map key items)" by blast
    have n: "nodes p = None \<longleftrightarrow> p \<notin> key ` set items" for p
      using mm item_of_None[of key items p] by (auto split: option.splits)
    show ?thesis
    proof (cases "linkNodes key parent items [] nodes")
      case li: (Inl e')
      then have "\<not> parents_exist items key parent"
        using linkNodes_ok[of items parent nodes key "[]"] n by (auto simp: parents_exist_def)
      then show ?thesis using Inl mk li d linkNodes_Inl[OF li] by (simp add: Build_def)
    next
      case li: (Inr rh)
      then have "parents_exist items key parent"
        using linkNodes_Inr[of key parent items "[]" nodes "fst rh" "snd rh"] n by (auto simp: parents_exist_def)
      then show ?thesis
        using Inl mk li d hasCycle_iff[OF d, of parent] by (auto simp: Build_def split: prod.splits if_splits)
    qed
  qed
qed

section \<open>Flatten\<close>

definition collect :: "'t \<Rightarrow> 't list \<Rightarrow> bool \<times> 't list" where
  "collect v vs = (True, vs @ [v])"

lemma Walk_Nil: "Walk h [] visit s = Some s"
  by (subst Walk.simps) simp

lemma Walk_collect_Cons:
  "Walk h (k # ks) collect acc =
     (case h k of None \<Rightarrow> None
      | Some n \<Rightarrow> Option.bind (Walk h (Children n) collect (acc @ [Value n])) (\<lambda>s. Walk h ks collect s))"
  by (subst Walk.simps) (cases "h k"; simp add: collect_def)

lemma Walk_collect_split:
  "Walk h (k # ks) collect acc = Option.bind (Walk h [k] collect acc) (\<lambda>s. Walk h ks collect s)"
  by (cases "h k") (simp_all add: Walk_collect_Cons Walk_Nil[abs_def])

text \<open>Visiting several trees collects what visiting each of them does.\<close>

lemma Walk_collect_list:
  assumes "\<And>k acc. k \<in> set ks \<Longrightarrow> \<exists>vs. Walk h [k] collect acc = Some (acc @ vs) \<and> mset vs = m k"
  shows "\<exists>vs. Walk h ks collect acc = Some (acc @ vs) \<and> mset vs = (\<Sum>k\<leftarrow>ks. m k)"
  using assms
proof (induction ks arbitrary: acc)
  case (Cons k ks)
  obtain vs where vs: "Walk h [k] collect acc = Some (acc @ vs)" "mset vs = m k" using Cons.prems by force
  obtain ws where ws: "Walk h ks collect (acc @ vs) = Some ((acc @ vs) @ ws)" "mset ws = (\<Sum>k\<leftarrow>ks. m k)"
    using Cons.IH[of "acc @ vs"] Cons.prems by force
  show ?case
    by (intro exI[of _ "vs @ ws"]) (simp add: Walk_collect_split[of h k ks] vs ws)
qed (simp add: Walk_Nil)

text \<open>Disjoint selections add up.\<close>

lemma mset_filter_or:
  "(\<And>x. A x \<Longrightarrow> \<not> B x) \<Longrightarrow> mset (filter (\<lambda>x. A x \<or> B x) xs) = mset (filter A xs) + mset (filter B xs)"
  by (induction xs) auto

lemma mset_filter_disjoint:
  assumes "distinct ks" "\<And>a b x. a \<in> set ks \<Longrightarrow> b \<in> set ks \<Longrightarrow> P a x \<Longrightarrow> P b x \<Longrightarrow> a = b"
  shows "(\<Sum>k\<leftarrow>ks. mset (filter (P k) xs)) = mset (filter (\<lambda>x. \<exists>k \<in> set ks. P k x) xs)"
  using assms
proof (induction ks)
  case (Cons k ks)
  have "\<not> (\<exists>j \<in> set ks. P j x)" if "P k x" for x using that Cons.prems by auto
  then have "mset (filter (\<lambda>x. P k x \<or> (\<exists>j \<in> set ks. P j x)) xs) =
      mset (filter (P k) xs) + mset (filter (\<lambda>x. \<exists>j \<in> set ks. P j x) xs)"
    by (rule mset_filter_or)
  moreover have "(\<Sum>k\<leftarrow>ks. mset (filter (P k) xs)) = mset (filter (\<lambda>x. \<exists>k \<in> set ks. P k x) xs)"
    using Cons.prems by (intro Cons.IH) auto
  ultimately show ?case by simp
qed simp

lemma filter_single: "distinct xs \<Longrightarrow> x0 \<in> set xs \<Longrightarrow> filter (\<lambda>x. x = x0) xs = [x0]"
  by (induction xs) (auto simp: filter_empty_conv)

definition below :: "'t list \<Rightarrow> ('t \<Rightarrow> 'k) \<Rightarrow> ('t \<Rightarrow> 'k option) \<Rightarrow> 'k \<Rightarrow> 't \<Rightarrow> bool" where
  "below items key parent k x \<longleftrightarrow> (key x, k) \<in> (parent_rel items key parent)\<^sup>*"

lemma below_child:
  assumes "distinct (map key items)" "item_of key items k = Some x0" "x \<in> set items"
  shows "below items key parent k x \<longleftrightarrow> x = x0 \<or> (\<exists>c \<in> set (child_keys key parent items (Some k)). below items key parent c x)"
proof
  assume "below items key parent k x"
  then have "(key x, k) \<in> (parent_rel items key parent)\<^sup>*" by (simp add: below_def)
  then show "x = x0 \<or> (\<exists>c \<in> set (child_keys key parent items (Some k)). below items key parent c x)"
  proof (cases rule: rtranclE)
    case base
    then show ?thesis using item_of_key[OF assms(1,3)] assms(2) by simp
  next
    case (step c)
    then have "c \<in> set (child_keys key parent items (Some k))" by (auto simp: parent_rel_def child_keys_def)
    with step show ?thesis by (auto simp: below_def)
  qed
next
  assume "x = x0 \<or> (\<exists>c \<in> set (child_keys key parent items (Some k)). below items key parent c x)"
  then show "below items key parent k x"
    using item_of_Some[OF assms(2)]
    by (auto simp: below_def child_keys_def parent_rel_def intro: rtrancl_into_rtrancl)
qed

lemma siblings_disjoint:
  assumes "distinct (map key items)" "acyclic (parent_rel items key parent)"
    and "a \<in> set (child_keys key parent items p)" "b \<in> set (child_keys key parent items p)"
    and "below items key parent a x" "below items key parent b x"
  shows "a = b"
proof (rule ccontr)
  let ?P = "parent_rel items key parent"
  assume "a \<noteq> b"
  have sv: "single_valued ?P" by (rule parent_rel_single[OF assms(1)])
  have nb: False if ab: "a \<noteq> b" "(a, b) \<in> ?P\<^sup>*" and ka: "a \<in> set (child_keys key parent items p)"
    and kb: "b \<in> set (child_keys key parent items p)" for a b
  proof -
    from ab obtain c where c: "(a, c) \<in> ?P" "(c, b) \<in> ?P\<^sup>*" by (metis converse_rtranclE)
    obtain y where y: "y \<in> set items" "key y = a" "parent y = p" using ka by (auto simp: child_keys_def)
    have "p = Some c"
      using c(1) y assms(1) by (auto simp: parent_rel_def distinct_map inj_on_def)
    then have "(b, c) \<in> ?P" using kb by (auto simp: child_keys_def parent_rel_def)
    with c(2) have "(c, c) \<in> ?P\<^sup>+" by (rule rtrancl_into_trancl1)
    then show False using assms(2) by (auto simp: acyclic_def)
  qed
  have "(a, b) \<in> ?P\<^sup>* \<or> (b, a) \<in> ?P\<^sup>*"
    using single_valued_confluent[OF sv] assms(5,6) unfolding below_def by blast
  then show False using nb[of a b] nb[of b a] assms(3,4) \<open>a \<noteq> b\<close> by blast
qed

lemma child_keys_distinct: "distinct (map key items) \<Longrightarrow> distinct (child_keys key parent items p)"
  by (simp add: child_keys_def distinct_map_filter)

text \<open>Visiting a node collects exactly the items below it.\<close>

lemma Walk_below:
  assumes b: "Build items key parent = Inr (roots, h)" and "k \<in> key ` set items"
  shows "\<exists>vs. Walk h [k] collect acc = Some (acc @ vs) \<and> mset vs = mset (filter (below items key parent k) items)"
proof -
  let ?P = "parent_rel items key parent" and ?ch = "\<lambda>k. child_keys key parent items (Some k)"
  note d = Build_Inr(1)[OF b] and ac = Build_Inr(3)[OF b]
  have "finite ?P"
    by (rule finite_subset[of _ "(\<lambda>x. (key x, the (parent x))) ` set items"]) (force simp: parent_rel_def, simp)
  then have "wf ?P" using ac by (rule finite_acyclic_wf)
  then show ?thesis using assms(2)
  proof (induction k arbitrary: acc rule: wf_induct_rule)
    case (less k)
    obtain x0 where x0: "item_of key items k = Some x0" using less.prems item_of_None[of key items k] by fastforce
    have hk: "h k = Some \<lparr>Value = x0, Children = ?ch k\<rparr>" using Build_Inr(5)[OF b, of k] x0 by simp
    have ch: "(c, k) \<in> ?P \<and> c \<in> key ` set items" if "c \<in> set (?ch k)" for c
      using that by (auto simp: child_keys_def parent_rel_def)
    obtain vs where vs: "Walk h (?ch k) collect (acc @ [x0]) = Some ((acc @ [x0]) @ vs)"
        "mset vs = (\<Sum>c\<leftarrow>?ch k. mset (filter (below items key parent c) items))"
      using Walk_collect_list[of "?ch k" h "\<lambda>c. mset (filter (below items key parent c) items)" "acc @ [x0]"]
        less.IH ch by blast
    let ?Q = "\<lambda>x. \<exists>c \<in> set (?ch k). below items key parent c x"
    have sum: "mset vs = mset (filter ?Q items)"
      unfolding vs(2) by (rule mset_filter_disjoint[OF child_keys_distinct[OF d] siblings_disjoint[OF d ac]])
    have nq: "\<not> ?Q x0"
    proof
      assume "?Q x0"
      then obtain c where c: "c \<in> set (?ch k)" "(k, c) \<in> ?P\<^sup>*" using item_of_Some[OF x0] by (auto simp: below_def)
      then have "(k, k) \<in> ?P\<^sup>+" using ch[OF c(1)] by (auto intro: rtrancl_into_trancl1)
      then show False using ac by (auto simp: acyclic_def)
    qed
    have "filter (below items key parent k) items = filter (\<lambda>x. x = x0 \<or> ?Q x) items"
      using below_child[OF d x0] by (intro filter_cong refl) blast
    moreover have "mset (filter (\<lambda>x. x = x0 \<or> ?Q x) items) = mset (filter (\<lambda>x. x = x0) items) + mset (filter ?Q items)"
      using nq by (intro mset_filter_or) blast
    moreover have "filter (\<lambda>x. x = x0) items = [x0]"
      using d item_of_Some[OF x0] by (intro filter_single) (auto simp: distinct_map)
    ultimately have "mset (x0 # vs) = mset (filter (below items key parent k) items)" using sum by simp
    then show ?case
      using vs(1) hk by (intro exI[of _ "x0 # vs"]) (simp add: Walk_collect_Cons Walk_Nil[abs_def])
  qed
qed

text \<open>C19. On a forest that Build accepted, Flatten returns, and returns every item exactly once. The roots and the
  children of every node are in the order of the items.\<close>

theorem tree_flatten_complete:
  assumes "Build items key parent = Inr (roots, h)"
  shows "\<exists>vs. Flatten h roots = Some vs \<and> mset vs = mset items \<and> roots = map key (filter (\<lambda>x. parent x = None) items) \<and>
    (\<forall>x \<in> set items. h (key x) = Some \<lparr>Value = x, Children = map key (filter (\<lambda>y. parent y = Some (key x)) items)\<rparr>)"
proof -
  let ?P = "parent_rel items key parent"
  note d = Build_Inr(1)[OF assms] and ac = Build_Inr(3)[OF assms] and r = Build_Inr(4)[OF assms]
  have sub: "k \<in> key ` set items" if "k \<in> set roots" for k using that r by (auto simp: child_keys_def)
  obtain vs where vs: "Walk h roots collect [] = Some vs"
      "mset vs = (\<Sum>k\<leftarrow>roots. mset (filter (below items key parent k) items))"
    using Walk_collect_list[of roots h "\<lambda>k. mset (filter (below items key parent k) items)" "[]"]
      Walk_below[OF assms sub] by auto
  have sum: "mset vs = mset (filter (\<lambda>x. \<exists>k \<in> set roots. below items key parent k x) items)"
    unfolding vs(2) r by (rule mset_filter_disjoint[OF child_keys_distinct[OF d] siblings_disjoint[OF d ac]])
  have "finite ?P"
    by (rule finite_subset[of _ "(\<lambda>x. (key x, the (parent x))) ` set items"]) (force simp: parent_rel_def, simp)
  then have "wf (?P\<inverse>)" using ac by (intro finite_acyclic_wf) (simp_all add: acyclic_converse)
  then have up: "\<exists>k \<in> set roots. (key x, k) \<in> ?P\<^sup>*" if "x \<in> set items" for x
    using that
  proof (induction "key x" arbitrary: x rule: wf_induct_rule)
    case less
    show ?case
    proof (cases "parent x")
      case None
      with less.prems show ?thesis by (auto simp: r child_keys_def)
    next
      case (Some q)
      then obtain y where y: "y \<in> set items" "key y = q"
        using Build_Inr(2)[OF assms] less.prems by (auto simp: parents_exist_def)
      have e: "(key x, q) \<in> ?P" using Some less.prems by (auto simp: parent_rel_def)
      with less.hyps[of y] y obtain k where "k \<in> set roots" "(q, k) \<in> ?P\<^sup>*" by auto
      with e show ?thesis by (meson converse_rtrancl_into_rtrancl)
    qed
  qed
  then have "filter (\<lambda>x. \<exists>k \<in> set roots. below items key parent k x) items = items"
    by (simp add: below_def)
  then have "mset vs = mset items" using sum by simp
  with vs(1) r show ?thesis
    using Build_Inr(5)[OF assms] item_of_key[OF d] by (auto simp: Flatten_def collect_def[abs_def] child_keys_def)
qed

definition demo_items :: "(string \<times> string) list" where
  "demo_items = [(''root'', []), (''a'', ''root''), (''b'', ''root''), (''c'', ''a'')]"

definition demo_parent :: "string \<times> string \<Rightarrow> string option" where
  "demo_parent x = (if snd x = [] then None else Some (snd x))"

theorem tree_flatten_complete_witness:
  "\<exists>roots h vs. Build demo_items fst demo_parent = Inr (roots, h) \<and> roots = [''root''] \<and> Flatten h roots = Some vs \<and> mset vs = mset demo_items"
proof -
  have ok: "case Build demo_items fst demo_parent of Inl e \<Rightarrow> False | Inr x \<Rightarrow> fst x = [''root'']" by code_simp
  then obtain roots h where b: "Build demo_items fst demo_parent = Inr (roots, h)"
    by (cases "Build demo_items fst demo_parent") auto
  from tree_flatten_complete[OF b] b ok show ?thesis by auto
qed

end
