(* ===== verification/Discovery.thy ===== *)
theory Discovery
  imports Go_Prelude
begin

text \<open>
  Cached service discovery (\<open>src/serviceregistry/discovery.go\<close>). The registry is a parameter:
  what its calls return. The state is the snapshot, the ejected instances, the cursor, and what the
  snapshot store holds. Go iterates over a map in an arbitrary order, so the order is a parameter too.
\<close>

section \<open>Types\<close>

definition ErrNoHealthyInstance :: goerr where
  "ErrNoHealthyInstance = Sentinel ''no healthy service instance''"

text \<open>The status of an instance: the two values the code names, and the others.\<close>

datatype InstanceStatus = Healthy | Draining | OtherStatus int

record ServiceInstance =
  InstanceId :: string
  si_ServiceName :: string
  Status :: InstanceStatus
  Weight :: nat

record Snapshot =
  Revision :: nat
  SavedAt :: int
  Instances_snap :: "ServiceInstance list"

text \<open>\<open>SnapshotStore\<close> says whether a store is configured; its contents are part of the state.\<close>

record DiscoveryConfig =
  ServiceName :: string
  Selector :: "(string \<times> string) list"
  MaxStale :: int
  RefreshInterval :: int
  dc_RetryMin :: int
  dc_RetryMax :: int
  SnapshotStore :: bool

record Discovery =
  d_config :: DiscoveryConfig
  snapshot :: "Snapshot option"
  ejected :: "string \<rightharpoonup> int"
  cursor :: nat
  saved :: "string \<rightharpoonup> Snapshot"

datatype ChangeType = Delete | OtherChange int

record InstanceChange =
  ch_Type :: ChangeType
  ch_InstanceId :: string
  ch_Instance :: "ServiceInstance option"

record WatchServiceResponse =
  w_Revision :: nat
  Changes :: "InstanceChange list"

section \<open>Operations\<close>

definition NewDiscovery :: "bool \<Rightarrow> DiscoveryConfig \<Rightarrow> (string \<rightharpoonup> Snapshot) \<Rightarrow> goerr + Discovery" where
  "NewDiscovery client config disk =
     (if \<not> client \<or> (ServiceName config = [] \<and> Selector config = [])
      then Inl (Msg ''registry client and service name or selector are required'')
      else
        (let stale = (if MaxStale config = 0 then 2 * Minute else MaxStale config);
             refresh = (if RefreshInterval config = 0 then go_div stale 2 else RefreshInterval config)
         in if refresh \<le> 0 \<or> refresh \<ge> stale
            then Inl (Msg ''refresh interval must be positive and shorter than max stale'')
            else Inr \<lparr>d_config = config\<lparr>MaxStale := stale, RefreshInterval := refresh,
                        dc_RetryMin := (if dc_RetryMin config = 0 then 250 * Millisecond else dc_RetryMin config),
                        dc_RetryMax := (if dc_RetryMax config = 0 then 10 * Second else dc_RetryMax config)\<rparr>,
                      snapshot = None, ejected = Map.empty, cursor = 0, saved = disk\<rparr>))"

text \<open>\<open>persistLocked\<close>: an error of \<open>Save\<close> is ignored; \<open>ok\<close> says whether it took effect.\<close>

definition persistLocked :: "bool \<Rightarrow> Discovery \<Rightarrow> Discovery" where
  "persistLocked ok d =
     (case snapshot d of
        Some s \<Rightarrow> if SnapshotStore (d_config d) \<and> ok then d\<lparr>saved := (saved d)(ServiceName (d_config d) \<mapsto> s)\<rparr> else d
      | None \<Rightarrow> d)"

definition replace :: "bool \<Rightarrow> Snapshot \<Rightarrow> Discovery \<Rightarrow> Discovery" where
  "replace ok s d = persistLocked ok (d\<lparr>snapshot := Some s\<rparr>)"

definition restore :: "int \<Rightarrow> bool \<Rightarrow> Discovery \<Rightarrow> goerr option \<times> Discovery" where
  "restore now ok d =
     (if \<not> SnapshotStore (d_config d) then (None, d)
      else
        (case saved d (ServiceName (d_config d)) of
           None \<Rightarrow> (Some (Ext ''file does not exist'' []), d)
         | Some s \<Rightarrow>
             if now - SavedAt s \<le> MaxStale (d_config d) then (None, replace ok s d) else (None, d)))"

definition refresh :: "int \<Rightarrow> bool \<Rightarrow> goerr + (nat \<times> ServiceInstance list) \<Rightarrow> Discovery \<Rightarrow> goerr option \<times> Discovery" where
  "refresh now ok answer d =
     (case answer of
        Inl e \<Rightarrow> (Some e, d)
      | Inr (revision, instances) \<Rightarrow>
          (None, replace ok \<lparr>Revision = revision, SavedAt = now, Instances_snap = instances\<rparr> d))"

text \<open>The map of \<open>apply\<close> as a list of entries without repeated keys, in the order of their insertion.\<close>

definition put :: "string \<Rightarrow> 'v \<Rightarrow> (string \<times> 'v) list \<Rightarrow> (string \<times> 'v) list" where
  "put k v m = filter (\<lambda>e. fst e \<noteq> k) m @ [(k, v)]"

definition change :: "InstanceChange \<Rightarrow> (string \<times> ServiceInstance) list \<Rightarrow> (string \<times> ServiceInstance) list" where
  "change c m =
     (if ch_Type c = Delete then filter (\<lambda>e. fst e \<noteq> ch_InstanceId c) m
      else case ch_Instance c of None \<Rightarrow> m | Some i \<Rightarrow> put (ch_InstanceId c) i m)"

definition current_values :: "Discovery \<Rightarrow> (string \<times> ServiceInstance) list" where
  "current_values d =
     (case snapshot d of None \<Rightarrow> [] | Some s \<Rightarrow> fold (\<lambda>i. put (InstanceId i) i) (Instances_snap s) [])"

definition apply_change ::
  "((string \<times> ServiceInstance) list \<Rightarrow> (string \<times> ServiceInstance) list) \<Rightarrow> int \<Rightarrow> bool \<Rightarrow> WatchServiceResponse \<Rightarrow> Discovery \<Rightarrow> Discovery" where
  "apply_change iter now ok response d =
     (let values = fold change (Changes response) (current_values d);
          instances = sort_key InstanceId (map snd (iter values))
      in persistLocked ok (d\<lparr>snapshot := Some \<lparr>Revision = w_Revision response, SavedAt = now, Instances_snap = instances\<rparr>\<rparr>))"

text \<open>\<open>watch\<close>: the responses received, each at its time, until the stream ends with an error.\<close>

definition watch ::
  "((string \<times> ServiceInstance) list \<Rightarrow> (string \<times> ServiceInstance) list) \<Rightarrow>
   goerr + ((int \<times> bool \<times> WatchServiceResponse) list \<times> goerr) \<Rightarrow> Discovery \<Rightarrow> goerr \<times> Discovery" where
  "watch iter stream d =
     (case stream of
        Inl e \<Rightarrow> (e, d)
      | Inr (responses, recvErr) \<Rightarrow> (recvErr, fold (\<lambda>(now, ok, r). apply_change iter now ok r) responses d))"

definition usable :: "int \<Rightarrow> Discovery \<Rightarrow> ServiceInstance \<Rightarrow> bool" where
  "usable now d i \<longleftrightarrow> Status i = Healthy \<and> (case ejected d (InstanceId i) of None \<Rightarrow> True | Some t \<Rightarrow> \<not> t > now)"

text \<open>\<open>now.Sub(SavedAt) > MaxStale\<close>, or no snapshot at all.\<close>

definition stale :: "int \<Rightarrow> Discovery \<Rightarrow> bool" where
  "stale now d = (case snapshot d of None \<Rightarrow> True | Some s \<Rightarrow> now - SavedAt s > MaxStale (d_config d))"

definition available :: "int \<Rightarrow> Discovery \<Rightarrow> ServiceInstance list" where
  "available now d =
     concat (map (\<lambda>i. if usable now d i then replicate (if Weight i = 0 then 1 else Weight i) i else [])
       (Instances_snap (the (snapshot d))))"

text \<open>The cursor is a 64-bit counter: \<open>Add(1) - 1\<close>, modulo the number of entries.\<close>

definition Pick :: "int \<Rightarrow> Discovery \<Rightarrow> (goerr + ServiceInstance) \<times> Discovery" where
  "Pick now d =
     (if stale now d then (Inl ErrNoHealthyInstance, d)
      else if available now d = [] then (Inl ErrNoHealthyInstance, d)
      else
        (let c = (cursor d + 1) mod 2 ^ 64; index = (c + 2 ^ 64 - 1) mod 2 ^ 64
         in (Inr (available now d ! (index mod length (available now d))), d\<lparr>cursor := c\<rparr>)))"

definition Instances :: "int \<Rightarrow> Discovery \<Rightarrow> goerr + ServiceInstance list" where
  "Instances now d =
     (if stale now d then Inl ErrNoHealthyInstance
      else
        (let result = filter (usable now d) (Instances_snap (the (snapshot d)))
         in if result = [] then Inl ErrNoHealthyInstance else Inr result))"

definition ReportFailure :: "int \<Rightarrow> string \<Rightarrow> int \<Rightarrow> Discovery \<Rightarrow> Discovery" where
  "ReportFailure now i cooldown d = d\<lparr>ejected := (ejected d)(i \<mapsto> now + cooldown)\<rparr>"

definition ReportSuccess :: "string \<Rightarrow> Discovery \<Rightarrow> Discovery" where
  "ReportSuccess i d = d\<lparr>ejected := (ejected d)(i := None)\<rparr>"

text \<open>
  \<open>Run\<close>: what each round of the loop meets. \<open>Done\<close> ends it: the context's error at the loop
  head or a wait that the context cuts short. The recorded waits are the backoffs.
\<close>

record round =
  rd_done :: bool
  rd_now :: int
  rd_saveOk :: bool
  rd_list :: "goerr + (nat \<times> ServiceInstance list)"
  rd_stream :: "goerr + ((int \<times> bool \<times> WatchServiceResponse) list \<times> goerr)"
  rd_doneAfter :: bool
  rd_waited :: bool

fun runRounds ::
  "((string \<times> ServiceInstance) list \<Rightarrow> (string \<times> ServiceInstance) list) \<Rightarrow> round list \<Rightarrow> int \<Rightarrow> Discovery \<Rightarrow> int list \<times> Discovery" where
  "runRounds iter [] backoff d = ([], d)"
| "runRounds iter (r # rs) backoff d =
     (if rd_done r then ([], d)
      else
        (case refresh (rd_now r) (rd_saveOk r) (rd_list r) d of
           (Some e, d1) \<Rightarrow>
             if \<not> rd_waited r then ([backoff], d1)
             else
               (let (ws, d2) = runRounds iter rs (min (wrap64 (backoff * 2)) (dc_RetryMax (d_config d))) d1
                in (backoff # ws, d2))
         | (None, d1) \<Rightarrow>
             (let b = dc_RetryMin (d_config d); (e, d2) = watch iter (rd_stream r) d1
              in if rd_doneAfter r then ([], d2)
                 else if \<not> rd_waited r then ([b], d2)
                 else
                   (let (ws, d3) = runRounds iter rs (min (wrap64 (b * 2)) (dc_RetryMax (d_config d))) d2
                    in (b # ws, d3)))))"

definition Run_discovery ::
  "((string \<times> ServiceInstance) list \<Rightarrow> (string \<times> ServiceInstance) list) \<Rightarrow> int \<Rightarrow> bool \<Rightarrow> round list \<Rightarrow> Discovery \<Rightarrow> int list \<times> Discovery" where
  "Run_discovery iter now ok rounds d =
     (let (e, d1) = restore now ok d in runRounds iter rounds (dc_RetryMin (d_config d)) d1)"

section \<open>The file store\<close>

text \<open>
  \<open>FileSnapshotStore.Save\<close> on a directory, a map from file names to contents; \<open>tmp\<close> is the
  fresh name that \<open>CreateTemp\<close> chooses. Every step may fail; a failed write may leave any bytes
  in the temporary file. The result is the error and the states the directory passes through, the
  last one at the end: a process that is killed leaves one of them.
\<close>

record save_env =
  sv_mkdirErr :: "goerr option"
  sv_createErr :: "goerr option"
  sv_chmodErr :: "goerr option"
  sv_writeErr :: "(goerr \<times> string) option"
  sv_closeErr :: "goerr option"
  sv_renameErr :: "goerr option"
  sv_tmp :: string

definition Save ::
  "('s \<Rightarrow> goerr + string) \<Rightarrow> save_env \<Rightarrow> string \<Rightarrow> 's \<Rightarrow> (string \<rightharpoonup> string) \<Rightarrow> (goerr option \<times> (string \<rightharpoonup> string) list)" where
  "Save marshal E service snap files =
     (case sv_mkdirErr E of
        Some e \<Rightarrow> (Some e, [files])
      | None \<Rightarrow>
        (case marshal snap of
           Inl e \<Rightarrow> (Some e, [files])
         | Inr payload \<Rightarrow>
           (case sv_createErr E of
              Some e \<Rightarrow> (Some e, [files])
            | None \<Rightarrow>
              (let target = service @ ''.json'';
                   f1 = files(sv_tmp E \<mapsto> []);
                   (err, f2) = (case sv_chmodErr E of
                                  Some e \<Rightarrow> (Some e, f1)
                                | None \<Rightarrow>
                                    (case sv_writeErr E of
                                       Some (e, part) \<Rightarrow> (Some e, f1(sv_tmp E \<mapsto> part))
                                     | None \<Rightarrow> (None, f1(sv_tmp E \<mapsto> payload))));
                   err = (case err of None \<Rightarrow> sv_closeErr E | Some e \<Rightarrow> Some e)
               in case err of
                    Some e \<Rightarrow> (Some (Wrap ''write registry snapshot'' e), [files, f1, f2, f2(sv_tmp E := None)])
                  | None \<Rightarrow>
                      (case sv_renameErr E of
                         Some e \<Rightarrow> (Some e, [files, f1, f2, f2(sv_tmp E := None)])
                       | None \<Rightarrow> (None, [files, f1, f2, f2(target \<mapsto> payload, sv_tmp E := None)]))))))"

definition Load :: "(string \<Rightarrow> goerr + 's) \<Rightarrow> string \<Rightarrow> (string \<rightharpoonup> string) \<Rightarrow> goerr + 's" where
  "Load unmarshal service files =
     (case files (service @ ''.json'') of
        None \<Rightarrow> Inl (Ext ''file does not exist'' [])
      | Some payload \<Rightarrow> unmarshal payload)"

section \<open>Picking an instance\<close>

lemma set_available: "set (available now d) = {i \<in> set (Instances_snap (the (snapshot d))). usable now d i}"
  by (auto simp: available_def split: if_splits)

lemma available_Nil: "available now d = [] \<longleftrightarrow> (\<forall>i \<in> set (Instances_snap (the (snapshot d))). \<not> usable now d i)"
  using set_available[of now d] by (metis (mono_tags, lifting) empty_Collect_eq set_empty)

text \<open>C20. Pick returns an instance of a snapshot that is not older than the staleness limit, healthy and
  not ejected, whenever there is one, and the no-healthy-instance error otherwise.\<close>

theorem discovery_pick_sound:
  "case fst (Pick now d) of
     Inr i \<Rightarrow> (\<exists>s. snapshot d = Some s \<and> now - SavedAt s \<le> MaxStale (d_config d) \<and> i \<in> set (Instances_snap s)) \<and>
       Status i = Healthy \<and> (\<forall>t. ejected d (InstanceId i) = Some t \<longrightarrow> t \<le> now)
   | Inl e \<Rightarrow> e = ErrNoHealthyInstance \<and>
       (\<forall>s. snapshot d = Some s \<and> now - SavedAt s \<le> MaxStale (d_config d) \<longrightarrow> (\<forall>i \<in> set (Instances_snap s). \<not> usable now d i))"
proof (cases "stale now d \<or> available now d = []")
  case True
  then have "fst (Pick now d) = Inl ErrNoHealthyInstance" by (auto simp: Pick_def)
  then show ?thesis using True available_Nil[of now d] by (auto simp: stale_def split: option.splits)
next
  case False
  then obtain s where s: "snapshot d = Some s" "now - SavedAt s \<le> MaxStale (d_config d)"
    by (auto simp: stale_def split: option.splits)
  obtain j where j: "fst (Pick now d) = Inr (available now d ! (j mod length (available now d)))"
    using False by (auto simp: Pick_def Let_def)
  have "available now d ! (j mod length (available now d)) \<in> set (available now d)" using False by simp
  then show ?thesis using s j by (auto simp: set_available usable_def split: option.splits)
qed

text \<open>Consecutive picks, with no report and no update between them.\<close>

fun picks :: "nat \<Rightarrow> int \<Rightarrow> Discovery \<Rightarrow> (goerr + ServiceInstance) list" where
  "picks 0 now d = []"
| "picks (Suc n) now d = (let (r, d') = Pick now d in r # picks n now d')"

lemma Pick_cursor [simp]:
  "available now (d\<lparr>cursor := c\<rparr>) = available now d" "stale now (d\<lparr>cursor := c\<rparr>) = stale now d"
  by (simp_all add: available_def usable_def stale_def split: option.splits)

lemma mset_rotate: "mset (rotate n xs) = mset xs"
proof -
  have "mset (drop k xs @ take k xs) = mset (take k xs @ drop k xs)" for k by (simp only: mset_append union_commute)
  then show ?thesis by (simp only: rotate_drop_take append_take_drop_id)
qed

lemma picks_rotate:
  assumes "\<not> stale now d" "available now d \<noteq> []" "cursor d + n < 2 ^ 64"
  shows "picks n now d = map (\<lambda>j. Inr (available now d ! ((cursor d + j) mod length (available now d)))) [0..<n]"
  using assms
proof (induction n arbitrary: d)
  case (Suc n)
  have c: "(cursor d + 1) mod 2 ^ 64 = cursor d + 1" using Suc.prems(3) by simp
  have i: "(cursor d + 1 + 2 ^ 64 - 1) mod 2 ^ 64 = cursor d" using Suc.prems(3) by simp
  let ?d = "d\<lparr>cursor := cursor d + 1\<rparr>"
  have p: "Pick now d = (Inr (available now d ! (cursor d mod length (available now d))), ?d)"
    unfolding Pick_def Let_def c i using Suc.prems by simp
  have "picks n now ?d = map (\<lambda>j. Inr (available now d ! ((cursor d + 1 + j) mod length (available now d)))) [0..<n]"
    using Suc.IH[of ?d] Suc.prems by simp
  moreover have "[0..<Suc n] = 0 # map Suc [0..<n]" by (simp only: map_Suc_upt upt_conv_Cons zero_less_Suc)
  ultimately show ?case using p by (simp del: upt_Suc add: o_def)
qed simp

text \<open>The load is spread by weight: as many consecutive picks as the weights of the usable instances add up
  to return every usable instance exactly as often as its weight says (a weight of zero counts as
  one), as long as the 64-bit cursor does not wrap around.\<close>

theorem discovery_round_robin:
  assumes "\<not> stale now d" "available now d \<noteq> []" "cursor d + length (available now d) < 2 ^ 64"
  shows "mset (picks (length (available now d)) now d) = image_mset Inr (mset (available now d))"
proof -
  let ?xs = "available now d"
  have "map (\<lambda>j. ?xs ! ((cursor d + j) mod length ?xs)) [0..<length ?xs] = rotate (cursor d) ?xs"
    by (rule nth_equalityI) (simp_all add: nth_rotate)
  then have "picks (length ?xs) now d = map Inr (rotate (cursor d) ?xs)"
    unfolding picks_rotate[OF assms] by (simp add: o_def flip: \<open>_ = rotate (cursor d) ?xs\<close>)
  then show ?thesis by (simp add: mset_rotate)
qed

section \<open>Applying changes\<close>

definition by_id :: "ServiceInstance list \<Rightarrow> (string \<rightharpoonup> ServiceInstance)" where
  "by_id is = map_of (map (\<lambda>i. (InstanceId i, i)) is)"

text \<open>What a change means for the instances by id.\<close>

definition change_map :: "InstanceChange \<Rightarrow> (string \<rightharpoonup> ServiceInstance) \<Rightarrow> (string \<rightharpoonup> ServiceInstance)" where
  "change_map c m =
     (if ch_Type c = Delete then m(ch_InstanceId c := None)
      else case ch_Instance c of None \<Rightarrow> m | Some i \<Rightarrow> m(ch_InstanceId c \<mapsto> i))"

text \<open>The entries of the map: no key twice, and every instance under its own id.\<close>

definition own_keys :: "(string \<times> ServiceInstance) list \<Rightarrow> bool" where
  "own_keys m \<longleftrightarrow> distinct (map fst m) \<and> (\<forall>(k, i) \<in> set m. InstanceId i = k)"

lemma map_of_filter_key: "map_of (filter (\<lambda>e. fst e \<noteq> k) m) = (map_of m)(k := None)"
  by (induction m) auto

lemma put_entries:
  assumes "own_keys m" "InstanceId i = k"
  shows "own_keys (put k i m) \<and> map_of (put k i m) = (map_of m)(k \<mapsto> i)"
proof -
  have "distinct (map fst (filter (\<lambda>e. fst e \<noteq> k) m))" using assms(1) by (simp add: own_keys_def distinct_map_filter)
  then have "own_keys (put k i m)" using assms by (auto simp: own_keys_def put_def)
  moreover have "map_of (put k i m) = (map_of m)(k \<mapsto> i)"
    by (auto simp: put_def map_add_def map_of_filter_key fun_eq_iff split: option.splits)
  ultimately show ?thesis by simp
qed

lemma change_entries:
  assumes "own_keys m" "\<And>i. ch_Instance c = Some i \<Longrightarrow> InstanceId i = ch_InstanceId c"
  shows "own_keys (change c m) \<and> map_of (change c m) = change_map c (map_of m)"
proof (cases "ch_Type c = Delete")
  case True
  then show ?thesis
    using assms(1) by (auto simp: change_def change_map_def map_of_filter_key own_keys_def distinct_map_filter)
next
  case False
  show ?thesis
  proof (cases "ch_Instance c")
    case (Some i)
    from put_entries[OF assms(1) assms(2)[OF Some]] show ?thesis using False Some by (simp add: change_def change_map_def)
  qed (use assms(1) False in \<open>simp add: change_def change_map_def\<close>)
qed

lemma changes_entries:
  assumes "own_keys m" "\<And>c i. c \<in> set cs \<Longrightarrow> ch_Instance c = Some i \<Longrightarrow> InstanceId i = ch_InstanceId c"
  shows "own_keys (fold change cs m) \<and> map_of (fold change cs m) = fold change_map cs (map_of m)"
  using assms
proof (induction cs arbitrary: m)
  case (Cons c cs)
  have "own_keys (change c m) \<and> map_of (change c m) = change_map c (map_of m)"
    using Cons.prems by (intro change_entries) auto
  then show ?case using Cons.IH[of "change c m"] Cons.prems(2) by simp
qed simp

lemma current_entries:
  "own_keys (current_values d) \<and>
   map_of (current_values d) = by_id (rev (case snapshot d of None \<Rightarrow> [] | Some s \<Rightarrow> Instances_snap s))"
proof -
  have "own_keys m \<Longrightarrow> own_keys (fold (\<lambda>i. put (InstanceId i) i) is m) \<and>
      map_of (fold (\<lambda>i. put (InstanceId i) i) is m) = map_of m ++ by_id (rev is)" for m "is"
  proof (induction "is" arbitrary: m)
    case (Cons i "is")
    from Cons.IH[of "put (InstanceId i) i m"] put_entries[OF Cons.prems, of i "InstanceId i"]
    show ?case by (auto simp: by_id_def fun_eq_iff map_add_def split: option.splits)
  qed (simp add: by_id_def)
  from this[of "[]"] show ?thesis
    by (auto simp: current_values_def own_keys_def by_id_def split: option.splits)
qed

lemma by_id_sorted_entries:
  assumes "own_keys m" "mset (iter m) = mset m"
  defines "is \<equiv> sort_key InstanceId (map snd (iter m))"
  shows "sorted (map InstanceId is)" "distinct (map InstanceId is)" "by_id is = map_of m"
proof -
  have ids: "map InstanceId (map snd xs) = map fst xs" if "set xs \<subseteq> set m" for xs
    using that assms(1) by (fastforce simp: own_keys_def)
  have st: "set (iter m) = set m" using assms(2) by (rule mset_eq_setD)
  show "sorted (map InstanceId is)" by (simp add: is_def)
  have "mset (map InstanceId is) = mset (map fst m)"
    using ids[of "iter m"] st assms(2) unfolding is_def by (metis mset_map mset_sort order_refl)
  then show d: "distinct (map InstanceId is)" using assms(1) unfolding own_keys_def by (metis mset_eq_imp_distinct_iff)
  have "set is = snd ` set m" by (simp add: is_def st)
  then have "set (map (\<lambda>i. (InstanceId i, i)) is) = (\<lambda>x. (InstanceId (snd x), snd x)) ` set m" by (simp add: image_image)
  also have "\<dots> = id ` set m" using assms(1) by (intro image_cong refl) (auto simp: own_keys_def)
  finally have "set (map (\<lambda>i. (InstanceId i, i)) is) = set m" by simp
  moreover have "distinct (map fst (map (\<lambda>i. (InstanceId i, i)) is))" using d by (simp add: o_def)
  ultimately show "by_id is = map_of m"
    unfolding by_id_def using assms(1) by (intro map_of_inject_set[THEN iffD2]) (simp_all add: own_keys_def)
qed

lemma map_of_rev_distinct: "distinct (map fst xs) \<Longrightarrow> map_of (rev xs) = map_of xs"
  by (intro map_of_inject_set[THEN iffD2]) (simp_all flip: rev_map)

text \<open>C21. A watch update does to the instances what its changes say, in their order: afterwards every id has the
  instance the changes leave it with, no id occurs twice and the instances are sorted by id. The order in
  which Go walks the map does not matter.\<close>

theorem discovery_apply_changes:
  assumes "\<And>m. mset (iter m) = mset m"
    and "\<And>c i. c \<in> set (Changes response) \<Longrightarrow> ch_Instance c = Some i \<Longrightarrow> InstanceId i = ch_InstanceId c"
    and "snapshot d = Some old" "distinct (map InstanceId (Instances_snap old))"
  shows "\<exists>new. snapshot (apply_change iter now ok response d) = Some new \<and> Revision new = w_Revision response \<and> SavedAt new = now \<and>
    sorted (map InstanceId (Instances_snap new)) \<and> distinct (map InstanceId (Instances_snap new)) \<and>
    by_id (Instances_snap new) = fold change_map (Changes response) (by_id (Instances_snap old))"
proof -
  let ?m = "fold change (Changes response) (current_values d)"
  note cur = current_entries[of d]
  have m: "own_keys ?m" "map_of ?m = fold change_map (Changes response) (map_of (current_values d))"
    using changes_entries[OF conjunct1[OF cur] assms(2)] by auto
  have "distinct (map fst (map (\<lambda>i. (InstanceId i, i)) (Instances_snap old)))" using assms(4) by (simp add: o_def)
  then have old: "map_of (current_values d) = by_id (Instances_snap old)"
    using cur assms(3) by (simp add: by_id_def map_of_rev_distinct flip: rev_map)
  have snap: "snapshot (apply_change iter now ok response d) =
      Some \<lparr>Revision = w_Revision response, SavedAt = now, Instances_snap = sort_key InstanceId (map snd (iter ?m))\<rparr>"
    by (simp add: apply_change_def persistLocked_def Let_def)
  show ?thesis
    unfolding snap using by_id_sorted_entries[where m = ?m and iter = iter, OF m(1) assms(1)] m(2) old by simp
qed

section \<open>The snapshot store\<close>

text \<open>C22. Saving a snapshot is atomic. Whatever fails, and wherever the process is stopped, the snapshot
  file holds the old contents or the complete new ones; a save without error leaves the new ones, which
  load as the snapshot that was saved, leaves the other files alone and no temporary file behind.\<close>

theorem discovery_save_atomic:
  assumes "sv_tmp E \<noteq> service @ ''.json''" "files (sv_tmp E) = None"
    and "\<And>payload. marshal snap = Inr payload \<Longrightarrow> unmarshal payload = Inr snap"
    and "Save marshal E service snap files = (err, states)"
  shows "(\<forall>f \<in> set states. f (service @ ''.json'') = files (service @ ''.json'') \<or>
            (\<exists>payload. marshal snap = Inr payload \<and> f (service @ ''.json'') = Some payload)) \<and>
    (\<forall>n. n \<noteq> service @ ''.json'' \<longrightarrow> last states n = files n) \<and>
    (err = None \<longrightarrow> Load unmarshal service (last states) = Inr snap) \<and>
    (err \<noteq> None \<longrightarrow> last states = files)"
proof (cases "sv_mkdirErr E = None \<and> sv_createErr E = None \<and> (\<exists>payload. marshal snap = Inr payload)")
  case False
  then have "states = [files] \<and> err \<noteq> None"
    using assms(4)[symmetric] by (cases "sv_mkdirErr E"; cases "sv_createErr E"; cases "marshal snap") (simp_all add: Save_def)
  then show ?thesis by auto
next
  case True
  then obtain payload where m: "marshal snap = Inr payload" by blast
  have gone: "files(sv_tmp E := None) = files" using assms(2) by auto
  show ?thesis
    using assms(1,2) assms(3)[OF m] assms(4) True m gone
    by (cases "sv_chmodErr E"; cases "sv_writeErr E"; cases "sv_closeErr E"; cases "sv_renameErr E")
      (auto simp: Save_def Load_def Let_def)
qed

text \<open>The stored snapshot is filed under the service name alone. A discovery with the same service name and another
  selector (two selector-only discoveries, for instance) restores what the first one saved, whatever its own
  selector asks for.\<close>

theorem discovery_snapshot_ignores_selector:
  assumes "SnapshotStore (d_config d1)" "SnapshotStore (d_config d2)"
    and "ServiceName (d_config d2) = ServiceName (d_config d1)" "now2 - now1 \<le> MaxStale (d_config d2)"
    and "refresh now1 True (Inr (r, instances)) d1 = (None, d1')"
  shows "snapshot (snd (restore now2 ok (d2\<lparr>saved := saved d1'\<rparr>))) =
    Some \<lparr>Revision = r, SavedAt = now1, Instances_snap = instances\<rparr>"
  using assms by (auto simp: refresh_def restore_def replace_def persistLocked_def)

section \<open>An example\<close>

definition demo_instance :: "string \<Rightarrow> nat \<Rightarrow> ServiceInstance" where
  "demo_instance i w = \<lparr>InstanceId = i, si_ServiceName = ''orders'', Status = Healthy, Weight = w\<rparr>"

definition demo_discovery :: "(string \<times> string) list \<Rightarrow> Discovery" where
  "demo_discovery sel = \<lparr>d_config = \<lparr>ServiceName = [], Selector = sel, MaxStale = 100, RefreshInterval = 50, dc_RetryMin = 1,
     dc_RetryMax = 9, SnapshotStore = True\<rparr>,
     snapshot = Some \<lparr>Revision = 1, SavedAt = 10, Instances_snap = [demo_instance ''a'' 2, demo_instance ''b'' 0]\<rparr>,
     ejected = Map.empty, cursor = 5, saved = Map.empty\<rparr>"

lemma demo_available:
  "available 20 (demo_discovery []) = [demo_instance ''a'' 2, demo_instance ''a'' 2, demo_instance ''b'' 0]"
  by (simp add: available_def demo_discovery_def usable_def demo_instance_def numeral_2_eq_2)

theorem discovery_pick_sound_witness:
  "fst (Pick 20 (demo_discovery [])) = Inr (demo_instance ''b'' 0) \<and> Status (demo_instance ''b'' 0) = Healthy"
proof -
  have "\<not> stale 20 (demo_discovery [])" "cursor (demo_discovery []) = 5" by (simp_all add: stale_def demo_discovery_def)
  then have "fst (Pick 20 (demo_discovery [])) = Inr (demo_instance ''b'' 0)"
    by (simp add: Pick_def demo_available Let_def)
  then show ?thesis using discovery_pick_sound[where now = 20 and d = "demo_discovery []"] by simp
qed

theorem discovery_round_robin_witness:
  "mset (picks 3 20 (demo_discovery [])) =
     image_mset Inr (mset [demo_instance ''a'' 2, demo_instance ''a'' 2, demo_instance ''b'' 0])"
proof -
  let ?d = "demo_discovery []"
  have st: "\<not> stale 20 ?d" "cursor ?d = 5" by (simp_all add: stale_def demo_discovery_def)
  have l: "length (available 20 ?d) = 3" by (simp add: demo_available)
  have "mset (picks (length (available 20 ?d)) 20 ?d) = image_mset Inr (mset (available 20 ?d))"
    by (rule discovery_round_robin[OF st(1)]) (simp_all add: demo_available st(2))
  then show ?thesis unfolding l by (simp only: demo_available)
qed

theorem discovery_apply_changes_witness:
  "\<exists>new. snapshot (apply_change (\<lambda>m. m) 30 True
      \<lparr>w_Revision = 2, Changes = [\<lparr>ch_Type = Delete, ch_InstanceId = ''a'', ch_Instance = None\<rparr>]\<rparr> (demo_discovery [])) = Some new \<and>
    by_id (Instances_snap new) ''a'' = None"
proof -
  let ?r = "\<lparr>w_Revision = 2, Changes = [\<lparr>ch_Type = Delete, ch_InstanceId = ''a'', ch_Instance = None\<rparr>]\<rparr>"
  let ?old = "\<lparr>Revision = 1, SavedAt = 10, Instances_snap = [demo_instance ''a'' 2, demo_instance ''b'' 0]\<rparr>"
  have s: "snapshot (demo_discovery []) = Some ?old" "distinct (map InstanceId (Instances_snap ?old))"
    by (simp_all add: demo_discovery_def demo_instance_def)
  have "\<exists>new. snapshot (apply_change (\<lambda>m. m) 30 True ?r (demo_discovery [])) = Some new \<and> Revision new = w_Revision ?r \<and> SavedAt new = 30 \<and>
    sorted (map InstanceId (Instances_snap new)) \<and> distinct (map InstanceId (Instances_snap new)) \<and>
    by_id (Instances_snap new) = fold change_map (Changes ?r) (by_id (Instances_snap ?old))"
    by (rule discovery_apply_changes[OF _ _ s]) auto
  then show ?thesis by (auto simp: change_map_def)
qed

theorem discovery_save_atomic_witness:
  "Load (\<lambda>b. Inr b) ''orders'' (last (snd (Save (\<lambda>s. Inr s) \<lparr>sv_mkdirErr = None, sv_createErr = None, sv_chmodErr = None,
     sv_writeErr = None, sv_closeErr = None, sv_renameErr = None, sv_tmp = ''.registry-1.tmp''\<rparr> ''orders'' ''data'' Map.empty))) = Inr ''data''"
proof -
  let ?E = "\<lparr>sv_mkdirErr = None, sv_createErr = None, sv_chmodErr = None, sv_writeErr = None, sv_closeErr = None,
     sv_renameErr = None, sv_tmp = ''.registry-1.tmp''\<rparr>"
  obtain err states where s: "Save (\<lambda>s. Inr s) ?E ''orders'' ''data'' Map.empty = (err, states)" by fastforce
  moreover from s have "err = None" by (auto simp: Save_def Let_def)
  ultimately show ?thesis
    using discovery_save_atomic[OF _ _ _ s, where unmarshal = "\<lambda>b. Inr b"] by simp
qed

theorem discovery_snapshot_ignores_selector_witness:
  "snapshot (snd (restore 40 True ((demo_discovery [(''zone'', ''b'')])\<lparr>saved :=
     saved (snd (refresh 30 True (Inr (7, [demo_instance ''zone-a-1'' 1])) (demo_discovery [(''zone'', ''a'')])))\<rparr>))) =
   Some \<lparr>Revision = 7, SavedAt = 30, Instances_snap = [demo_instance ''zone-a-1'' 1]\<rparr>"
proof -
  let ?d1 = "demo_discovery [(''zone'', ''a'')]" and ?d2 = "demo_discovery [(''zone'', ''b'')]"
  have r: "refresh 30 True (Inr (7, [demo_instance ''zone-a-1'' 1])) ?d1 =
      (None, snd (refresh 30 True (Inr (7, [demo_instance ''zone-a-1'' 1])) ?d1))"
    by (simp add: refresh_def)
  show ?thesis
    by (rule discovery_snapshot_ignores_selector[of ?d1 ?d2, OF _ _ _ _ r]) (simp_all add: demo_discovery_def)
qed

end
