(* ===== verification/Registrant.thy ===== *)
theory Registrant
  imports Discovery
begin

text \<open>
  Registration of a service instance (\<open>src/serviceregistry/registrant.go\<close>): the loop that
  registers, renews the lease and deregisters. What the registry and the clock do to a round of the
  loop is a record; what the loop does to the registry is the list of its calls.
\<close>

record RegistrantConfig =
  rc_Instance :: ServiceInstance
  rc_Lease :: int
  rc_HeartbeatInterval :: int
  rc_CallTimeout :: int
  rc_RetryMin :: int
  rc_RetryMax :: int

record Registrant =
  r_config :: RegistrantConfig
  r_token :: string

definition or_zero :: "int \<Rightarrow> int \<Rightarrow> int" where
  "or_zero v d = (if v = 0 then d else v)"

definition NewRegistrant :: "bool \<Rightarrow> bool \<Rightarrow> RegistrantConfig \<Rightarrow> goerr + Registrant" where
  "NewRegistrant client inst config =
     (if \<not> client \<or> \<not> inst then Inl (Msg ''registry client and instance are required'')
      else
        (let lease = or_zero (rc_Lease config) (30 * Second);
             beat = or_zero (rc_HeartbeatInterval config) (go_div lease 3)
         in if beat \<ge> lease then Inl (Msg ''heartbeat interval must be shorter than lease'')
            else Inr \<lparr>r_config = config\<lparr>rc_Lease := lease, rc_HeartbeatInterval := beat,
                        rc_CallTimeout := or_zero (rc_CallTimeout config) (3 * Second),
                        rc_RetryMin := or_zero (rc_RetryMin config) (250 * Millisecond),
                        rc_RetryMax := or_zero (rc_RetryMax config) (5 * Second)\<rparr>,
                      r_token = []\<rparr>))"

text \<open>\<open>waitJitter\<close>: the wait that is drawn when \<open>rand.Int64N\<close> returns \<open>x\<close>.\<close>

definition jittered :: "int \<Rightarrow> int \<Rightarrow> int" where
  "jittered duration x =
     (let delta = go_div duration 5 in if delta > 0 then duration + x - delta else duration)"

text \<open>\<open>uint32(Lease / time.Second)\<close>.\<close>

definition leaseSeconds :: "RegistrantConfig \<Rightarrow> nat" where
  "leaseSeconds c = nat (go_div (rc_Lease c) Second mod 2 ^ 32)"

datatype reg_call =
    RegisterInstance ServiceInstance nat
  | RenewLease string string string nat
  | SetInstanceStatus string string string InstanceStatus
  | DeregisterInstance string string string

text \<open>Errors of the registry carry a gRPC code; the wrapped error keeps it.\<close>

datatype reg_error = RegError int goerr

definition codes_NotFound :: int where "codes_NotFound = 5"
definition codes_PermissionDenied :: int where "codes_PermissionDenied = 7"

definition register :: "reg_error + string \<Rightarrow> Registrant \<Rightarrow> (goerr option \<times> Registrant) \<times> reg_call list" where
  "register answer r =
     (case answer of
        Inl (RegError code e) \<Rightarrow> (Some (Wrap ''register service instance'' e), r)
      | Inr token \<Rightarrow> (None, r\<lparr>r_token := token\<rparr>),
      [RegisterInstance (rc_Instance (r_config r)) (leaseSeconds (r_config r))])"

definition renew :: "reg_error option \<Rightarrow> Registrant \<Rightarrow> reg_error option \<times> reg_call list" where
  "renew answer r =
     (map_option (\<lambda>x. case x of RegError code e \<Rightarrow> RegError code (Wrap ''renew service instance lease'' e)) answer,
      [RenewLease (si_ServiceName (rc_Instance (r_config r))) (InstanceId (rc_Instance (r_config r))) (r_token r)
         (leaseSeconds (r_config r))])"

definition shutdown :: "goerr option \<Rightarrow> Registrant \<Rightarrow> goerr option \<times> reg_call list" where
  "shutdown deregisterErr r =
     (if r_token r = [] then (None, [])
      else
        (let n = si_ServiceName (rc_Instance (r_config r)); i = InstanceId (rc_Instance (r_config r))
         in (deregisterErr, [SetInstanceStatus n i (r_token r) Draining, DeregisterInstance n i (r_token r)])))"

text \<open>
  A round of \<open>Run\<close>: the context's error at the loop head, the answers, whether each wait ran to
  its end, the context's error when one did not, and how deregistering ends.
\<close>

record reg_round =
  rr_ctxErr :: "goerr option"
  rr_register :: "reg_error + string"
  rr_retryWait :: bool
  rr_heartbeat :: bool
  rr_renew :: "reg_error option"
  rr_renewWait :: bool
  rr_cancelled :: goerr
  rr_deregister :: "goerr option"

datatype reg_outcome = Running | Returned "goerr option"

definition give_up :: "reg_round \<Rightarrow> Registrant \<Rightarrow> reg_outcome \<times> reg_call list \<times> Registrant" where
  "give_up R r = (let (e, calls) = shutdown (rr_deregister R) r in (Returned e, calls, r))"

fun runRegistrant :: "reg_round list \<Rightarrow> int \<Rightarrow> Registrant \<Rightarrow> reg_outcome \<times> reg_call list \<times> Registrant" where
  "runRegistrant [] backoff r = (Running, [], r)"
| "runRegistrant (R # Rs) backoff r =
     (case rr_ctxErr R of
        Some e \<Rightarrow> (Returned (Some e), [], r)
      | None \<Rightarrow>
        (let ((regErr, r1), calls1) = (if r_token r = [] then register (rr_register R) r else ((None, r), []))
         in case regErr of
              Some e \<Rightarrow>
                if \<not> rr_retryWait R then (Returned (Some (rr_cancelled R)), calls1, r1)
                else
                  (let (out, calls, r') = runRegistrant Rs (min (wrap64 (backoff * 2)) (rc_RetryMax (r_config r))) r1
                   in (out, calls1 @ calls, r'))
            | None \<Rightarrow>
                (let b = (if r_token r = [] then rc_RetryMin (r_config r) else backoff)
                 in if \<not> rr_heartbeat R
                    then (let (out, calls, r') = give_up R r1 in (out, calls1 @ calls, r'))
                    else
                      (let (renewErr, calls2) = renew (rr_renew R) r1
                       in case renewErr of
                            Some (RegError code e) \<Rightarrow>
                              (let r2 = (if code = codes_NotFound \<or> code = codes_PermissionDenied then r1\<lparr>r_token := []\<rparr> else r1)
                               in if \<not> rr_renewWait R
                                  then (let (out, calls, r') = give_up R r2 in (out, calls1 @ calls2 @ calls, r'))
                                  else
                                    (let (out, calls, r') = runRegistrant Rs (min (wrap64 (b * 2)) (rc_RetryMax (r_config r))) r2
                                     in (out, calls1 @ calls2 @ calls, r')))
                          | None \<Rightarrow>
                              (let (out, calls, r') = runRegistrant Rs (rc_RetryMin (r_config r)) r1
                               in (out, calls1 @ calls2 @ calls, r'))))))"

definition Run_registrant :: "reg_round list \<Rightarrow> Registrant \<Rightarrow> reg_outcome \<times> reg_call list \<times> Registrant" where
  "Run_registrant rounds r = runRegistrant rounds (rc_RetryMin (r_config r)) r"

section \<open>Heartbeats\<close>

lemma jittered_bounds:
  assumes "0 \<le> d" "0 \<le> x" "x < 2 * (d div 5)"
  shows "d - d div 5 \<le> jittered d x \<and> jittered d x < d + d div 5"
proof -
  have "go_div d 5 = d div 5" using assms(1) by (simp add: go_div_nonneg)
  then show ?thesis using assms by (auto simp: jittered_def Let_def)
qed

text \<open>With the default heartbeat interval every heartbeat of a registrant comes within the lease, however the
  jitter falls; an explicit interval is only safe up to five sixths of the lease.\<close>

theorem registrant_heartbeat_in_lease:
  assumes "NewRegistrant client inst config = Inr r" "0 < rc_HeartbeatInterval (r_config r)"
    and "rc_HeartbeatInterval config = 0 \<or> 6 * rc_HeartbeatInterval config \<le> 5 * rc_Lease (r_config r)"
    and "0 \<le> x" "x < 2 * (rc_HeartbeatInterval (r_config r) div 5)"
  shows "0 < jittered (rc_HeartbeatInterval (r_config r)) x \<and> jittered (rc_HeartbeatInterval (r_config r)) x < rc_Lease (r_config r)"
proof -
  let ?h = "rc_HeartbeatInterval (r_config r)" and ?l = "rc_Lease (r_config r)"
  have h: "?h = (if rc_HeartbeatInterval config = 0 then go_div ?l 3 else rc_HeartbeatInterval config)" "?h < ?l"
    using assms(1) by (auto simp: NewRegistrant_def Let_def or_zero_def split: if_splits)
  have "0 < ?l" using h(2) assms(2) by simp
  then have "6 * ?h \<le> 5 * ?l" using h(1) assms(3) go_div_nonneg[of ?l 3] by (auto split: if_splits)
  moreover have "5 * (?h div 5) \<le> ?h" by simp
  ultimately have "?h + ?h div 5 \<le> ?l" by linarith
  then show ?thesis using jittered_bounds[of ?h x] assms(2,4,5) by auto
qed

text \<open>An explicit interval above five sixths of the lease is accepted although the jitter can then put the
  heartbeat after the end of the lease.\<close>

theorem registrant_jitter_outlasts_lease:
  "\<exists>config r x. NewRegistrant True True config = Inr r \<and> 0 \<le> x \<and> x < 2 * (rc_HeartbeatInterval (r_config r) div 5) \<and>
     rc_Lease (r_config r) < jittered (rc_HeartbeatInterval (r_config r)) x"
proof -
  let ?i = "\<lparr>InstanceId = ''i'', si_ServiceName = ''s'', Status = Healthy, Weight = 1\<rparr>"
  let ?c = "\<lparr>rc_Instance = ?i, rc_Lease = 30 * Second, rc_HeartbeatInterval = 29 * Second, rc_CallTimeout = 0,
     rc_RetryMin = 0, rc_RetryMax = 0\<rparr>"
  have d: "go_div (29 * Second) 5 = 5800000000" by (simp add: go_div_nonneg duration_defs)
  have "NewRegistrant True True ?c = Inr \<lparr>r_config = ?c\<lparr>rc_CallTimeout := 3 * Second, rc_RetryMin := 250 * Millisecond,
      rc_RetryMax := 5 * Second\<rparr>, r_token = []\<rparr>"
    by (simp add: NewRegistrant_def or_zero_def Let_def duration_defs)
  moreover have "rc_Lease ?c < jittered (29 * Second) (11 * Second)"
    by (simp add: jittered_def d Let_def) (simp add: duration_defs)
  ultimately show ?thesis
    by (intro exI[of _ ?c] exI[of _ "11 * Second"] exI conjI) (assumption | simp add: duration_defs)+
qed

section \<open>Leaving\<close>

definition farewell :: "Registrant \<Rightarrow> reg_call list" where
  "farewell r =
     [SetInstanceStatus (si_ServiceName (rc_Instance (r_config r))) (InstanceId (rc_Instance (r_config r))) (r_token r) Draining,
      DeregisterInstance (si_ServiceName (rc_Instance (r_config r))) (InstanceId (rc_Instance (r_config r))) (r_token r)]"

definition leaves_cleanly :: "reg_outcome \<times> reg_call list \<times> Registrant \<Rightarrow> bool" where
  "leaves_cleanly x =
     (case x of (Running, _) \<Rightarrow> True
      | (Returned e, calls, r) \<Rightarrow> r_token r \<noteq> [] \<longrightarrow> (\<exists>pre. calls = pre @ farewell r))"

lemma leaves_cleanly_prepend: "leaves_cleanly (out, calls, r) \<Longrightarrow> leaves_cleanly (out, pre @ calls, r)"
  by (cases out) (auto simp: leaves_cleanly_def simp flip: append_assoc)

lemma give_up_clean: "leaves_cleanly (give_up R r)"
  by (auto simp: give_up_def shutdown_def leaves_cleanly_def farewell_def Let_def)

lemma runRegistrant_clean:
  assumes "\<forall>R \<in> set Rs. rr_ctxErr R = None"
  shows "leaves_cleanly (runRegistrant Rs backoff r)"
  using assms
proof (induction Rs arbitrary: backoff r)
  case Nil
  then show ?case by (simp add: leaves_cleanly_def)
next
  case (Cons R Rs)
  have ih: "leaves_cleanly (runRegistrant Rs b q)" for b q using Cons by auto
  have more: "leaves_cleanly (let (out, calls, r') = x in (out, pre @ calls, r'))" if "leaves_cleanly x" for x pre
    using that by (cases x) (auto intro: leaves_cleanly_prepend)
  have more2: "leaves_cleanly (let (out, calls, r') = x in (out, pre @ c # calls, r'))" if "leaves_cleanly x" for x pre c
    using more[OF that, of "pre @ [c]"] by simp
  obtain regErr r1 calls1 where reg: "(if r_token r = [] then register (rr_register R) r else ((None, r), [])) = ((regErr, r1), calls1)"
    by (metis surj_pair)
  have none: "rr_ctxErr R = None" using Cons.prems by simp
  show ?case
  proof (cases regErr)
    case (Some e)
    then have "r_token r1 = []"
      using reg by (auto simp: register_def split: if_splits sum.splits reg_error.splits)
    then show ?thesis
      using none reg Some ih by (auto simp: leaves_cleanly_def[of "(Returned _, _)"] Let_def intro: more[unfolded Let_def])
  next
    case None
    then show ?thesis
      using none reg ih give_up_clean
      by (auto simp: Let_def renew_def split: option.splits reg_error.splits
          intro: more[unfolded Let_def] more2[unfolded Let_def])
  qed
qed

text \<open>C23. A registrant whose context ends during one of its waits leaves the registry in order: when Run returns and
  it still holds a lease, its last two calls mark the instance as draining and deregister it, with that
  lease's token.\<close>

theorem registrant_leaves_cleanly:
  assumes "\<forall>R \<in> set rounds. rr_ctxErr R = None"
    and "Run_registrant rounds r = (Returned e, calls, r')" "r_token r' \<noteq> []"
  shows "\<exists>pre. calls = pre @ farewell r'"
  using runRegistrant_clean[OF assms(1), of "rc_RetryMin (r_config r)" r] assms(2,3)
  by (simp add: Run_registrant_def leaves_cleanly_def)

text \<open>A context that ends between the waits is noticed at the head of the loop, where Run returns at once: the
  instance stays registered, neither drained nor deregistered, until its lease runs out.\<close>

theorem registrant_head_cancel_stays:
  assumes "r_token r \<noteq> []" "rr_ctxErr R = None" "rr_heartbeat R" "rr_renew R = None" "rr_ctxErr R2 = Some e"
  shows "\<exists>call. Run_registrant [R, R2] r = (Returned (Some e), [call], r) \<and> (\<forall>n i t. call \<noteq> DeregisterInstance n i t)"
  using assms by (simp add: Run_registrant_def renew_def)

section \<open>An example\<close>

definition demo_registrant :: Registrant where
  "demo_registrant = \<lparr>r_config = \<lparr>rc_Instance = demo_instance ''i1'' 1, rc_Lease = 30 * Second, rc_HeartbeatInterval = 10 * Second,
     rc_CallTimeout = 3 * Second, rc_RetryMin = 250 * Millisecond, rc_RetryMax = 5 * Second\<rparr>, r_token = []\<rparr>"

definition demo_round :: "bool \<Rightarrow> goerr option \<Rightarrow> reg_round" where
  "demo_round beat e = \<lparr>rr_ctxErr = e, rr_register = Inr ''tok'', rr_retryWait = True, rr_heartbeat = beat, rr_renew = None,
     rr_renewWait = True, rr_cancelled = Msg ''cancelled'', rr_deregister = None\<rparr>"

theorem registrant_heartbeat_in_lease_witness:
  "0 < jittered (10 * Second) 7 \<and> jittered (10 * Second) 7 < 30 * Second"
proof -
  let ?c = "(r_config demo_registrant)\<lparr>rc_HeartbeatInterval := 0\<rparr>"
  have n: "NewRegistrant True True ?c = Inr demo_registrant"
    by (simp add: NewRegistrant_def demo_registrant_def or_zero_def Let_def duration_defs go_div_nonneg)
  show ?thesis
    using registrant_heartbeat_in_lease[OF n, of 7] by (simp add: demo_registrant_def duration_defs)
qed

theorem registrant_leaves_cleanly_witness:
  "\<exists>pre. fst (snd (Run_registrant [demo_round True None, demo_round False None] demo_registrant)) =
     pre @ farewell (demo_registrant\<lparr>r_token := ''tok''\<rparr>)"
proof -
  let ?rs = "[demo_round True None, demo_round False None]"
  let ?calls = "fst (snd (Run_registrant ?rs demo_registrant))"
  have run: "Run_registrant ?rs demo_registrant = (Returned None, ?calls, demo_registrant\<lparr>r_token := ''tok''\<rparr>)"
    by (simp add: Run_registrant_def demo_round_def demo_registrant_def register_def renew_def give_up_def shutdown_def Let_def)
  show ?thesis
    by (rule registrant_leaves_cleanly[OF _ run]) (simp_all add: demo_round_def)
qed

theorem registrant_head_cancel_stays_witness:
  "\<exists>call. Run_registrant [demo_round True None, demo_round True (Some (Msg ''cancelled''))] (demo_registrant\<lparr>r_token := ''tok''\<rparr>) =
     (Returned (Some (Msg ''cancelled'')), [call], demo_registrant\<lparr>r_token := ''tok''\<rparr>)"
  using registrant_head_cancel_stays[of "demo_registrant\<lparr>r_token := ''tok''\<rparr>" "demo_round True None"
      "demo_round True (Some (Msg ''cancelled''))" "Msg ''cancelled''"]
  by (auto simp: demo_round_def)

end
