(* ===== verification/Distlock.thy ===== *)
theory Distlock
  imports Go_Strings
begin

text \<open>
  Distributed locks (\<open>src/distlock/redis.go\<close>). Redsync is a parameter: what its calls on a mutex
  answer, on an arbitrary state of the world. The goroutine that renews a lease while the callback
  runs is a loop over the ticks that fall into the callback's run time.
\<close>

definition defaultPrefix :: string where "defaultPrefix = ''lock:''"

definition ErrInvalid :: goerr where "ErrInvalid = Sentinel ''invalid distributed lock request''"
definition ErrNotOwned :: goerr where "ErrNotOwned = Sentinel ''distributed lock is no longer owned''"

text \<open>\<open>errors.As\<close>: the error or anything it wraps is of the type.\<close>

fun errors_As :: "(goerr \<Rightarrow> bool) \<Rightarrow> goerr \<Rightarrow> bool" where
  "errors_As p (Wrap m e) \<longleftrightarrow> p (Wrap m e) \<or> errors_As p e"
| "errors_As p (Join es) \<longleftrightarrow> p (Join es) \<or> list_ex (errors_As p) es"
| "errors_As p (Ext m es) \<longleftrightarrow> p (Ext m es) \<or> list_ex (errors_As p) es"
| "errors_As p e \<longleftrightarrow> p e"

text \<open>
  A redsync mutex is what it was made from; the options are the tries, the retry delay and the expiry.
  Redsync's own errors that the code looks for are part of the parameter: two values and a type.
\<close>

record redsync_mutex =
  mx_name :: string
  mx_tries :: "nat option"
  mx_retryDelay :: "int option"
  mx_expiry :: int

record 'w redsync =
  rs_ErrFailed :: goerr
  rs_ErrLockAlreadyExpired :: goerr
  rs_isErrTaken :: "goerr \<Rightarrow> bool"
  TryLockContext :: "redsync_mutex \<Rightarrow> 'w \<Rightarrow> goerr option \<times> 'w"
  LockContext :: "redsync_mutex \<Rightarrow> 'w \<Rightarrow> goerr option \<times> 'w"
  ExtendContext :: "redsync_mutex \<Rightarrow> 'w \<Rightarrow> (bool \<times> goerr option) \<times> 'w"
  UnlockContext :: "int option \<Rightarrow> redsync_mutex \<Rightarrow> 'w \<Rightarrow> (bool \<times> goerr option) \<times> 'w"

definition isContention :: "'w redsync \<Rightarrow> goerr \<Rightarrow> bool" where
  "isContention rs err \<longleftrightarrow> errors_Is err (rs_ErrFailed rs) \<or> errors_As (rs_isErrTaken rs) err"

record 'w RedisLocker =
  rl_redsync :: "'w redsync"
  rl_prefix :: string

definition NewRedisLockerWithPrefix :: "'w redsync \<Rightarrow> string \<Rightarrow> 'w RedisLocker" where
  "NewRedisLockerWithPrefix rs p =
     \<lparr>rl_redsync = rs,
      rl_prefix = (if TrimSpace p = [] \<or> p \<noteq> TrimSpace p \<or> has_control p then defaultPrefix else p)\<rparr>"

definition NewRedisLocker :: "'w redsync \<Rightarrow> 'w RedisLocker" where
  "NewRedisLocker rs = NewRedisLockerWithPrefix rs defaultPrefix"

definition newMutex :: "'w RedisLocker \<Rightarrow> string \<Rightarrow> int \<Rightarrow> nat option \<Rightarrow> int option \<Rightarrow> goerr + redsync_mutex" where
  "newMutex l key ttl tries delay =
     (if TrimSpace key = [] \<or> key \<noteq> TrimSpace key \<or> length key > 1024 \<or> has_control key
      then Inl (Ext ''invalid distributed lock request: key must not be empty'' [ErrInvalid])
      else if ttl \<le> 0 then Inl (Ext ''invalid distributed lock request: ttl must be positive'' [ErrInvalid])
      else Inr \<lparr>mx_name = rl_prefix l @ key, mx_tries = tries, mx_retryDelay = delay, mx_expiry = ttl\<rparr>)"

definition TryLock :: "'w RedisLocker \<Rightarrow> string \<Rightarrow> int \<Rightarrow> 'w \<Rightarrow> (redsync_mutex option \<times> bool \<times> goerr option) \<times> 'w" where
  "TryLock l key ttl w =
     (case newMutex l key ttl (Some 1) None of
        Inl e \<Rightarrow> ((None, False, Some e), w)
      | Inr m \<Rightarrow>
          (case TryLockContext (rl_redsync l) m w of
             (Some err, w1) \<Rightarrow>
               if isContention (rl_redsync l) err then ((None, False, None), w1)
               else ((None, False, Some (Wrap (''try redis lock '' @ quoted key) err)), w1)
           | (None, w1) \<Rightarrow> ((Some m, True, None), w1)))"

definition Lock :: "'w RedisLocker \<Rightarrow> ('w \<Rightarrow> goerr option) \<Rightarrow> string \<Rightarrow> int \<Rightarrow> int \<Rightarrow> 'w \<Rightarrow> (goerr + redsync_mutex) \<times> 'w" where
  "Lock l ctxErr key ttl retryDelay w =
     (if retryDelay \<le> 0 then (Inl (Ext ''invalid distributed lock request: retry delay must be positive'' [ErrInvalid]), w)
      else
        (case newMutex l key ttl None (Some retryDelay) of
           Inl e \<Rightarrow> (Inl e, w)
         | Inr m \<Rightarrow>
             (case LockContext (rl_redsync l) m w of
                (Some err, w1) \<Rightarrow>
                  (case ctxErr w1 of
                     Some c \<Rightarrow> (Inl (Wrap (''wait for redis lock '' @ quoted key) c), w1)
                   | None \<Rightarrow> (Inl (Wrap (''acquire redis lock '' @ quoted key) err), w1))
              | (None, w1) \<Rightarrow> (Inr m, w1))))"

definition Extend :: "'w redsync \<Rightarrow> redsync_mutex \<Rightarrow> 'w \<Rightarrow> goerr option \<times> 'w" where
  "Extend rs m w =
     (case ExtendContext rs m w of
        ((ok, Some err), w1) \<Rightarrow> (Some (Wrap (''extend redis lock '' @ quoted (mx_name m)) (Join [ErrNotOwned, err])), w1)
      | ((ok, None), w1) \<Rightarrow>
          if \<not> ok then (Some (Wrap (''extend redis lock '' @ quoted (mx_name m)) ErrNotOwned), w1) else (None, w1))"

text \<open>The first argument is the timeout of the context, if it has one.\<close>

definition Unlock :: "'w redsync \<Rightarrow> int option \<Rightarrow> redsync_mutex \<Rightarrow> 'w \<Rightarrow> goerr option \<times> 'w" where
  "Unlock rs timeout m w =
     (case UnlockContext rs timeout m w of
        ((ok, Some err), w1) \<Rightarrow>
          if isContention rs err \<or> errors_Is err (rs_ErrLockAlreadyExpired rs)
          then (Some (Wrap (''release redis lock '' @ quoted (mx_name m)) (Join [ErrNotOwned, err])), w1)
          else (Some (Wrap (''release redis lock '' @ quoted (mx_name m)) err), w1)
      | ((ok, None), w1) \<Rightarrow>
          if \<not> ok then (Some (Wrap (''release redis lock '' @ quoted (mx_name m)) ErrNotOwned), w1) else (None, w1))"

section \<open>Leases around a callback\<close>

text \<open>The locker and mutex interfaces the lease functions use, over a state of the world.\<close>

record 'w Mutex =
  m_Extend :: "'w \<Rightarrow> goerr option \<times> 'w"
  m_Unlock :: "int option \<Rightarrow> 'w \<Rightarrow> goerr option \<times> 'w"

record 'w Locker =
  lk_TryLock :: "string \<Rightarrow> int \<Rightarrow> 'w \<Rightarrow> ('w Mutex option \<times> bool \<times> goerr option) \<times> 'w"
  lk_Lock :: "string \<Rightarrow> int \<Rightarrow> int \<Rightarrow> 'w \<Rightarrow> (goerr + 'w Mutex) \<times> 'w"

definition redisMutex :: "'w redsync \<Rightarrow> redsync_mutex \<Rightarrow> 'w Mutex" where
  "redisMutex rs m = \<lparr>m_Extend = Extend rs m, m_Unlock = (\<lambda>timeout. Unlock rs timeout m)\<rparr>"

definition redisLocker :: "('w \<Rightarrow> goerr option) \<Rightarrow> 'w RedisLocker \<Rightarrow> 'w Locker" where
  "redisLocker ctxErr l =
     \<lparr>lk_TryLock = (\<lambda>key ttl w. let ((m, ok, e), w1) = TryLock l key ttl w
                               in ((map_option (redisMutex (rl_redsync l)) m, ok, e), w1)),
      lk_Lock = (\<lambda>key ttl delay w. case Lock l ctxErr key ttl delay w of
                    (Inl e, w1) \<Rightarrow> (Inl e, w1) | (Inr m, w1) \<Rightarrow> (Inr (redisMutex (rl_redsync l) m), w1))\<rparr>"

text \<open>
  What happens while the callback runs: the ticks of the renewal and the callback's own work, in any
  order. A tick says whether the lease's context has ended when it fires, and whether it has ended
  when a failed renewal returns.
\<close>

datatype 'w lease_event = LeaseTick bool bool | CallbackWork "'w \<Rightarrow> 'w"

fun leaseLoop :: "'w Mutex \<Rightarrow> 'w lease_event list \<Rightarrow> 'w \<Rightarrow> goerr option \<times> 'w" where
  "leaseLoop m [] w = (None, w)"
| "leaseLoop m (CallbackWork f # es) w = leaseLoop m es (f w)"
| "leaseLoop m (LeaseTick ended endedAfter # es) w =
     (if ended then (None, fold (\<lambda>e. case e of CallbackWork f \<Rightarrow> f | _ \<Rightarrow> id) es w)
      else
        (case m_Extend m w of
           (None, w1) \<Rightarrow> leaseLoop m es w1
         | (Some e, w1) \<Rightarrow>
             (if endedAfter then None else Some e, fold (\<lambda>e. case e of CallbackWork f \<Rightarrow> f | _ \<Rightarrow> id) es w1)))"

definition renewInterval :: "int \<Rightarrow> int" where
  "renewInterval ttl = (let i = go_div ttl 3 in if i \<le> 0 then 1 else i)"

definition unlockTimeout :: "int \<Rightarrow> int" where
  "unlockTimeout ttl = (if ttl > 5 * Second then 5 * Second else ttl)"

text \<open>
  The callback is the events of its run, given how often the renewal ticks, and its result, which may
  depend on whether renewal failed (its context is cancelled then).
\<close>

record 'w callback =
  cb_events :: "int \<Rightarrow> 'w lease_event list"
  cb_result :: "goerr option \<Rightarrow> 'w \<Rightarrow> goerr option"

definition runLease :: "'w Mutex \<Rightarrow> int \<Rightarrow> 'w callback \<Rightarrow> 'w \<Rightarrow> goerr option \<times> 'w" where
  "runLease m ttl fn w =
     (let (extendErr, w1) = leaseLoop m (cb_events fn (renewInterval ttl)) w;
          callbackErr = cb_result fn extendErr w1;
          (unlockErr, w2) = m_Unlock m (Some (unlockTimeout ttl)) w1
      in (errors_Join [callbackErr, extendErr, unlockErr], w2))"

definition validateLeaseInputs :: "'w Locker option \<Rightarrow> int \<Rightarrow> 'w callback option \<Rightarrow> goerr option" where
  "validateLeaseInputs locker ttl fn =
     (if locker = None \<or> fn = None then Some (Ext ''invalid distributed lock request: locker and callback are required'' [ErrInvalid])
      else if ttl < 3 * Millisecond
      then Some (Ext ''invalid distributed lock request: auto-renewed lock ttl must be at least 3ms'' [ErrInvalid])
      else None)"

definition WithLock ::
  "'w Locker option \<Rightarrow> string \<Rightarrow> int \<Rightarrow> int \<Rightarrow> 'w callback option \<Rightarrow> 'w \<Rightarrow> goerr option \<times> 'w" where
  "WithLock locker key ttl retryDelay fn w =
     (case validateLeaseInputs locker ttl fn of
        Some e \<Rightarrow> (Some e, w)
      | None \<Rightarrow>
          (case lk_Lock (the locker) key ttl retryDelay w of
             (Inl e, w1) \<Rightarrow> (Some e, w1)
           | (Inr m, w1) \<Rightarrow> runLease m ttl (the fn) w1))"

definition TryWithLock ::
  "'w Locker option \<Rightarrow> string \<Rightarrow> int \<Rightarrow> 'w callback option \<Rightarrow> 'w \<Rightarrow> (bool \<times> goerr option) \<times> 'w" where
  "TryWithLock locker key ttl fn w =
     (case validateLeaseInputs locker ttl fn of
        Some e \<Rightarrow> ((False, Some e), w)
      | None \<Rightarrow>
          (case lk_TryLock (the locker) key ttl w of
             ((m, acquired, e), w1) \<Rightarrow>
               if e \<noteq> None \<or> \<not> acquired then ((acquired, e), w1)
               else (let (err, w2) = runLease (the m) ttl (the fn) w1 in ((True, err), w2))))"

lemma renew_before_expiry:
  "validateLeaseInputs locker ttl fn = None \<Longrightarrow> 0 < renewInterval ttl \<and> 3 * renewInterval ttl \<le> ttl"
  by (auto simp: validateLeaseInputs_def renewInterval_def go_div_def Let_def Millisecond_def split: if_splits)

section \<open>The contract of the lock server\<close>

text \<open>
  What the code relies on of redsync: a name is locked by at most one holder at a time, and an
  acknowledged unlock frees it.
\<close>

locale redsync_server =
  fixes rs :: "'w redsync" and held :: "'w \<Rightarrow> string \<Rightarrow> bool"
  assumes try_lock: "TryLockContext rs m w = (None, w') \<Longrightarrow> \<not> held w (mx_name m) \<and> held w' (mx_name m)"
    and lock: "LockContext rs m w = (None, w') \<Longrightarrow> held w' (mx_name m)"
    and unlock: "UnlockContext rs timeout m w = ((True, None), w') \<Longrightarrow> \<not> held w' (mx_name m)"
begin

lemma Unlock_frees: "Unlock rs timeout m w = (None, w') \<Longrightarrow> \<not> held w' (mx_name m)"
  by (auto simp: Unlock_def split: prod.splits option.splits if_splits dest: unlock)

lemma TryLock_acquires:
  assumes "TryLock l key ttl w = ((Some m, ok, e), w1)" "rl_redsync l = rs"
  shows "\<not> held w (rl_prefix l @ key) \<and> held w1 (rl_prefix l @ key) \<and> mx_name m = rl_prefix l @ key \<and> ok \<and> e = None"
proof -
  obtain m0 where m0: "newMutex l key ttl (Some 1) None = Inr m0" "TryLockContext rs m0 w = (None, w1)" "m = m0" "ok" "e = None"
    using assms by (auto simp: TryLock_def split: sum.splits prod.splits option.splits if_splits)
  moreover have "mx_name m0 = rl_prefix l @ key" using m0(1) by (auto simp: newMutex_def split: if_splits)
  ultimately show ?thesis using try_lock[OF m0(2)] by simp
qed

lemma runLease_frees:
  assumes "runLease (redisMutex rs m) ttl fn w = (None, w')"
  shows "\<not> held w' (mx_name m)"
proof -
  obtain x w1 where l: "leaseLoop (redisMutex rs m) (cb_events fn (renewInterval ttl)) w = (x, w1)" by fastforce
  obtain u w2 where u: "Unlock rs (Some (unlockTimeout ttl)) m w1 = (u, w2)" by fastforce
  have "u = None \<and> w2 = w'" using assms l u by (simp add: runLease_def redisMutex_def Let_def)
  then show ?thesis using Unlock_frees u by blast
qed

end

text \<open>Redsync's locks in memory: the names that are locked; locking waits for no one.\<close>

definition mem_redsync :: "string list redsync" where
  "mem_redsync =
     \<lparr>rs_ErrFailed = Ext ''failed'' [], rs_ErrLockAlreadyExpired = Ext ''expired'' [], rs_isErrTaken = (\<lambda>e. False),
      TryLockContext = (\<lambda>m w. if mx_name m \<in> set w then (Some (Ext ''failed'' []), w) else (None, mx_name m # w)),
      LockContext = (\<lambda>m w. if mx_name m \<in> set w then (Some (Ext ''failed'' []), w) else (None, mx_name m # w)),
      ExtendContext = (\<lambda>m w. ((mx_name m \<in> set w, None), w)),
      UnlockContext = (\<lambda>_ m w. ((mx_name m \<in> set w, None), filter (\<lambda>n. n \<noteq> mx_name m) w))\<rparr>"

interpretation mem_locks: redsync_server mem_redsync "\<lambda>w n. n \<in> set w"
  by unfold_locales (auto simp: mem_redsync_def split: if_splits)

text \<open>C24. TryWithLock keeps the lock's promise. While the key is locked it does not run the callback and reports that it did
  not; when it ran the callback the key was free and then locked; and when it returns without an error after
  running it, the key is free again.\<close>

theorem distlock_try_with_lock:
  assumes "redsync_server rs held" "rl_redsync l = rs"
    and "TryWithLock (Some (redisLocker ctxErr l)) key ttl (Some fn) w = ((did, err), w')"
  shows "(held w (rl_prefix l @ key) \<longrightarrow> \<not> did \<and> (w' = w \<or> w' = snd (TryLock l key ttl w))) \<and>
    (did \<longrightarrow> held (snd (TryLock l key ttl w)) (rl_prefix l @ key)) \<and>
    (did \<and> err = None \<longrightarrow> \<not> held w' (rl_prefix l @ key))"
proof -
  obtain m ok e w1 where t: "TryLock l key ttl w = ((m, ok, e), w1)" by (metis surj_pair)
  show ?thesis
  proof (cases "validateLeaseInputs (Some (redisLocker ctxErr l)) ttl (Some fn) = None \<and> e = None \<and> ok")
    case False
    have "e \<noteq> None \<Longrightarrow> \<not> ok"
      using t by (auto simp: TryLock_def split: sum.splits prod.splits option.splits if_splits)
    then have "\<not> did \<and> (w' = w \<or> w' = w1)"
      using assms(3) t False
      by (cases "validateLeaseInputs (Some (redisLocker ctxErr l)) ttl (Some fn)"; cases ok)
        (auto simp: TryWithLock_def redisLocker_def split: if_splits)
    then show ?thesis using t by auto
  next
    case True
    then obtain m0 where m0: "m = Some m0"
      using t by (auto simp: TryLock_def split: sum.splits prod.splits option.splits if_splits)
    note a = redsync_server.TryLock_acquires[OF assms(1) t[unfolded m0] assms(2)]
    obtain x w2 where r: "runLease (redisMutex rs m0) ttl fn w1 = (x, w2)" by fastforce
    have "did \<and> err = x \<and> w' = w2"
      using assms(2,3) t True m0 r by (simp add: TryWithLock_def redisLocker_def)
    then show ?thesis
      using a t redsync_server.runLease_frees[OF assms(1), of m0 ttl fn w1 w'] r by auto
  qed
qed

theorem distlock_try_with_lock_witness:
  "\<not> fst (fst (TryWithLock (Some (redisLocker (\<lambda>_. None) (NewRedisLocker mem_redsync))) ''job'' Second
        (Some \<lparr>cb_events = (\<lambda>_. []), cb_result = (\<lambda>_ _. None)\<rparr>) [''lock:job'']))"
proof -
  have p: "rl_redsync (NewRedisLocker mem_redsync) = mem_redsync" "rl_prefix (NewRedisLocker mem_redsync) = ''lock:''"
    by (simp add: NewRedisLocker_def NewRedisLockerWithPrefix_def, code_simp)
  show ?thesis
    using distlock_try_with_lock[OF mem_locks.redsync_server_axioms p(1) prod.collapse[symmetric, THEN trans],
        where w = "[''lock:job'']" and key = "''job''"]
    by (metis append_Cons append_Nil list.set_intros(1) p(2) prod.collapse)
qed

end
