(* ===== verification/Cache.thy ===== *)
theory Cache
  imports Go_Strings "HOL-Library.Sublist"
begin

text \<open>
  The distributed cache (\<open>src/cache/redis.go\<close>). The go-redis client is a parameter: a record of
  the string commands the store issues, with their answers and errors, over an arbitrary server
  state. Keys are byte strings; a key's bytes, the prefix and the value's size are checked exactly as
  the code does.
\<close>

definition ErrMiss :: goerr where "ErrMiss = Sentinel ''cache miss''"
definition ErrInvalidKey :: goerr where "ErrInvalidKey = Sentinel ''invalid cache key''"
definition ErrInvalidTTL :: goerr where "ErrInvalidTTL = Sentinel ''invalid cache ttl''"
definition ErrValueTooLarge :: goerr where "ErrValueTooLarge = Sentinel ''cache value too large''"
definition ErrUnavailable :: goerr where "ErrUnavailable = Sentinel ''cache backend unavailable''"

lemmas cache_errors = ErrMiss_def ErrInvalidKey_def ErrInvalidTTL_def ErrValueTooLarge_def ErrUnavailable_def

definition defaultMaxValueBytes :: int where "defaultMaxValueBytes = 16 * 2 ^ 20"

record 's kv =
  redis_Nil :: goerr
  kv_Get :: "string \<Rightarrow> 's \<Rightarrow> (goerr + string) \<times> 's"
  kv_Set :: "string \<Rightarrow> string \<Rightarrow> int \<Rightarrow> 's \<Rightarrow> goerr option \<times> 's"
  kv_SetNX :: "string \<Rightarrow> string \<Rightarrow> int \<Rightarrow> 's \<Rightarrow> (goerr + bool) \<times> 's"
  kv_Del :: "string list \<Rightarrow> 's \<Rightarrow> goerr option \<times> 's"
  kv_Exists :: "string \<Rightarrow> 's \<Rightarrow> (goerr + int) \<times> 's"

record 's RedisStore =
  rs_client :: "'s kv option"
  rs_prefix :: string
  maxValueBytes :: int

definition WithKeyPrefix :: "string \<Rightarrow> 's RedisStore \<Rightarrow> 's RedisStore" where
  "WithKeyPrefix p store = store\<lparr>rs_prefix := p\<rparr>"

definition WithMaxValueBytes :: "int \<Rightarrow> 's RedisStore \<Rightarrow> 's RedisStore" where
  "WithMaxValueBytes n store = store\<lparr>maxValueBytes := n\<rparr>"

definition NewRedisStore :: "'s kv option \<Rightarrow> ('s RedisStore \<Rightarrow> 's RedisStore) list \<Rightarrow> 's RedisStore" where
  "NewRedisStore client options =
     fold (\<lambda>opt store. opt store) options
       \<lparr>rs_client = client, rs_prefix = [], maxValueBytes = defaultMaxValueBytes\<rparr>"

text \<open>The store may be a nil pointer, and its client a nil interface.\<close>

definition qualifiedKey :: "'s RedisStore option \<Rightarrow> string \<Rightarrow> goerr + string" where
  "qualifiedKey s key =
     (case s of
        None \<Rightarrow> Inl ErrUnavailable
      | Some st \<Rightarrow>
          if rs_client st = None then Inl ErrUnavailable
          else
            (let qualified = rs_prefix st @ key
             in if key = [] \<or> key \<noteq> TrimSpace key \<or> rs_prefix st \<noteq> TrimSpace (rs_prefix st) \<or> length key > 1024 \<or>
                   length qualified > 2048 \<or> has_control key \<or> has_control (rs_prefix st)
                then Inl ErrInvalidKey else Inr qualified))"

definition tooLarge :: "string \<Rightarrow> int \<Rightarrow> goerr" where
  "tooLarge v limit =
     Ext (''cache value too large: got '' @ Itoa (int (length v)) @ '' bytes, maximum '' @ Itoa limit) [ErrValueTooLarge]"

definition validate_entry :: "'s RedisStore option \<Rightarrow> string \<Rightarrow> string \<Rightarrow> int \<Rightarrow> goerr + string" where
  "validate_entry s key v ttl =
     (case qualifiedKey s key of
        Inl e \<Rightarrow> Inl e
      | Inr qualified \<Rightarrow>
          if ttl < 0 then Inl ErrInvalidTTL
          else if int (length v) > maxValueBytes (the s) then Inl (tooLarge v (maxValueBytes (the s)))
          else Inr qualified)"

definition Get :: "'s RedisStore option \<Rightarrow> string \<Rightarrow> 's \<Rightarrow> (goerr + string) \<times> 's" where
  "Get s key w =
     (case qualifiedKey s key of
        Inl e \<Rightarrow> (Inl e, w)
      | Inr qualified \<Rightarrow>
          (let c = the (rs_client (the s))
           in case kv_Get c qualified w of
                (Inl err, w1) \<Rightarrow>
                  if errors_Is err (redis_Nil c) then (Inl ErrMiss, w1)
                  else (Inl (Wrap (''get cache key '' @ quoted qualified) err), w1)
              | (Inr v, w1) \<Rightarrow>
                  if int (length v) > maxValueBytes (the s) then (Inl (tooLarge v (maxValueBytes (the s))), w1)
                  else (Inr v, w1)))"

definition Set_entry :: "'s RedisStore option \<Rightarrow> string \<Rightarrow> string \<Rightarrow> int \<Rightarrow> 's \<Rightarrow> goerr option \<times> 's" where
  "Set_entry s key v ttl w =
     (case validate_entry s key v ttl of
        Inl e \<Rightarrow> (Some e, w)
      | Inr qualified \<Rightarrow>
          (case kv_Set (the (rs_client (the s))) qualified v ttl w of
             (Some err, w1) \<Rightarrow> (Some (Wrap (''set cache key '' @ quoted qualified) err), w1)
           | (None, w1) \<Rightarrow> (None, w1)))"

definition SetIfAbsent :: "'s RedisStore option \<Rightarrow> string \<Rightarrow> string \<Rightarrow> int \<Rightarrow> 's \<Rightarrow> (bool \<times> goerr option) \<times> 's" where
  "SetIfAbsent s key v ttl w =
     (case validate_entry s key v ttl of
        Inl e \<Rightarrow> ((False, Some e), w)
      | Inr qualified \<Rightarrow>
          (case kv_SetNX (the (rs_client (the s))) qualified v ttl w of
             (Inl err, w1) \<Rightarrow> ((False, Some (Wrap (''set cache key '' @ quoted qualified @ '' if absent'') err)), w1)
           | (Inr created, w1) \<Rightarrow> ((created, None), w1)))"

fun qualifiedKeys :: "'s RedisStore option \<Rightarrow> string list \<Rightarrow> goerr + string list" where
  "qualifiedKeys s [] = Inr []"
| "qualifiedKeys s (key # keys) =
     (case qualifiedKey s key of
        Inl e \<Rightarrow> Inl e
      | Inr q \<Rightarrow> (case qualifiedKeys s keys of Inl e \<Rightarrow> Inl e | Inr qs \<Rightarrow> Inr (q # qs)))"

definition Delete :: "'s RedisStore option \<Rightarrow> string list \<Rightarrow> 's \<Rightarrow> goerr option \<times> 's" where
  "Delete s keys w =
     (if keys = [] then (None, w)
      else if length keys > 1000 then (Some (Ext ''invalid cache key: delete accepts at most 1000 keys'' [ErrInvalidKey]), w)
      else
        (case qualifiedKeys s keys of
           Inl e \<Rightarrow> (Some e, w)
         | Inr qualified \<Rightarrow>
             (case kv_Del (the (rs_client (the s))) qualified w of
                (Some err, w1) \<Rightarrow> (Some (Wrap ''delete cache keys'' err), w1)
              | (None, w1) \<Rightarrow> (None, w1))))"

definition Exists :: "'s RedisStore option \<Rightarrow> string \<Rightarrow> 's \<Rightarrow> (bool \<times> goerr option) \<times> 's" where
  "Exists s key w =
     (case qualifiedKey s key of
        Inl e \<Rightarrow> ((False, Some e), w)
      | Inr qualified \<Rightarrow>
          (case kv_Exists (the (rs_client (the s))) qualified w of
             (Inl err, w1) \<Rightarrow> ((False, Some (Wrap (''check cache key '' @ quoted qualified) err)), w1)
           | (Inr n, w1) \<Rightarrow> ((n > 0, None), w1)))"

text \<open>
  The \<open>Store\<close> interface, and the typed access on top of it. \<open>json.Marshal\<close> and
  \<open>json.Unmarshal\<close> at the type in question are parameters.
\<close>

record 's Store =
  st_Get :: "string \<Rightarrow> 's \<Rightarrow> (goerr + string) \<times> 's"
  st_Set :: "string \<Rightarrow> string \<Rightarrow> int \<Rightarrow> 's \<Rightarrow> goerr option \<times> 's"
  st_SetIfAbsent :: "string \<Rightarrow> string \<Rightarrow> int \<Rightarrow> 's \<Rightarrow> (bool \<times> goerr option) \<times> 's"
  st_Delete :: "string list \<Rightarrow> 's \<Rightarrow> goerr option \<times> 's"
  st_Exists :: "string \<Rightarrow> 's \<Rightarrow> (bool \<times> goerr option) \<times> 's"

definition redisStore :: "'s RedisStore \<Rightarrow> 's Store" where
  "redisStore s =
     \<lparr>st_Get = Get (Some s), st_Set = Set_entry (Some s), st_SetIfAbsent = SetIfAbsent (Some s),
      st_Delete = Delete (Some s), st_Exists = Exists (Some s)\<rparr>"

definition GetJSON :: "(string \<Rightarrow> goerr + 't) \<Rightarrow> 's Store option \<Rightarrow> string \<Rightarrow> 's \<Rightarrow> (goerr + 't) \<times> 's" where
  "GetJSON Unmarshal store key w =
     (case store of
        None \<Rightarrow> (Inl ErrUnavailable, w)
      | Some st \<Rightarrow>
          (case st_Get st key w of
             (Inl e, w1) \<Rightarrow> (Inl e, w1)
           | (Inr data, w1) \<Rightarrow>
               (case Unmarshal data of
                  Inl e \<Rightarrow> (Inl (Wrap (''decode cache key '' @ quoted key) e), w1)
                | Inr v \<Rightarrow> (Inr v, w1))))"

definition SetJSON ::
  "('t \<Rightarrow> goerr + string) \<Rightarrow> 's Store option \<Rightarrow> string \<Rightarrow> 't \<Rightarrow> int \<Rightarrow> 's \<Rightarrow> goerr option \<times> 's" where
  "SetJSON Marshal store key v ttl w =
     (case store of
        None \<Rightarrow> (Some ErrUnavailable, w)
      | Some st \<Rightarrow>
          (case Marshal v of
             Inl e \<Rightarrow> (Some (Wrap (''encode cache key '' @ quoted key) e), w)
           | Inr data \<Rightarrow> st_Set st key data ttl w))"

section \<open>The contract of the server\<close>

text \<open>
  The commands as Redis and go-redis document them. A command reaches the server some time after it is
  issued: \<open>clock s'\<close>, in milliseconds, is the instant at which the command that led to \<open>s'\<close> was
  executed. \<open>future s t k\<close> is what the server would answer for the key at an instant \<open>t\<close> from now
  on if nobody wrote it meanwhile. A duration of zero asks for an entry that stays; a positive one is sent in
  whole milliseconds, at least one, and at its end the entry is gone. Every command may fail, and a write whose
  answer is an error may still have been executed. Keys are not evicted before their time, which is the
  server's default policy.
\<close>

definition px :: "int \<Rightarrow> int" where
  "px ttl = (if 0 < ttl \<and> ttl < Millisecond then 1 else ttl div Millisecond)"

definition alive :: "int \<Rightarrow> int \<Rightarrow> int \<Rightarrow> bool" where
  "alive t0 ttl t \<longleftrightarrow> ttl = 0 \<or> t < t0 + px ttl"

definition becomes ::
  "('s \<Rightarrow> int) \<Rightarrow> ('s \<Rightarrow> int \<Rightarrow> string \<rightharpoonup> string) \<Rightarrow> 's \<Rightarrow> (int \<Rightarrow> (string \<rightharpoonup> string) \<Rightarrow> (string \<rightharpoonup> string)) \<Rightarrow> 's \<Rightarrow> bool" where
  "becomes clock future s f s' \<longleftrightarrow> clock s \<le> clock s' \<and> (\<forall>t \<ge> clock s'. future s' t = f t (future s t))"

locale kv_server =
  fixes C :: "'s kv" and clock :: "'s \<Rightarrow> int" and future :: "'s \<Rightarrow> int \<Rightarrow> string \<rightharpoonup> string"
  assumes get_keeps: "kv_Get C k s = (answer, s') \<Longrightarrow> becomes clock future s (\<lambda>t m. m) s'"
    and get_value: "kv_Get C k s = (Inr v, s') \<Longrightarrow> future s (clock s') k = Some v"
    and get_nil: "kv_Get C k s = (Inl e, s') \<Longrightarrow> errors_Is e (redis_Nil C) \<Longrightarrow> future s (clock s') k = None"
    and set_entry: "0 \<le> ttl \<Longrightarrow> kv_Set C k v ttl s = (r, s') \<Longrightarrow>
      becomes clock future s (\<lambda>t m. m(k := if alive (clock s') ttl t then Some v else None)) s' \<or>
      (r \<noteq> None \<and> becomes clock future s (\<lambda>t m. m) s')"
    and setnx: "0 \<le> ttl \<Longrightarrow> kv_SetNX C k v ttl s = (created, s') \<Longrightarrow>
      (becomes clock future s (\<lambda>t m. if future s (clock s') k = None
         then m(k := if alive (clock s') ttl t then Some v else None) else m) s' \<and>
       (\<forall>b. created = Inr b \<longrightarrow> b = (future s (clock s') k = None))) \<or>
      ((\<exists>e. created = Inl e) \<and> becomes clock future s (\<lambda>t m. m) s')"
    and del: "kv_Del C ks s = (r, s') \<Longrightarrow>
      becomes clock future s (\<lambda>t m. m |` (- set ks)) s' \<or> (r \<noteq> None \<and> becomes clock future s (\<lambda>t m. m) s')"
    and exists_keeps: "kv_Exists C k s = (found, s') \<Longrightarrow> becomes clock future s (\<lambda>t m. m) s'"
    and exists_count: "kv_Exists C k s = (Inr n, s') \<Longrightarrow> n = (if future s (clock s') k = None then 0 else 1)"

text \<open>
  A server in memory: entries with their deadlines, a clock that a command moves on by a millisecond before
  it is executed, and a switch that makes the server answer with an error.
\<close>

record mem_kv_state =
  mk_entries :: "(string \<times> string \<times> int option) list"
  mk_clock :: int
  mk_down :: bool

definition mk_future :: "mem_kv_state \<Rightarrow> int \<Rightarrow> string \<rightharpoonup> string" where
  "mk_future s t k =
     (case map_of (mk_entries s) k of
        None \<Rightarrow> None
      | Some (v, deadline) \<Rightarrow> (case deadline of None \<Rightarrow> Some v | Some d \<Rightarrow> if t < d then Some v else None))"

definition mk_tick :: "mem_kv_state \<Rightarrow> mem_kv_state" where
  "mk_tick s = s\<lparr>mk_clock := mk_clock s + 1\<rparr>"

definition mk_put :: "string \<Rightarrow> string \<Rightarrow> int \<Rightarrow> mem_kv_state \<Rightarrow> mem_kv_state" where
  "mk_put k v ttl s =
     s\<lparr>mk_entries := (k, v, if ttl = 0 then None else Some (mk_clock s + px ttl)) # mk_entries s\<rparr>"

definition mem_kv :: "mem_kv_state kv" where
  "mem_kv =
     \<lparr>redis_Nil = Ext ''redis: nil'' [],
      kv_Get = (\<lambda>k s. let s1 = mk_tick s
                      in if mk_down s then (Inl (Ext ''connection refused'' []), s1)
                         else (case mk_future s1 (mk_clock s1) k of None \<Rightarrow> (Inl (Ext ''redis: nil'' []), s1) | Some v \<Rightarrow> (Inr v, s1))),
      kv_Set = (\<lambda>k v ttl s. let s1 = mk_tick s
                      in if mk_down s then (Some (Ext ''connection refused'' []), s1) else (None, mk_put k v ttl s1)),
      kv_SetNX = (\<lambda>k v ttl s. let s1 = mk_tick s
                      in if mk_down s then (Inl (Ext ''connection refused'' []), s1)
                         else if mk_future s1 (mk_clock s1) k = None then (Inr True, mk_put k v ttl s1)
                         else (Inr False, s1)),
      kv_Del = (\<lambda>ks s. let s1 = mk_tick s
                      in if mk_down s then (Some (Ext ''connection refused'' []), s1)
                         else (None, s1\<lparr>mk_entries := filter (\<lambda>(k, v). k \<notin> set ks) (mk_entries s1)\<rparr>)),
      kv_Exists = (\<lambda>k s. let s1 = mk_tick s
                      in if mk_down s then (Inl (Ext ''connection refused'' []), s1)
                         else (Inr (if mk_future s1 (mk_clock s1) k = None then 0 else 1), s1))\<rparr>"

lemma map_of_filter_keys: "map_of (filter (\<lambda>(k, v). k \<notin> A) xs) = map_of xs |` (- A)"
  by (induction xs) (auto simp: restrict_map_def fun_eq_iff)

lemma mk_future_simps [simp]:
  "mk_future (mk_tick s) = mk_future s" "mk_clock (mk_tick s) = mk_clock s + 1" "mk_clock (mk_put k v ttl s) = mk_clock s"
  "mk_future (mk_put k v ttl s) t = (mk_future s t)(k := if alive (mk_clock s) ttl t then Some v else None)"
  "mk_future (s\<lparr>mk_entries := filter (\<lambda>(k, v). k \<notin> A) (mk_entries s)\<rparr>) t = mk_future s t |` (- A)"
  by (auto simp: mk_future_def mk_tick_def mk_put_def alive_def fun_eq_iff map_of_filter_keys restrict_map_def)

interpretation mem_kv: kv_server mem_kv mk_clock mk_future
  by unfold_locales (auto simp: mem_kv_def becomes_def Let_def split: if_splits option.splits)


section \<open>The store refines a map with deadlines\<close>

type_synonym timed_map = "string \<rightharpoonup> string \<times> int option"

definition visible :: "timed_map \<Rightarrow> int \<Rightarrow> string \<rightharpoonup> string" where
  "visible m t k =
     (case m k of
        None \<Rightarrow> None
      | Some (v, deadline) \<Rightarrow> (case deadline of None \<Rightarrow> Some v | Some d \<Rightarrow> if t < d then Some v else None))"

definition deadline :: "int \<Rightarrow> int \<Rightarrow> int option" where
  "deadline t ttl = (if ttl = 0 then None else Some (t + px ttl))"

datatype cache_cmd = CmdSet string string int | CmdSetIfAbsent string string int | CmdDelete "string list"

fun cache_do :: "'s RedisStore \<Rightarrow> cache_cmd \<Rightarrow> 's \<Rightarrow> goerr option \<times> 's" where
  "cache_do st (CmdSet k v ttl) w = Set_entry (Some st) k v ttl w"
| "cache_do st (CmdSetIfAbsent k v ttl) w = (let ((b, e), w1) = SetIfAbsent (Some st) k v ttl w in (e, w1))"
| "cache_do st (CmdDelete ks) w = Delete (Some st) ks w"

text \<open>Commands of several stores on one server, with their errors and the states after them.\<close>

fun cache_run :: "('s RedisStore \<times> cache_cmd) list \<Rightarrow> 's \<Rightarrow> (goerr option \<times> 's) list \<times> 's" where
  "cache_run [] w = ([], w)"
| "cache_run ((st, c) # cs) w = (let (e, w1) = cache_do st c w; (outs, w2) = cache_run cs w1 in ((e, w1) # outs, w2))"

fun map_do :: "cache_cmd \<Rightarrow> int \<Rightarrow> timed_map \<Rightarrow> timed_map" where
  "map_do (CmdSet k v ttl) t m = m(k \<mapsto> (v, deadline t ttl))"
| "map_do (CmdSetIfAbsent k v ttl) t m = (if visible m t k = None then m(k \<mapsto> (v, deadline t ttl)) else m)"
| "map_do (CmdDelete ks) t m = m |` (- set ks)"

text \<open>
  What a run may do to the map of the stores with prefix \<open>p\<close>: their acknowledged commands take effect, each
  at its instant, failed ones take effect or do not, and the commands of other stores do nothing.
\<close>

inductive cache_history ::
  "string \<Rightarrow> ('s \<Rightarrow> int) \<Rightarrow> (('s RedisStore \<times> cache_cmd) \<times> goerr option \<times> 's) list \<Rightarrow> timed_map \<Rightarrow> timed_map \<Rightarrow> bool"
  for p clock where
  hist_done: "cache_history p clock [] m m"
| hist_foreign: "rs_prefix st \<noteq> p \<Longrightarrow> cache_history p clock xs m m' \<Longrightarrow> cache_history p clock (((st, c), e, w) # xs) m m'"
| hist_applied: "rs_prefix st = p \<Longrightarrow> cache_history p clock xs (map_do c (clock w) m) m' \<Longrightarrow>
    cache_history p clock (((st, c), e, w) # xs) m m'"
| hist_lost: "rs_prefix st = p \<Longrightarrow> e \<noteq> None \<Longrightarrow> cache_history p clock xs m m' \<Longrightarrow>
    cache_history p clock (((st, c), e, w) # xs) m m'"

text \<open>From now on the server shows the map under the prefix.\<close>

definition holds_map :: "('s \<Rightarrow> int) \<Rightarrow> ('s \<Rightarrow> int \<Rightarrow> string \<rightharpoonup> string) \<Rightarrow> string \<Rightarrow> 's \<Rightarrow> timed_map \<Rightarrow> bool" where
  "holds_map clock future p w m \<longleftrightarrow> (\<forall>t \<ge> clock w. \<forall>k. future w t (p @ k) = visible m t k)"

definition apart :: "string \<Rightarrow> string \<Rightarrow> bool" where
  "apart p q \<longleftrightarrow> \<not> prefix p q \<and> \<not> prefix q p"

text \<open>What a command of the store asks of the server.\<close>

fun server_do :: "string \<Rightarrow> cache_cmd \<Rightarrow> int \<Rightarrow> (string \<rightharpoonup> string) \<Rightarrow> int \<Rightarrow> (string \<rightharpoonup> string) \<Rightarrow> (string \<rightharpoonup> string)" where
  "server_do p (CmdSet k v ttl) t0 present t m = m(p @ k := if alive t0 ttl t then Some v else None)"
| "server_do p (CmdSetIfAbsent k v ttl) t0 present t m =
     (if present (p @ k) = None then m(p @ k := if alive t0 ttl t then Some v else None) else m)"
| "server_do p (CmdDelete ks) t0 present t m = m |` (- (@) p ` set ks)"

lemma qualifiedKey_Inr:
  "qualifiedKey (Some st) key = Inr q \<Longrightarrow> q = rs_prefix st @ key \<and> rs_client st \<noteq> None"
  by (auto simp: qualifiedKey_def Let_def split: if_splits)

lemma qualifiedKeys_Inr: "qualifiedKeys (Some st) keys = Inr qs \<Longrightarrow> qs = map (\<lambda>k. rs_prefix st @ k) keys"
  by (induction keys arbitrary: qs) (auto split: sum.splits dest: qualifiedKey_Inr)

lemma validate_entry_Inr:
  "validate_entry (Some st) key v ttl = Inr q \<Longrightarrow>
     q = rs_prefix st @ key \<and> qualifiedKey (Some st) key = Inr q \<and> int (length v) \<le> maxValueBytes st \<and> 0 \<le> ttl"
  by (auto simp: validate_entry_def split: sum.splits if_splits dest: qualifiedKey_Inr)

lemma becomes_refl: "becomes clock future w (\<lambda>t m. m) w"
  by (simp add: becomes_def)

lemma visible_deadline: "visible (m(k \<mapsto> (v, deadline t0 ttl))) t = (visible m t)(k := if alive t0 ttl t then Some v else None)"
  by (auto simp: visible_def deadline_def alive_def fun_eq_iff)

lemma restrict_apply: "(m |` A) x = (if x \<in> A then m x else None)"
  by (simp add: restrict_map_def)

lemma visible_restrict: "visible (m |` A) t k = (if k \<in> A then visible m t k else None)"
  by (simp add: visible_def restrict_apply)

lemma server_do_abs:
  "server_do p (CmdSet k v ttl) t0 present = (\<lambda>t m. m(p @ k := if alive t0 ttl t then Some v else None))"
  "server_do p (CmdSetIfAbsent k v ttl) t0 present =
     (\<lambda>t m. if present (p @ k) = None then m(p @ k := if alive t0 ttl t then Some v else None) else m)"
  "server_do p (CmdDelete ks) t0 present = (\<lambda>t m. m |` (- (@) p ` set ks))"
  by (simp_all add: fun_eq_iff)

lemma apart_keys: "apart q p \<Longrightarrow> p @ k \<noteq> q @ k'"
  unfolding apart_def by (metis prefix_same_cases prefixI)

lemma holds_same: "becomes clock future w (\<lambda>t m. m) w1 \<Longrightarrow> holds_map clock future p w m \<Longrightarrow> holds_map clock future p w1 m"
  by (simp add: becomes_def holds_map_def)

lemma holds_own:
  assumes "becomes clock future w (server_do p cmd (clock w1) (future w (clock w1))) w1" "holds_map clock future p w m"
  shows "holds_map clock future p w1 (map_do cmd (clock w1) m)"
  using assms
  by (cases cmd) (auto simp: becomes_def holds_map_def visible_deadline visible_restrict restrict_apply)

lemma holds_foreign:
  assumes "becomes clock future w (server_do q cmd t0 present) w1" "holds_map clock future p w m" "apart q p"
  shows "holds_map clock future p w1 m"
  using assms apart_keys[OF assms(3)] by (cases cmd) (auto simp: becomes_def holds_map_def restrict_map_def)

context kv_server
begin

lemma cache_do_server:
  assumes c: "rs_client st = Some C" and r: "cache_do st cmd w = (e, w1)"
  shows "becomes clock future w (server_do (rs_prefix st) cmd (clock w1) (future w (clock w1))) w1 \<or>
    (e \<noteq> None \<and> becomes clock future w (\<lambda>t m. m) w1)"
proof (cases cmd)
  case (CmdSet k v ttl)
  show ?thesis
  proof (cases "validate_entry (Some st) k v ttl")
    case (Inl err)
    then show ?thesis using r CmdSet by (auto simp: Set_entry_def becomes_refl)
  next
    case (Inr q)
    note v = validate_entry_Inr[OF Inr]
    obtain x w2 where x: "kv_Set C q v ttl w = (x, w2)" by fastforce
    then have "w2 = w1" "x \<noteq> None \<Longrightarrow> e \<noteq> None" using r c CmdSet Inr by (auto simp: Set_entry_def split: option.splits)
    then show ?thesis using set_entry[OF _ x] v CmdSet by (auto simp: server_do_abs)
  qed
next
  case (CmdSetIfAbsent k v ttl)
  show ?thesis
  proof (cases "validate_entry (Some st) k v ttl")
    case (Inl err)
    then show ?thesis using r CmdSetIfAbsent by (auto simp: SetIfAbsent_def becomes_refl)
  next
    case (Inr q)
    note v = validate_entry_Inr[OF Inr]
    obtain x w2 where x: "kv_SetNX C q v ttl w = (x, w2)" by fastforce
    then have "w2 = w1" "\<And>err. x = Inl err \<Longrightarrow> e \<noteq> None"
      using r c CmdSetIfAbsent Inr by (auto simp: SetIfAbsent_def split: sum.splits)
    then show ?thesis using setnx[OF _ x] v CmdSetIfAbsent by (auto simp: server_do_abs)
  qed
next
  case (CmdDelete ks)
  consider "ks = []" | "length ks > 1000" "ks \<noteq> []" | err where "qualifiedKeys (Some st) ks = Inl err" "ks \<noteq> []"
    | qs where "qualifiedKeys (Some st) ks = Inr qs" "ks \<noteq> []" "length ks \<le> 1000"
    by (cases "qualifiedKeys (Some st) ks") force+
  then show ?thesis
  proof cases
    case (4 qs)
    obtain x w2 where x: "kv_Del C qs w = (x, w2)" by fastforce
    then have "w2 = w1" "x \<noteq> None \<Longrightarrow> e \<noteq> None" using r c CmdDelete 4 by (auto simp: Delete_def split: option.splits)
    then show ?thesis using del[OF x] qualifiedKeys_Inr[OF 4(1)] CmdDelete by (auto simp: server_do_abs)
  qed (use r CmdDelete in \<open>auto simp: Delete_def becomes_def restrict_map_def split: if_splits\<close>)
qed

lemma cache_run_history:
  assumes "\<forall>(st, c) \<in> set cmds. rs_client st = Some C \<and> (rs_prefix st = p \<or> apart (rs_prefix st) p)"
    and "cache_run cmds w = (outs, w1)" "holds_map clock future p w m"
  shows "\<exists>m'. cache_history p clock (zip cmds outs) m m' \<and> holds_map clock future p w1 m'"
  using assms
proof (induction cmds arbitrary: w outs m)
  case Nil
  then show ?case by (auto intro: hist_done)
next
  case (Cons x cs)
  obtain st c where x: "x = (st, c)" by fastforce
  obtain e w2 where 1: "cache_do st c w = (e, w2)" by fastforce
  obtain outs2 w3 where 2: "cache_run cs w2 = (outs2, w3)" by fastforce
  have o: "outs = (e, w2) # outs2" "w3 = w1" using Cons.prems(2) x 1 2 by simp_all
  have st: "rs_client st = Some C" "rs_prefix st = p \<or> apart (rs_prefix st) p" using Cons.prems(1) x by auto
  note step = cache_do_server[OF st(1) 1]
  note IH = Cons.IH[OF _ 2[unfolded o(2)]]
  consider (own) "rs_prefix st = p" "holds_map clock future p w2 (map_do c (clock w2) m)"
    | (lost) "rs_prefix st = p" "e \<noteq> None" "holds_map clock future p w2 m"
    | (foreign) "rs_prefix st \<noteq> p" "holds_map clock future p w2 m"
    using step st(2) holds_own[OF _ Cons.prems(3)] holds_foreign[OF _ Cons.prems(3)] holds_same[OF _ Cons.prems(3)]
    by (metis apart_def prefix_order.order_refl)
  then show ?case
    using Cons.prems(1) IH unfolding x o(1) zip_Cons_Cons
    by cases (fastforce intro: hist_applied hist_lost hist_foreign)+
qed

lemma Get_reads:
  assumes "rs_client st = Some C" "Get (Some st) k w = (r, w')" "holds_map clock future (rs_prefix st) w m"
  shows "holds_map clock future (rs_prefix st) w' m \<and> (\<forall>v. r = Inr v \<longrightarrow> visible m (clock w') k = Some v) \<and>
    (r = Inl ErrMiss \<longrightarrow> visible m (clock w') k = None)"
proof (cases "qualifiedKey (Some st) k")
  case (Inl e)
  then show ?thesis
    using assms by (auto simp: Get_def qualifiedKey_def cache_errors Let_def split: if_splits)
next
  case (Inr q)
  obtain x w1 where g: "kv_Get C q w = (x, w1)" by fastforce
  have q: "q = rs_prefix st @ k" using qualifiedKey_Inr[OF Inr] by simp
  have w: "w1 = w'" using assms Inr g by (auto simp: Get_def Let_def split: sum.splits if_splits)
  have b: "becomes clock future w (\<lambda>t m. m) w'" using get_keeps[OF g] w by simp
  then have n: "future w (clock w') q = visible m (clock w') k" using assms(3) q by (simp add: holds_map_def becomes_def)
  show ?thesis
    using assms Inr g w n get_value[of q w _ w'] get_nil[of q w _ w'] holds_same[OF b assms(3)]
    by (auto simp: Get_def Let_def cache_errors tooLarge_def split: sum.splits if_splits)
qed

end

text \<open>C25. The cache is a map with deadlines. However the commands of several stores on one server are interleaved
  and delayed, and whichever fail, if the prefixes of the other stores are apart from the store's own, what its
  prefix shows is what a history of its own commands makes of a map whose entries carry deadlines: acknowledged
  commands took effect at their instants, failed ones did or did not, and no other store's command did. A read
  returns a value only if the map has it and its deadline has not passed, and reports a miss only if it has none
  or its deadline has passed.\<close>

theorem cache_refines_map:
  assumes "kv_server C clock future" "rs_client st = Some C"
    and "\<forall>(st', c) \<in> set cmds. rs_client st' = Some C \<and> (rs_prefix st' = rs_prefix st \<or> apart (rs_prefix st') (rs_prefix st))"
    and "holds_map clock future (rs_prefix st) w m" "cache_run cmds w = (outs, w1)" "Get (Some st) k w1 = (r, w2)"
  shows "\<exists>m'. cache_history (rs_prefix st) clock (zip cmds outs) m m' \<and> holds_map clock future (rs_prefix st) w2 m' \<and>
    (\<forall>v. r = Inr v \<longrightarrow> visible m' (clock w2) k = Some v) \<and> (r = Inl ErrMiss \<longrightarrow> visible m' (clock w2) k = None)"
proof -
  obtain m' where "cache_history (rs_prefix st) clock (zip cmds outs) m m'" "holds_map clock future (rs_prefix st) w1 m'"
    using kv_server.cache_run_history[OF assms(1,3,5,4)] by blast
  with kv_server.Get_reads[OF assms(1,2,6)] show ?thesis by blast
qed

definition demo_store :: "mem_kv_state RedisStore" where
  "demo_store = NewRedisStore (Some mem_kv) [WithKeyPrefix ''app:'']"

definition demo_other :: "mem_kv_state RedisStore" where
  "demo_other = NewRedisStore (Some mem_kv) [WithKeyPrefix ''job:'']"

definition demo_cache :: mem_kv_state where
  "demo_cache = \<lparr>mk_entries = [], mk_clock = 0, mk_down = False\<rparr>"

lemma demo_stores:
  "rs_client demo_store = Some mem_kv" "rs_client demo_other = Some mem_kv"
  "rs_prefix demo_store = ''app:''" "rs_prefix demo_other = ''job:''"
  by (simp_all add: demo_store_def demo_other_def NewRedisStore_def WithKeyPrefix_def)

theorem cache_refines_map_witness:
  "fst (Get (Some demo_store) ''k'' (snd (cache_run [(demo_store, CmdSet ''k'' ''v'' (5 * Millisecond)), (demo_other, CmdDelete [''k''])] demo_cache))) = Inr ''v'' \<and>
   (\<exists>m'. cache_history ''app:'' mk_clock (zip [(demo_store, CmdSet ''k'' ''v'' (5 * Millisecond)), (demo_other, CmdDelete [''k''])]
        (fst (cache_run [(demo_store, CmdSet ''k'' ''v'' (5 * Millisecond)), (demo_other, CmdDelete [''k''])] demo_cache))) Map.empty m' \<and>
      visible m' 3 ''k'' = Some ''v'')"
proof -
  let ?cmds = "[(demo_store, CmdSet ''k'' ''v'' (5 * Millisecond)), (demo_other, CmdDelete [''k''])]"
  let ?run = "cache_run ?cmds demo_cache"
  let ?get = "Get (Some demo_store) ''k'' (snd ?run)"
  have g: "fst ?get = Inr ''v''" "mk_clock (snd ?get) = 3" by code_simp+
  have h: "holds_map mk_clock mk_future ''app:'' demo_cache Map.empty"
    by (simp add: holds_map_def demo_cache_def mk_future_def visible_def)
  have a: "\<forall>(st', c) \<in> set ?cmds. rs_client st' = Some mem_kv \<and> (rs_prefix st' = rs_prefix demo_store \<or> apart (rs_prefix st') (rs_prefix demo_store))"
    by (simp add: demo_stores apart_def)
  from cache_refines_map[OF mem_kv.kv_server_axioms demo_stores(1) a h[folded demo_stores(3)] prod.collapse[symmetric] prod.collapse[symmetric], of "''k''"]
  show ?thesis using g by (auto simp: demo_stores)
qed

text \<open>A typed value written to the cache is read back while it lives. When the write is acknowledged and the codec
  decodes what it made of this value, a read of the same key before the entry's end returns the value or the
  server's own failure, never a miss, a decoding error, a size error or another value.\<close>

theorem cache_json_roundtrip:
  assumes "kv_server C clock future" "rs_client st = Some C" "\<forall>d. Marshal v = Inr d \<longrightarrow> Unmarshal d = Inr v"
    and set: "SetJSON Marshal (Some (redisStore st)) key v ttl w = (None, w1)"
    and get: "GetJSON Unmarshal (Some (redisStore st)) key w1 = (r, w2)"
    and "alive (clock w1) ttl (clock w2)"
  shows "r = Inr v \<or> (\<exists>e. r = Inl (Wrap (''get cache key '' @ quoted (rs_prefix st @ key)) e) \<and> fst (kv_Get C (rs_prefix st @ key) w1) = Inl e)"
proof -
  let ?q = "rs_prefix st @ key"
  obtain d where d: "Marshal v = Inr d" "cache_do st (CmdSet key d ttl) w = (None, w1)" "Set_entry (Some st) key d ttl w = (None, w1)"
    using set by (auto simp: SetJSON_def redisStore_def split: sum.splits)
  have v: "validate_entry (Some st) key d ttl = Inr ?q"
    using d(3) by (auto simp: Set_entry_def split: sum.splits dest: validate_entry_Inr)
  have q: "qualifiedKey (Some st) key = Inr ?q" "int (length d) \<le> maxValueBytes st"
    using validate_entry_Inr[OF v] by auto
  obtain x w3 where g: "kv_Get C ?q w1 = (x, w3)" by fastforce
  have w: "w3 = w2" using get q g assms(2) by (auto simp: GetJSON_def redisStore_def Get_def Let_def split: sum.splits if_splits)
  have "clock w1 \<le> clock w2" using kv_server.get_keeps[OF assms(1) g] w by (simp add: becomes_def)
  then have f: "future w1 (clock w2) ?q = Some d"
    using kv_server.cache_do_server[OF assms(1,2) d(2)] assms(6) by (auto simp: becomes_def)
  show ?thesis
  proof (cases x)
    case (Inl e)
    then have "\<not> errors_Is e (redis_Nil C)" using kv_server.get_nil[OF assms(1)] g f w by fastforce
    then show ?thesis
      using get q g Inl assms(2) by (auto simp: GetJSON_def redisStore_def Get_def Let_def)
  next
    case (Inr d')
    then have "d' = d" using kv_server.get_value[OF assms(1)] g f w by fastforce
    then show ?thesis
      using get q g Inr assms(2,3) d(1) by (simp add: GetJSON_def redisStore_def Get_def Let_def)
  qed
qed

end
