(* ===== verification/Authn.thy ===== *)
theory Authn
  imports Principal Go_Path
begin

text \<open>
  Authentication (\<open>src/authn/\<close>): the policy that picks a credential for a target
  (\<open>authn.go\<close>), the bearer verification of JWKS-signed tokens (\<open>jwks.go\<close>) and the gRPC and
  HTTP adapters (\<open>grpc.go\<close>, \<open>http.go\<close>). The JWT library and the key set are a parameter
  of the verifier: what parsing a raw token answers.
\<close>

definition ErrMissingCredential :: goerr where
  "ErrMissingCredential = Sentinel ''authentication credential is missing''"
definition ErrInvalidCredential :: goerr where
  "ErrInvalidCredential = Sentinel ''authentication credential is invalid''"

text \<open>A bearer verifier, over a state of the world.\<close>

type_synonym 'w BearerVerifier = "go_context \<Rightarrow> string \<Rightarrow> 'w \<Rightarrow> (goerr + Principal) \<times> 'w"

record PSKPolicy =
  psk_Key :: string
  psk_Targets :: "string list"
  psk_Principal :: Principal

record 'w AuthnPolicy =
  SkipTargets :: "string list"
  PSK :: "PSKPolicy list"
  Bearer :: "'w BearerVerifier option"

fun MatchesAny :: "string \<Rightarrow> string list \<Rightarrow> bool" where
  "MatchesAny v [] = False"
| "MatchesAny v (pat # pats) = (if path_Match pat v = Inr True then True else MatchesAny v pats)"

text \<open>\<open>subtle.ConstantTimeCompare\<close> answers 1 exactly for equal byte slices.\<close>

definition verifyPSK :: "string \<Rightarrow> string \<Rightarrow> bool" where
  "verifyPSK authorization expected =
     (let (scheme, supplied, ok) = Cut_space authorization
      in ok \<and> EqualFold_ascii scheme ''PSK'' \<and> supplied \<noteq> [] \<and> length supplied = length expected \<and> supplied = expected)"

text \<open>The first PSK policy whose targets match decides; the loop returns in every other case of its body.\<close>

fun pskLoop :: "PSKPolicy list \<Rightarrow> go_context \<Rightarrow> string \<Rightarrow> string \<Rightarrow> (goerr + go_context) option" where
  "pskLoop [] ctx target authorization = None"
| "pskLoop (candidate # cs) ctx target authorization =
     (if \<not> MatchesAny target (psk_Targets candidate) then pskLoop cs ctx target authorization
      else if \<not> verifyPSK authorization (psk_Key candidate) \<or> TrimSpace (ID (psk_Principal candidate)) = []
      then Some (Inl ErrInvalidCredential)
      else Some (Inr (WithContext ctx (psk_Principal candidate))))"

text \<open>On an error the code also returns the context it was given.\<close>

definition Authenticate ::
  "'w AuthnPolicy \<Rightarrow> go_context \<Rightarrow> string \<Rightarrow> string \<Rightarrow> 'w \<Rightarrow> (go_context \<times> goerr option) \<times> 'w" where
  "Authenticate p ctx target authorization w =
     (case pskLoop (PSK p) ctx target authorization of
        Some (Inl e) \<Rightarrow> ((ctx, Some e), w)
      | Some (Inr c) \<Rightarrow> ((c, None), w)
      | None \<Rightarrow>
          if MatchesAny target (SkipTargets p) then ((ctx, None), w)
          else
            (let (scheme, raw, ok) = Cut_space authorization
             in if \<not> ok \<or> \<not> EqualFold_ascii scheme ''Bearer'' \<or> TrimSpace raw = [] then ((ctx, Some ErrMissingCredential), w)
                else
                  (case Bearer p of
                     None \<Rightarrow> ((ctx, Some ErrInvalidCredential), w)
                   | Some verify \<Rightarrow>
                       (case verify ctx raw w of
                          (Inl e, w1) \<Rightarrow> ((ctx, Some ErrInvalidCredential), w1)
                        | (Inr identity, w1) \<Rightarrow>
                            if TrimSpace (ID identity) = [] then ((ctx, Some ErrInvalidCredential), w1)
                            else ((WithContext ctx identity, None), w1)))))"

section \<open>Tokens signed by a key set\<close>

record JWKSConfig =
  jc_URL :: string
  jc_Issuer :: string
  jc_Audience :: string
  jc_HTTPTimeout :: int

definition ErrJWKSUnavailable :: goerr where "ErrJWKSUnavailable = Sentinel ''JWKS unavailable''"

record identityClaims =
  SubjectType :: string
  PrincipalType :: string
  cl_SessionID :: string
  TemplateSessionID :: string
  cl_TenantID :: string
  cl_MembershipID :: string
  Subject :: string

text \<open>
  What the JWT library answers for a raw token, given the issuer and audience to require: an error or
  the token's validity with its claims, and whether a key refresh failed meanwhile (the callback that
  the constructor installs). Loading the key set is the other call into it.
\<close>

record 'w jwt_lib =
  ParseWithClaims :: "string \<Rightarrow> string \<Rightarrow> string \<Rightarrow> 'w \<Rightarrow> ((goerr + bool \<times> identityClaims) \<times> bool) \<times> 'w"
  LoadKeys :: "string \<Rightarrow> int \<Rightarrow> 'w \<Rightarrow> goerr option \<times> 'w"

record 'w JWKSVerifier =
  jv_lib :: "'w jwt_lib"
  jv_issuer :: string
  jv_audience :: string

definition jwksTimeout :: "int \<Rightarrow> int" where
  "jwksTimeout t = (if t = 0 then 2 * Second else t)"

definition NewJWKSVerifier :: "'w jwt_lib \<Rightarrow> go_context option \<Rightarrow> JWKSConfig \<Rightarrow> 'w \<Rightarrow> (goerr + 'w JWKSVerifier) \<times> 'w" where
  "NewJWKSVerifier lib ctx config w =
     (if ctx = None then (Inl (Msg ''context is required''), w)
      else if TrimSpace (jc_URL config) = [] \<or> TrimSpace (jc_Issuer config) = [] \<or> TrimSpace (jc_Audience config) = []
      then (Inl (Msg ''JWKS URL, issuer, and audience are required''), w)
      else
        (let timeout = jwksTimeout (jc_HTTPTimeout config)
         in if timeout < 100 * Millisecond \<or> timeout > 10 * Second
            then (Inl (Msg ''JWKS HTTP timeout must be between 100ms and 10s''), w)
            else
              (case LoadKeys lib (jc_URL config) timeout w of
                 (Some e, w1) \<Rightarrow> (Inl (Wrap ''load JWKS'' e), w1)
               | (None, w1) \<Rightarrow> (Inr \<lparr>jv_lib = lib, jv_issuer = jc_Issuer config, jv_audience = jc_Audience config\<rparr>, w1))))"

definition identityOf :: "bool \<Rightarrow> identityClaims \<Rightarrow> goerr + Principal" where
  "identityOf valid claims =
     (if \<not> valid \<or> TrimSpace (Subject claims) = [] then Inl (Msg ''invalid access token claims'')
      else if SubjectType claims \<noteq> [] \<and> PrincipalType claims \<noteq> [] \<and> SubjectType claims \<noteq> PrincipalType claims
      then Inl (Msg ''conflicting access token subject types'')
      else if cl_SessionID claims \<noteq> [] \<and> TemplateSessionID claims \<noteq> [] \<and> cl_SessionID claims \<noteq> TemplateSessionID claims
      then Inl (Msg ''conflicting access token session ids'')
      else
        (let subjectType = (if SubjectType claims = [] then PrincipalType claims else SubjectType claims);
             sessionID = (if cl_SessionID claims = [] then TemplateSessionID claims else cl_SessionID claims)
         in if subjectType \<noteq> TypeUser \<and> subjectType \<noteq> TypeServiceAccount then Inl (Msg ''invalid subject type'')
            else if subjectType = TypeUser \<and> TrimSpace sessionID = [] then Inl (Msg ''user token requires a session id'')
            else if subjectType = TypeUser \<and>
                    (TrimSpace (cl_TenantID claims) = []) \<noteq> (TrimSpace (cl_MembershipID claims) = [])
            then Inl (Msg ''user token tenant and membership context must be paired'')
            else if subjectType = TypeServiceAccount \<and>
                    (sessionID \<noteq> [] \<or> cl_TenantID claims \<noteq> [] \<or> cl_MembershipID claims \<noteq> [])
            then Inl (Msg ''service account token cannot carry user context'')
            else Inr \<lparr>ID = Subject claims, Type = subjectType, TenantID = cl_TenantID claims,
                      MembershipID = cl_MembershipID claims, SessionID = sessionID\<rparr>))"

definition VerifyBearer :: "'w JWKSVerifier \<Rightarrow> 'w BearerVerifier" where
  "VerifyBearer v ctx raw w =
     (case ParseWithClaims (jv_lib v) (jv_issuer v) (jv_audience v) raw w of
        ((Inl err, failed), w1) \<Rightarrow>
          (Inl (Wrap ''verify access token'' (if failed then ErrJWKSUnavailable else err)), w1)
      | ((Inr (valid, claims), failed), w1) \<Rightarrow> (identityOf valid claims, w1))"

text \<open>What a principal from a token always satisfies.\<close>

definition token_principal :: "Principal \<Rightarrow> bool" where
  "token_principal p \<longleftrightarrow>
     TrimSpace (ID p) \<noteq> [] \<and>
     (Type p = TypeUser \<and> TrimSpace (SessionID p) \<noteq> [] \<and>
        (TrimSpace (TenantID p) = [] \<longleftrightarrow> TrimSpace (MembershipID p) = []) \<or>
      Type p = TypeServiceAccount \<and> SessionID p = [] \<and> TenantID p = [] \<and> MembershipID p = [])"

lemma identityOf_token:
  assumes "identityOf valid claims = Inr p"
  shows "valid \<and> ID p = Subject claims \<and> token_principal p"
proof -
  define t where "t = (if SubjectType claims = [] then PrincipalType claims else SubjectType claims)"
  define s where "s = (if cl_SessionID claims = [] then TemplateSessionID claims else cl_SessionID claims)"
  have p: "p = \<lparr>ID = Subject claims, Type = t, TenantID = cl_TenantID claims, MembershipID = cl_MembershipID claims, SessionID = s\<rparr>"
    and c: "valid" "TrimSpace (Subject claims) \<noteq> []" "t = TypeUser \<or> t = TypeServiceAccount"
      "t = TypeUser \<Longrightarrow> TrimSpace s \<noteq> [] \<and> (TrimSpace (cl_TenantID claims) = [] \<longleftrightarrow> TrimSpace (cl_MembershipID claims) = [])"
      "t = TypeServiceAccount \<Longrightarrow> s = [] \<and> cl_TenantID claims = [] \<and> cl_MembershipID claims = []"
    using assms unfolding identityOf_def Let_def t_def[symmetric] s_def[symmetric] by (auto split: if_split_asm)
  show ?thesis using c unfolding p token_principal_def by auto
qed

lemma VerifyBearer_token: "VerifyBearer v ctx raw w = (Inr p, w') \<Longrightarrow> token_principal p"
  by (auto simp: VerifyBearer_def split: sum.splits prod.splits dest: identityOf_token)

section \<open>Server adapters\<close>

definition authorizationFromMetadata :: "go_context \<Rightarrow> string" where
  "authorizationFromMetadata ctx = (case ctxIncoming ctx of [] \<Rightarrow> [] | v # vs \<Rightarrow> v)"

text \<open>A unary or stream handler as the interceptor calls it; the answer to a refused call is its status.\<close>

definition AuthnInterceptor ::
  "'w AuthnPolicy \<Rightarrow> go_context \<Rightarrow> string \<Rightarrow> (go_context \<Rightarrow> 'w \<Rightarrow> 'r \<times> 'w) \<Rightarrow> 'w \<Rightarrow> ((int \<times> string) + 'r) \<times> 'w" where
  "AuthnInterceptor policy ctx fullMethod handler w =
     (case Authenticate policy ctx fullMethod (authorizationFromMetadata ctx) w of
        ((c, Some e), w1) \<Rightarrow> (Inl (16, ''missing or invalid credential''), w1)
      | ((c, None), w1) \<Rightarrow> (let (r, w2) = handler c w1 in (Inr r, w2)))"

record http_request =
  req_path :: string
  req_authorization :: string
  req_ctx :: go_context

definition AuthnMiddleware ::
  "'w AuthnPolicy \<Rightarrow> (http_request \<Rightarrow> goerr \<Rightarrow> http_response \<times> 'w \<Rightarrow> http_response \<times> 'w) option \<Rightarrow>
   (http_request \<Rightarrow> http_response \<times> 'w \<Rightarrow> http_response \<times> 'w) \<Rightarrow> http_request \<Rightarrow> http_response \<times> 'w \<Rightarrow> http_response \<times> 'w" where
  "AuthnMiddleware policy writeError nxt request rw =
     (case Authenticate policy (req_ctx request) (req_path request) (req_authorization request) (snd rw) of
        ((ctx, Some e), w1) \<Rightarrow>
          (case writeError of
             Some wr \<Rightarrow> wr request e (fst rw, w1)
           | None \<Rightarrow> (http_Error ''Unauthorized'' 401 (fst rw), w1))
      | ((ctx, None), w1) \<Rightarrow> nxt (request\<lparr>req_ctx := ctx\<rparr>) (fst rw, w1))"

section \<open>Correctness\<close>

lemma MatchesAny_iff: "MatchesAny v pats \<longleftrightarrow> (\<exists>pat \<in> set pats. path_Match pat v = Inr True)"
  by (induction pats) auto

lemma verifyPSK_iff:
  "verifyPSK authorization key \<longleftrightarrow>
     key \<noteq> [] \<and> (\<exists>scheme. authorization = scheme @ CHR '' '' # key \<and> CHR '' '' \<notin> set scheme \<and> EqualFold_ascii scheme ''PSK'')"
proof -
  obtain a b ok where c: "Cut_space authorization = (a, b, ok)" by (metis prod_cases3)
  have "verifyPSK authorization key \<longleftrightarrow> ok \<and> EqualFold_ascii a ''PSK'' \<and> key \<noteq> [] \<and> b = key"
    using c by (auto simp: verifyPSK_def)
  also have "\<dots> \<longleftrightarrow> key \<noteq> [] \<and> (\<exists>scheme. Cut_space authorization = (scheme, key, True) \<and> EqualFold_ascii scheme ''PSK'')"
    using c by auto
  finally show ?thesis unfolding Cut_space_ok by blast
qed

lemma pskLoop_find:
  "pskLoop cs ctx target authorization =
     (case find (\<lambda>c. MatchesAny target (psk_Targets c)) cs of
        None \<Rightarrow> None
      | Some c \<Rightarrow>
          Some (if verifyPSK authorization (psk_Key c) \<and> TrimSpace (ID (psk_Principal c)) \<noteq> []
                then Inr (WithContext ctx (psk_Principal c)) else Inl ErrInvalidCredential))"
  by (induction cs) auto

text \<open>C26. A protected PSK route has no other way in. When some PSK policy's targets match, whatever the public
  targets and the bearer verifier are, the call is let through only with the exact key of the first such
  policy, and then as that policy's principal; with any other credential, or none, it is refused and the
  verifier is not asked.\<close>

theorem authn_psk_not_bypassed:
  assumes "find (\<lambda>c. MatchesAny target (psk_Targets c)) (PSK p) = Some c"
  shows "Authenticate p ctx target authorization w =
    (if verifyPSK authorization (psk_Key c) \<and> TrimSpace (ID (psk_Principal c)) \<noteq> []
     then (WithContext ctx (psk_Principal c), None) else (ctx, Some ErrInvalidCredential), w) \<and>
    (verifyPSK authorization (psk_Key c) \<longrightarrow>
      psk_Key c \<noteq> [] \<and> (\<exists>scheme. authorization = scheme @ CHR '' '' # psk_Key c \<and> EqualFold_ascii scheme ''PSK''))"
  using assms verifyPSK_iff[of authorization "psk_Key c"]
  by (auto simp: Authenticate_def pskLoop_find)

definition demo_policy :: "unit AuthnPolicy" where
  "demo_policy =
     \<lparr>SkipTargets = [''/internal/*''],
      PSK = [\<lparr>psk_Key = ''s3cret'', psk_Targets = [''/internal/[a-z]*''], psk_Principal = no_principal\<lparr>ID := ''worker''\<rparr>\<rparr>],
      Bearer = None\<rparr>"

theorem authn_psk_not_bypassed_witness:
  "snd (fst (Authenticate demo_policy Background ''/internal/jobs'' ''Bearer s3cret'' ())) = Some ErrInvalidCredential"
proof -
  have f: "find (\<lambda>c. MatchesAny ''/internal/jobs'' (psk_Targets c)) (PSK demo_policy) = Some (hd (PSK demo_policy))"
    by code_simp
  have v: "\<not> verifyPSK ''Bearer s3cret'' (psk_Key (hd (PSK demo_policy)))" by code_simp
  show ?thesis using authn_psk_not_bypassed[OF f, of Background "''Bearer s3cret''" "()"] v by simp
qed

text \<open>C27. Whoever comes through is identified. When a call is let through, the target is public and the
  context is untouched, or the context carries a principal with an identity, which is the one of a PSK policy
  for this target or the one the verifier returned for the bearer token; the gRPC and HTTP adapters run their
  handler only then, and otherwise answer 16 (Unauthenticated) and 401.\<close>

theorem authn_sound:
  assumes "Authenticate p ctx target authorization w = ((c, e), w')"
  shows "(e = None \<longrightarrow>
      c = ctx \<and> MatchesAny target (SkipTargets p) \<or>
      (\<exists>i. c = WithContext ctx i \<and> TrimSpace (ID i) \<noteq> [] \<and>
         ((\<exists>k \<in> set (PSK p). i = psk_Principal k \<and> MatchesAny target (psk_Targets k) \<and> verifyPSK authorization (psk_Key k)) \<or>
          (\<exists>raw verify. snd (snd (Cut_space authorization)) \<and> raw = fst (snd (Cut_space authorization)) \<and>
             Bearer p = Some verify \<and> verify ctx raw w = (Inr i, w'))))) \<and>
    (e \<noteq> None \<longrightarrow> c = ctx \<and> (e = Some ErrMissingCredential \<or> e = Some ErrInvalidCredential) \<and>
      (authorization = authorizationFromMetadata ctx \<longrightarrow>
        AuthnInterceptor p ctx target handler w = (Inl (16, ''missing or invalid credential''), w')) \<and>
      (req_ctx rq = ctx \<and> req_path rq = target \<and> req_authorization rq = authorization \<longrightarrow>
        AuthnMiddleware p None nxt rq (rw, w) = (http_Error ''Unauthorized'' 401 rw, w')))"
proof (cases "find (\<lambda>c. MatchesAny target (psk_Targets c)) (PSK p)")
  case (Some k)
  then have k: "k \<in> set (PSK p)" "MatchesAny target (psk_Targets k)" by (auto simp: find_Some_iff)
  show ?thesis
    using assms Some k
    by (auto simp: Authenticate_def pskLoop_find AuthnInterceptor_def AuthnMiddleware_def split: if_splits)
next
  case None
  obtain s raw ok where cut: "Cut_space authorization = (s, raw, ok)" by (metis prod_cases3)
  show ?thesis
    using assms None cut
    by (auto simp: Authenticate_def pskLoop_find AuthnInterceptor_def AuthnMiddleware_def
        split: if_splits option.splits prod.splits sum.splits)
qed

theorem authn_sound_witness:
  "\<exists>c. Authenticate demo_policy Background ''/internal/jobs'' ''psk s3cret'' () = ((c, None), ()) \<and>
     (\<exists>i. c = WithContext Background i \<and> TrimSpace (ID i) \<noteq> [])"
proof -
  let ?i = "no_principal\<lparr>ID := ''worker''\<rparr>"
  have a: "Authenticate demo_policy Background ''/internal/jobs'' ''psk s3cret'' () = ((WithContext Background ?i, None), ())"
    by code_simp
  have n: "WithContext Background ?i \<noteq> Background" by (simp add: WithContext_def Background_def)
  note s = conjunct1[OF authn_sound[OF a], THEN mp, OF refl]
  have "\<exists>i. WithContext Background ?i = WithContext Background i \<and> TrimSpace (ID i) \<noteq> []"
    using s n by (elim disjE exE conjE) (simp_all only: simp_thms, blast+)
  then show ?thesis using a by simp
qed

end
