(* ===== verification/Go_Text.thy ===== *)
theory Go_Text
  imports Go_Path
begin

text \<open>
  More of \<open>strings\<close>: lower case, splitting and joining at a separator, trimming of prefixes, and
  the character classes of the repository's regular expressions.
\<close>

section \<open>Lower case\<close>

text \<open>
  \<open>strings.ToLower\<close> as far as ASCII is concerned: besides the ASCII capitals, exactly two runes have
  an ASCII letter as their lower case, U+0130 (i) and U+212A (k). A byte that starts no encoding becomes
  U+FFFD when the string has a byte outside ASCII. Other runes outside ASCII have a lower case outside
  ASCII and are kept as they are: every caller in scope goes on to test for ASCII text only.
\<close>

function lower_runes :: "string \<Rightarrow> string" where
  "lower_runes s =
     (if s = [] then []
      else
        (let n = utf8_width s; r = take n s
         in if n = 0 then [CHR 0xEF, CHR 0xBF, CHR 0xBD] @ lower_runes (drop 1 s)
            else (if n = 1 then [ascii_lower (hd s)]
                  else if r = [CHR 0xC4, CHR 0xB0] then ''i''
                  else if r = [CHR 0xE2, CHR 0x84, CHR 0xAA] then ''k'' else r) @ lower_runes (drop n s)))"
  by pat_completeness auto
termination
  by (relation "measure length") auto

declare lower_runes.simps [simp del]

definition ToLower :: "string \<Rightarrow> string" where "ToLower s = lower_runes s"

lemma lower_runes_Nil [simp]: "lower_runes [] = []"
  by (simp add: lower_runes.simps)

lemma lower_runes_ascii: "list_all (\<lambda>c. byte c < 0x80) s \<Longrightarrow> lower_runes s = map ascii_lower s"
proof (induction s)
  case (Cons c s)
  then have "utf8_width (c # s) = 1" by (simp add: utf8_width_def rune_need_def Let_def)
  then show ?case using Cons by (subst lower_runes.simps) (simp add: Let_def)
qed simp

section \<open>Separators\<close>

text \<open>\<open>strings.Split\<close> and \<open>strings.Join\<close> at one separating byte.\<close>

fun Split :: "char \<Rightarrow> string \<Rightarrow> string list" where
  "Split c [] = [[]]"
| "Split c (x # xs) =
     (if x = c then [] # Split c xs
      else (case Split c xs of [] \<Rightarrow> [[x]] | y # ys \<Rightarrow> (x # y) # ys))"

fun Join_sep :: "char \<Rightarrow> string list \<Rightarrow> string" where
  "Join_sep c [] = []"
| "Join_sep c [x] = x"
| "Join_sep c (x # y # ys) = x @ c # Join_sep c (y # ys)"

lemma Split_nonempty [simp]: "Split c s \<noteq> []"
  by (induction s) (auto split: list.splits)

lemma Split_free: "c \<notin> set x \<Longrightarrow> Split c x = [x]"
  by (induction x) auto

lemma Split_append: "c \<notin> set x \<Longrightarrow> Split c (x @ c # s) = x # Split c s"
  by (induction x) auto

lemma Split_Join: "xs \<noteq> [] \<Longrightarrow> \<forall>x \<in> set xs. c \<notin> set x \<Longrightarrow> Split c (Join_sep c xs) = xs"
  by (induction c xs rule: Join_sep.induct) (auto simp: Split_free Split_append)

lemma Split_parts_free: "x \<in> set (Split c s) \<Longrightarrow> c \<notin> set x"
  by (induction s arbitrary: x) (auto split: if_splits list.splits)

lemma Split_at: "Split c (x @ c # s) = Split c x @ Split c s"
  by (induction x) (auto split: list.splits)

lemma Split_Join_Cons: "\<forall>y \<in> set ys. c \<notin> set y \<Longrightarrow> Split c (Join_sep c (x # ys)) = Split c x @ ys"
  using Split_Join[of ys c] by (cases ys) (auto simp: Split_at)

lemma Join_sep_Cons_Cons: "Join_sep c ((x # y) # ys) = x # Join_sep c (y # ys)"
  by (cases ys) auto

lemma Join_Split: "Join_sep c (Split c s) = s"
proof (induction s)
  case (Cons x s)
  obtain y ys where "Split c s = y # ys" using Split_nonempty[of c s] by (meson neq_Nil_conv)
  then show ?case using Cons by (simp add: Join_sep_Cons_Cons)
qed simp

lemma Split_eq_iff: "Split c s = Split c t \<longleftrightarrow> s = t"
  using Join_Split[of c s] Join_Split[of c t] by metis

text \<open>\<open>strings.TrimPrefix\<close> with one byte, and \<open>strings.Trim\<close> of one byte.\<close>

definition TrimPrefix1 :: "char \<Rightarrow> string \<Rightarrow> string" where
  "TrimPrefix1 c s = (case s of [] \<Rightarrow> [] | x # xs \<Rightarrow> if x = c then xs else s)"

definition Trim1 :: "char \<Rightarrow> string \<Rightarrow> string" where
  "Trim1 c s = rev (dropWhile (\<lambda>x. x = c) (rev (dropWhile (\<lambda>x. x = c) s)))"

section \<open>Character classes\<close>

definition lowercase :: "char \<Rightarrow> bool" where "lowercase c \<longleftrightarrow> 97 \<le> byte c \<and> byte c \<le> 122"

definition digit :: "char \<Rightarrow> bool" where "digit c \<longleftrightarrow> 48 \<le> byte c \<and> byte c \<le> 57"

text \<open>\<open>[a-z0-9...]\<close> with the further characters given.\<close>

definition ident_char :: "string \<Rightarrow> char \<Rightarrow> bool" where
  "ident_char extra c \<longleftrightarrow> lowercase c \<or> digit c \<or> c \<in> set extra"

lemma lower_fixed: "lowercase c \<or> digit c \<Longrightarrow> byte c < 0x80 \<and> ascii_lower c = c"
  by (auto simp: lowercase_def digit_def ascii_lower_def)

lemma lower_runes_ident:
  assumes "list_all (ident_char extra) s" "\<forall>c \<in> set extra. byte c < 0x80 \<and> ascii_lower c = c"
  shows "lower_runes s = s"
proof -
  have a: "\<forall>c \<in> set s. byte c < 0x80 \<and> ascii_lower c = c"
    using assms lower_fixed by (auto simp: list_all_iff ident_char_def)
  then have "lower_runes s = map ascii_lower s" by (intro lower_runes_ascii) (simp add: list_all_iff)
  also have "\<dots> = s" using a by (simp add: map_idI)
  finally show ?thesis .
qed

text \<open>The pattern \<open>^[a-z][a-z0-9...]{lo,hi}$\<close>.\<close>

definition ident :: "string \<Rightarrow> nat \<Rightarrow> nat \<Rightarrow> string \<Rightarrow> bool" where
  "ident extra lo hi s =
     (case s of [] \<Rightarrow> False
      | c # cs \<Rightarrow> lowercase c \<and> lo \<le> length cs \<and> length cs \<le> hi \<and> list_all (ident_char extra) cs)"

lemma ident_chars: "ident extra lo hi s \<Longrightarrow> s \<noteq> [] \<and> list_all (ident_char extra) s"
  by (auto simp: ident_def ident_char_def split: list.splits)

end
