(* ===== verification/Authz.thy ===== *)
theory Authz
  imports Authn Go_Text "HOL-Library.Word"
begin

text \<open>
  Authorization (\<open>src/authz/\<close>): requirements and their enforcement (\<open>authz.go\<close>), the
  mapping of a principal to the subject asked about and the remote decision (\<open>client.go\<close>), the
  registry of policies (\<open>policy.go\<close>) and the gRPC and HTTP adapters (\<open>grpc.go\<close>,
  \<open>http.go\<close>). The authorization service is a parameter: what its Check call answers.
\<close>

definition ErrDenied :: goerr where "ErrDenied = Sentinel ''authorization denied''"
definition ErrRequirementMissing :: goerr where "ErrRequirementMissing = Sentinel ''authorization requirement is missing''"
definition ErrDecisionUnavailable :: goerr where "ErrDecisionUnavailable = Sentinel ''authorization decision is unavailable''"
definition ErrInvalidPrincipal :: goerr where
  "ErrInvalidPrincipal = Sentinel ''principal cannot be mapped to an authorization subject''"
definition ErrPolicyMissing :: goerr where "ErrPolicyMissing = Sentinel ''authorization policy is missing''"
definition ErrInvalidPolicy :: goerr where "ErrInvalidPolicy = Sentinel ''authorization policy is invalid''"

lemmas authz_errors = ErrDenied_def ErrRequirementMissing_def ErrDecisionUnavailable_def ErrInvalidPrincipal_def
  ErrPolicyMissing_def ErrInvalidPolicy_def

text \<open>A scope is any byte; three values are named.\<close>

type_synonym Scope = "8 word"

definition ScopeTenant :: Scope where "ScopeTenant = 0"
definition ScopePlatform :: Scope where "ScopePlatform = 1"
definition ScopePrincipal :: Scope where "ScopePrincipal = 2"

lemmas Scope_defs = ScopeTenant_def ScopePlatform_def ScopePrincipal_def

record Requirement =
  Resource :: string
  ResourceID :: string
  Action :: string
  Attributes :: "(string \<times> string) list"
  rqScope :: Scope

definition no_requirement :: Requirement where
  "no_requirement = \<lparr>Resource = [], ResourceID = [], Action = [], Attributes = [], rqScope = ScopeTenant\<rparr>"

type_synonym 'w Authorizer = "go_context \<Rightarrow> Principal \<Rightarrow> Requirement \<Rightarrow> 'w \<Rightarrow> goerr option \<times> 'w"

definition Enforce :: "go_context \<Rightarrow> 'w Authorizer option \<Rightarrow> Requirement \<Rightarrow> 'w \<Rightarrow> goerr option \<times> 'w" where
  "Enforce ctx authorizer requirement w =
     (let (identity, ok) = FromContext (Some ctx)
      in if \<not> ok then (Some ErrMissing, w)
         else
           (case authorizer of
              None \<Rightarrow> (Some ErrRequirementMissing, w)
            | Some authorize \<Rightarrow>
                if Resource requirement = [] \<or> Action requirement = [] then (Some ErrRequirementMissing, w)
                else authorize ctx identity requirement w))"

section \<open>The remote decision\<close>

definition PlatformTenantID :: string where "PlatformTenantID = ''__platform__''"

datatype SubjectType = SUBJECT_TYPE_USER | SUBJECT_TYPE_MEMBERSHIP | SUBJECT_TYPE_SERVICE_ACCOUNT

record Subject =
  sub_Id :: string
  sub_Type :: SubjectType

record CheckRequest =
  cr_TenantId :: string
  cr_Subject :: Subject
  cr_ResourceType :: string
  cr_ResourceId :: string
  cr_Action :: string
  cr_Attributes :: "(string \<times> string) list"

text \<open>The Check call: the context it is made in, its timeout and the request; a response may be nil.\<close>

type_synonym 'w CheckClient = "go_context \<Rightarrow> int \<Rightarrow> CheckRequest \<Rightarrow> 'w \<Rightarrow> (goerr + bool option) \<times> 'w"

record 'w GRPCAuthorizer =
  ga_client :: "'w CheckClient option"
  ga_timeout :: int

definition NewGRPCAuthorizer :: "'w CheckClient option \<Rightarrow> int \<Rightarrow> 'w GRPCAuthorizer" where
  "NewGRPCAuthorizer client timeout = \<lparr>ga_client = client, ga_timeout = (if timeout \<le> 0 then 2 * Second else timeout)\<rparr>"

definition WithCallerCredential :: "go_context option \<Rightarrow> string \<Rightarrow> go_context option" where
  "WithCallerCredential ctx v =
     (case ctx of None \<Rightarrow> None | Some c \<Rightarrow> if TrimSpace v = [] then ctx else Some (c\<lparr>ctxCredential := Some v\<rparr>))"

definition authorizationSubject :: "Principal \<Rightarrow> goerr + Subject" where
  "authorizationSubject identity =
     (if Type identity = TypeUser
      then (if TrimSpace (MembershipID identity) = [] then Inl ErrInvalidPrincipal
            else Inr \<lparr>sub_Id = MembershipID identity, sub_Type = SUBJECT_TYPE_MEMBERSHIP\<rparr>)
      else if Type identity = TypeServiceAccount \<or> Type identity = TypeSystem
      then (if TrimSpace (ID identity) = [] then Inl ErrInvalidPrincipal
            else Inr \<lparr>sub_Id = ID identity, sub_Type = SUBJECT_TYPE_SERVICE_ACCOUNT\<rparr>)
      else Inl ErrInvalidPrincipal)"

definition authorizationTarget :: "Principal \<Rightarrow> Scope \<Rightarrow> goerr + string \<times> Subject" where
  "authorizationTarget identity scope0 =
     (let scope = (if scope0 = ScopePrincipal
                   then (if TrimSpace (TenantID identity) = [] then ScopePlatform else ScopeTenant) else scope0)
      in if scope = ScopePlatform
         then
           (if Type identity = TypeUser
            then (if TrimSpace (ID identity) = [] then Inl ErrInvalidPrincipal
                  else Inr (PlatformTenantID, \<lparr>sub_Id = ID identity, sub_Type = SUBJECT_TYPE_USER\<rparr>))
            else if Type identity = TypeServiceAccount \<or> Type identity = TypeSystem
            then (if TrimSpace (ID identity) = [] then Inl ErrInvalidPrincipal
                  else Inr (PlatformTenantID, \<lparr>sub_Id = ID identity, sub_Type = SUBJECT_TYPE_SERVICE_ACCOUNT\<rparr>))
            else Inl ErrInvalidPrincipal)
         else if scope \<noteq> ScopeTenant \<or> TrimSpace (TenantID identity) = [] then Inl ErrInvalidPrincipal
         else (case authorizationSubject identity of Inl e \<Rightarrow> Inl e | Inr subject \<Rightarrow> Inr (TenantID identity, subject)))"

definition forwardCallerCredential :: "go_context \<Rightarrow> go_context" where
  "forwardCallerCredential ctx =
     (if ctxOutgoing ctx \<noteq> [] then ctx
      else
        (case ctxIncoming ctx of
           v # vs \<Rightarrow> ctx\<lparr>ctxOutgoing := ctxOutgoing ctx @ [v]\<rparr>
         | [] \<Rightarrow>
             (case ctxCredential ctx of
                Some v \<Rightarrow> if v \<noteq> [] then ctx\<lparr>ctxOutgoing := ctxOutgoing ctx @ [v]\<rparr> else ctx
              | None \<Rightarrow> ctx)))"

definition checkRequest :: "string \<Rightarrow> Subject \<Rightarrow> Requirement \<Rightarrow> CheckRequest" where
  "checkRequest tenantID subject requirement =
     \<lparr>cr_TenantId = tenantID, cr_Subject = subject, cr_ResourceType = Resource requirement,
      cr_ResourceId = ResourceID requirement, cr_Action = Action requirement, cr_Attributes = Attributes requirement\<rparr>"

definition Authorize :: "'w GRPCAuthorizer option \<Rightarrow> 'w Authorizer" where
  "Authorize a ctx identity requirement w =
     (case Option.bind a ga_client of
        None \<Rightarrow> (Some (Ext ''authorization decision is unavailable: upstream is not configured'' [ErrDecisionUnavailable]), w)
      | Some Check \<Rightarrow>
          (case authorizationTarget identity (rqScope requirement) of
             Inl e \<Rightarrow> (Some e, w)
           | Inr (tenantID, subject) \<Rightarrow>
               (case Check (forwardCallerCredential ctx) (ga_timeout (the a)) (checkRequest tenantID subject requirement) w of
                  (Inl err, w1) \<Rightarrow>
                    (Some (Ext (''authorization decision is unavailable: '' @ err_text err) [ErrDecisionUnavailable]), w1)
                | (Inr allowed, w1) \<Rightarrow> if allowed \<noteq> Some True then (Some ErrDenied, w1) else (None, w1))))"

section \<open>Policies\<close>

text \<open>\<open>^[a-z][a-z0-9_.:-]{1,127}$\<close>\<close>

definition permissionPart :: "string \<Rightarrow> bool" where
  "permissionPart s = ident ''_.:-'' 1 127 s"

definition ValidPermission :: "string \<Rightarrow> string \<Rightarrow> bool" where
  "ValidPermission res act \<longleftrightarrow> permissionPart res \<and> permissionPart act"

definition PermissionKey :: "string \<Rightarrow> string \<Rightarrow> goerr + string" where
  "PermissionKey res act = (if \<not> ValidPermission res act then Inl ErrInvalidPolicy else Inr (res @ ''.'' @ act))"

record AuthzPolicy =
  Operation :: string
  Public :: bool
  polRequirement :: Requirement

text \<open>The registry's map.\<close>

type_synonym PolicyRegistry = "(string \<times> AuthzPolicy) list"

fun addPolicies :: "PolicyRegistry \<Rightarrow> AuthzPolicy list \<Rightarrow> goerr + PolicyRegistry" where
  "addPolicies reg [] = Inr reg"
| "addPolicies reg (pol # pols) =
     (if Operation pol = [] then Inl (Ext ''authorization policy is invalid: operation is empty'' [ErrInvalidPolicy])
      else if map_of reg (Operation pol) \<noteq> None
      then Inl (Ext (''authorization policy is invalid: duplicate operation '' @ quoted (Operation pol)) [ErrInvalidPolicy])
      else if Public pol \<and> (Resource (polRequirement pol) \<noteq> [] \<or> Action (polRequirement pol) \<noteq> [])
      then Inl (Ext (''authorization policy is invalid: public operation '' @ quoted (Operation pol) @ '' has a requirement'') [ErrInvalidPolicy])
      else if \<not> Public pol \<and> \<not> ValidPermission (Resource (polRequirement pol)) (Action (polRequirement pol))
      then Inl (Ext (''authorization policy is invalid: operation '' @ quoted (Operation pol) @ '' has invalid resource/action'') [ErrInvalidPolicy])
      else addPolicies ((Operation pol, pol) # reg) pols)"

definition NewPolicyRegistry :: "AuthzPolicy list \<Rightarrow> goerr + PolicyRegistry" where
  "NewPolicyRegistry pols = addPolicies [] pols"

definition Resolve :: "PolicyRegistry option \<Rightarrow> string \<Rightarrow> goerr + Requirement \<times> bool" where
  "Resolve r operation =
     (case r of
        None \<Rightarrow> Inl ErrPolicyMissing
      | Some reg \<Rightarrow>
          (case map_of reg operation of
             None \<Rightarrow> Inl (Ext (''authorization policy is missing: '' @ operation) [ErrPolicyMissing])
           | Some pol \<Rightarrow> Inr (polRequirement pol, Public pol)))"

text \<open>The resolvers of both transports: an unknown operation is protected by an empty requirement.\<close>

definition GRPCResolver :: "PolicyRegistry option \<Rightarrow> string \<Rightarrow> Requirement \<times> bool" where
  "GRPCResolver r fullMethod =
     (case Resolve r fullMethod of Inl e \<Rightarrow> (no_requirement, True) | Inr (requirement, public) \<Rightarrow> (requirement, \<not> public))"

definition HTTPResolver :: "PolicyRegistry option \<Rightarrow> http_request \<Rightarrow> Requirement \<times> bool" where
  "HTTPResolver r request =
     (case Resolve r (req_path request) of Inl e \<Rightarrow> (no_requirement, True) | Inr (requirement, public) \<Rightarrow> (requirement, \<not> public))"

section \<open>Server adapters\<close>

definition grpcAuthorizationError :: "goerr \<Rightarrow> int \<times> string" where
  "grpcAuthorizationError err =
     (if errors_Is err ErrMissing then (16, ''authenticated principal is required'')
      else if errors_Is err ErrDenied \<or> errors_Is err ErrInvalidPrincipal then (7, ''permission denied'')
      else (14, ''authorization decision is unavailable''))"

text \<open>The unary and the stream interceptor, which differ only in the handler's signature.\<close>

definition AuthzInterceptor ::
  "'w Authorizer option \<Rightarrow> (string \<Rightarrow> Requirement \<times> bool) \<Rightarrow> go_context \<Rightarrow> string \<Rightarrow>
   (go_context \<Rightarrow> 'w \<Rightarrow> 'r \<times> 'w) \<Rightarrow> 'w \<Rightarrow> ((int \<times> string) + 'r) \<times> 'w" where
  "AuthzInterceptor authorizer resolve ctx fullMethod handler w =
     (let (requirement, protected) = resolve fullMethod
      in if \<not> protected then (let (r, w1) = handler ctx w in (Inr r, w1))
         else
           (case Enforce ctx authorizer requirement w of
              (Some err, w1) \<Rightarrow> (Inl (grpcAuthorizationError err), w1)
            | (None, w1) \<Rightarrow> (let (r, w2) = handler ctx w1 in (Inr r, w2))))"

definition AuthzMiddleware ::
  "'w Authorizer option \<Rightarrow> (http_request \<Rightarrow> Requirement \<times> bool) \<Rightarrow>
   (http_request \<Rightarrow> goerr \<Rightarrow> http_response \<times> 'w \<Rightarrow> http_response \<times> 'w) option \<Rightarrow>
   (http_request \<Rightarrow> http_response \<times> 'w \<Rightarrow> http_response \<times> 'w) \<Rightarrow> http_request \<Rightarrow> http_response \<times> 'w \<Rightarrow> http_response \<times> 'w" where
  "AuthzMiddleware authorizer resolve writeError nxt request rw =
     (let (requirement, protected) = resolve request
      in if \<not> protected then nxt request rw
         else
           (case Enforce (req_ctx request) authorizer requirement (snd rw) of
              (Some err, w1) \<Rightarrow>
                (case writeError of
                   Some wr \<Rightarrow> wr request err (fst rw, w1)
                 | None \<Rightarrow> (http_Error ''Forbidden'' 403 (fst rw), w1))
            | (None, w1) \<Rightarrow> nxt request (fst rw, w1)))"

section \<open>Correctness\<close>

text \<open>What a registry is made from: every operation once, public ones bare, the others with a valid permission.\<close>

definition good_policy :: "AuthzPolicy \<Rightarrow> bool" where
  "good_policy pol \<longleftrightarrow>
     Operation pol \<noteq> [] \<and>
     (if Public pol then Resource (polRequirement pol) = [] \<and> Action (polRequirement pol) = []
      else ValidPermission (Resource (polRequirement pol)) (Action (polRequirement pol)))"

lemma addPolicies_ok:
  "(\<exists>out. addPolicies reg pols = Inr out) \<longleftrightarrow>
     list_all good_policy pols \<and> distinct (map Operation pols) \<and> (\<forall>pol \<in> set pols. map_of reg (Operation pol) = None)"
proof (induction pols arbitrary: reg)
  case (Cons pol pols)
  have "(\<exists>out. addPolicies reg (pol # pols) = Inr out) \<longleftrightarrow>
      good_policy pol \<and> map_of reg (Operation pol) = None \<and> (\<exists>out. addPolicies ((Operation pol, pol) # reg) pols = Inr out)"
    by (cases "Public pol") (auto simp: good_policy_def)
  also have "\<dots> \<longleftrightarrow> good_policy pol \<and> map_of reg (Operation pol) = None \<and> list_all good_policy pols \<and>
      distinct (map Operation pols) \<and> (\<forall>q \<in> set pols. map_of ((Operation pol, pol) # reg) (Operation q) = None)"
    unfolding Cons.IH by simp
  also have "(\<forall>q \<in> set pols. map_of ((Operation pol, pol) # reg) (Operation q) = None) \<longleftrightarrow>
      Operation pol \<notin> Operation ` set pols \<and> (\<forall>q \<in> set pols. map_of reg (Operation q) = None)"
    by (auto simp: image_iff)
  finally show ?case by auto
qed simp

lemma addPolicies_map:
  "addPolicies reg pols = Inr out \<Longrightarrow>
     map_of out opn = (case find (\<lambda>pol. Operation pol = opn) pols of Some pol \<Rightarrow> Some pol | None \<Rightarrow> map_of reg opn)"
proof (induction pols arbitrary: reg)
  case (Cons pol pols)
  have ok: "addPolicies ((Operation pol, pol) # reg) pols = Inr out"
    using Cons.prems by (simp split: if_split_asm)
  have d: "\<forall>q \<in> set pols. Operation q \<noteq> Operation pol"
    using addPolicies_ok[of "(Operation pol, pol) # reg" pols] ok by fastforce
  have "find (\<lambda>q. Operation q = opn) pols = None" if "Operation pol = opn"
    using d that by (auto simp: find_None_iff)
  then show ?case using Cons.IH[OF ok] by (auto split: option.splits)
qed simp

lemma registry_lookup:
  "NewPolicyRegistry pols = Inr reg \<Longrightarrow> map_of reg opn = find (\<lambda>pol. Operation pol = opn) pols"
  by (auto simp: NewPolicyRegistry_def addPolicies_map split: option.splits)

lemma registry_accepts:
  "(\<exists>reg. NewPolicyRegistry pols = Inr reg) \<longleftrightarrow> list_all good_policy pols \<and> distinct (map Operation pols)"
  by (simp add: NewPolicyRegistry_def addPolicies_ok)

text \<open>The authorization service said yes to this caller for this requirement.\<close>

definition granted ::
  "'w GRPCAuthorizer \<Rightarrow> go_context \<Rightarrow> Requirement \<Rightarrow> 'w \<Rightarrow> 'w \<Rightarrow> bool" where
  "granted a ctx requirement w w' \<longleftrightarrow>
     (\<exists>p tenantID subject Check.
        FromContext (Some ctx) = (p, True) \<and> authorizationTarget p (rqScope requirement) = Inr (tenantID, subject) \<and>
        ga_client a = Some Check \<and>
        Check (forwardCallerCredential ctx) (ga_timeout a) (checkRequest tenantID subject requirement) w = (Inr (Some True), w'))"

lemma permission_nonempty: "ValidPermission r x \<Longrightarrow> r \<noteq> [] \<and> x \<noteq> []"
  by (auto simp: ValidPermission_def permissionPart_def dest: ident_chars)

lemma Enforce_granted:
  "Enforce ctx (Some (Authorize (Some a))) requirement w = (None, w') \<longleftrightarrow>
     Resource requirement \<noteq> [] \<and> Action requirement \<noteq> [] \<and> granted a ctx requirement w w'"
proof (cases "snd (FromContext (Some ctx)) \<and> Resource requirement \<noteq> [] \<and> Action requirement \<noteq> []")
  case False
  then show ?thesis by (auto simp: Enforce_def granted_def split: prod.splits)
next
  case True
  then obtain p where p: "FromContext (Some ctx) = (p, True)" by (metis (full_types) prod.collapse)
  then show ?thesis
    using True
    by (auto simp: Enforce_def granted_def Authorize_def authz_errors
        split: option.splits sum.splits prod.splits if_splits)
qed

lemma Enforce_refused:
  "\<not> (\<exists>w'. Enforce ctx a requirement w = (None, w')) \<Longrightarrow> \<exists>err w1. Enforce ctx a requirement w = (Some err, w1)"
  by (metis option.exhaust prod.exhaust)

lemma find_distinct:
  "distinct (map f xs) \<Longrightarrow> x \<in> set xs \<Longrightarrow> f x = v \<Longrightarrow> find (\<lambda>y. f y = v) xs = Some x"
  by (induction xs) (auto simp: image_iff)

lemma GRPCResolver_registry:
  assumes "NewPolicyRegistry pols = Inr reg"
  shows "pol \<in> set pols \<Longrightarrow> Operation pol = m \<Longrightarrow> GRPCResolver (Some reg) m = (polRequirement pol, \<not> Public pol)"
    and "\<forall>pol \<in> set pols. Operation pol \<noteq> m \<Longrightarrow> GRPCResolver (Some reg) m = (no_requirement, True)"
proof -
  have d: "distinct (map Operation pols)" using assms registry_accepts by blast
  show "GRPCResolver (Some reg) m = (polRequirement pol, \<not> Public pol)" if "pol \<in> set pols" "Operation pol = m"
    using find_distinct[OF d that] by (simp add: GRPCResolver_def Resolve_def registry_lookup[OF assms])
  show "GRPCResolver (Some reg) m = (no_requirement, True)" if "\<forall>pol \<in> set pols. Operation pol \<noteq> m"
    using that find_None_iff[of "\<lambda>pol. Operation pol = m" pols]
    by (simp add: GRPCResolver_def Resolve_def registry_lookup[OF assms])
qed

lemma policy_requirement:
  assumes "NewPolicyRegistry pols = Inr reg" "pol \<in> set pols" "\<not> Public pol"
  shows "Resource (polRequirement pol) \<noteq> [] \<and> Action (polRequirement pol) \<noteq> []"
proof -
  have "list_all good_policy pols" using assms(1) registry_accepts by blast
  then have "good_policy pol" using assms(2) by (simp add: list_all_iff)
  then show ?thesis using permission_nonempty[of "Resource (polRequirement pol)" "Action (polRequirement pol)"] assms(3) by (simp add: good_policy_def)
qed

lemma AuthzInterceptor_refused:
  assumes "resolve m = (rq, True)" "\<nexists>w1. Enforce ctx a rq w = (None, w1)"
  shows "\<exists>status w1. \<forall>h. AuthzInterceptor a resolve ctx m h w = (Inl status, w1)"
proof -
  obtain err w1 where "Enforce ctx a rq w = (Some err, w1)" using Enforce_refused[OF assms(2)] by blast
  then show ?thesis using assms(1) by (auto simp: AuthzInterceptor_def)
qed

text \<open>C28. Authorization fails closed. With a registry that was accepted, a call's handler runs in exactly two
  cases: its method is registered as public, or it is registered with a requirement, the caller is
  identified and the authorization service answered yes for the caller's subject and that requirement. In
  every other case (unknown method, no principal, no client, an error, a nil or negative answer) the result
  is a status error that does not depend on the handler, and the handler's effects do not happen.\<close>

theorem authz_fail_closed:
  assumes "NewPolicyRegistry pols = Inr reg"
  shows "(\<forall>pol \<in> set pols. Operation pol = m \<and> Public pol \<longrightarrow>
      AuthzInterceptor (Some (Authorize (Some a))) (GRPCResolver (Some reg)) ctx m handler w =
        (Inr (fst (handler ctx w)), snd (handler ctx w))) \<and>
    (\<forall>pol \<in> set pols. \<forall>w1. Operation pol = m \<and> \<not> Public pol \<and> granted a ctx (polRequirement pol) w w1 \<longrightarrow>
      AuthzInterceptor (Some (Authorize (Some a))) (GRPCResolver (Some reg)) ctx m handler w =
        (Inr (fst (handler ctx w1)), snd (handler ctx w1))) \<and>
    ((\<forall>pol \<in> set pols. Operation pol = m \<longrightarrow> \<not> Public pol \<and> (\<nexists>w1. granted a ctx (polRequirement pol) w w1)) \<longrightarrow>
      (\<exists>status w1. \<forall>h. AuthzInterceptor (Some (Authorize (Some a))) (GRPCResolver (Some reg)) ctx m h w = (Inl status, w1)))"
proof (intro conjI ballI allI impI; (elim conjE)?)
  fix pol
  assume p: "pol \<in> set pols" "Operation pol = m" "Public pol"
  show "AuthzInterceptor (Some (Authorize (Some a))) (GRPCResolver (Some reg)) ctx m handler w =
        (Inr (fst (handler ctx w)), snd (handler ctx w))"
    using GRPCResolver_registry(1)[OF assms p(1,2)] p(3) by (simp add: AuthzInterceptor_def split: prod.splits)
next
  fix pol w1
  assume p: "pol \<in> set pols" "Operation pol = m" "\<not> Public pol" and g: "granted a ctx (polRequirement pol) w w1"
  have "Enforce ctx (Some (Authorize (Some a))) (polRequirement pol) w = (None, w1)"
    using policy_requirement[OF assms p(1,3)] g by (intro iffD2[OF Enforce_granted]) simp
  then show "AuthzInterceptor (Some (Authorize (Some a))) (GRPCResolver (Some reg)) ctx m handler w =
        (Inr (fst (handler ctx w1)), snd (handler ctx w1))"
    using GRPCResolver_registry(1)[OF assms p(1,2)] p(3) by (simp add: AuthzInterceptor_def split: prod.splits)
next
  assume n: "\<forall>pol \<in> set pols. Operation pol = m \<longrightarrow> \<not> Public pol \<and> (\<nexists>w1. granted a ctx (polRequirement pol) w w1)"
  show "\<exists>status w1. \<forall>h. AuthzInterceptor (Some (Authorize (Some a))) (GRPCResolver (Some reg)) ctx m h w = (Inl status, w1)"
  proof (cases "\<exists>pol \<in> set pols. Operation pol = m")
    case True
    then obtain pol where p: "pol \<in> set pols" "Operation pol = m" by blast
    then have "GRPCResolver (Some reg) m = (polRequirement pol, True)" using GRPCResolver_registry(1)[OF assms] n by simp
    then show ?thesis by (rule AuthzInterceptor_refused) (use n p in \<open>simp add: Enforce_granted\<close>)
  next
    case False
    then have "GRPCResolver (Some reg) m = (no_requirement, True)" using GRPCResolver_registry(2)[OF assms] by blast
    then show ?thesis by (rule AuthzInterceptor_refused) (simp add: Enforce_granted no_requirement_def)
  qed
qed

definition demo_policies :: "AuthzPolicy list" where
  "demo_policies =
     [\<lparr>Operation = ''/s/Health'', Public = True, polRequirement = no_requirement\<rparr>,
      \<lparr>Operation = ''/s/Delete'', Public = False, polRequirement = no_requirement\<lparr>Resource := ''tenant'', Action := ''delete''\<rparr>\<rparr>]"

definition demo_authorizer :: "nat GRPCAuthorizer" where
  "demo_authorizer = NewGRPCAuthorizer (Some (\<lambda>ctx t rq n. (Inr (Some (cr_TenantId rq = ''t1'')), Suc n))) 0"

lemma demo_registry: "\<exists>reg. NewPolicyRegistry demo_policies = Inr reg"
  unfolding registry_accepts by code_simp

theorem authz_fail_closed_witness:
  "\<exists>reg. NewPolicyRegistry demo_policies = Inr reg \<and>
     (\<exists>status w1. \<forall>h :: go_context \<Rightarrow> nat \<Rightarrow> nat \<times> nat.
        AuthzInterceptor (Some (Authorize (Some demo_authorizer))) (GRPCResolver (Some reg)) Background ''/s/Delete'' h 0 = (Inl status, w1))"
proof -
  obtain reg where r: "NewPolicyRegistry demo_policies = Inr reg" using demo_registry by blast
  have n: "\<not> granted demo_authorizer Background rq w w1" for rq w w1
    by (simp add: granted_def FromContext_def Background_def)
  have u: "\<forall>pol \<in> set demo_policies. Operation pol = ''/s/Delete'' \<longrightarrow> \<not> Public pol"
    by (simp add: demo_policies_def)
  show ?thesis
    using conjunct2[OF conjunct2[OF authz_fail_closed[OF r, of "''/s/Delete''" demo_authorizer Background _ 0]]] n u r by blast
qed

text \<open>Every identity that a verified token yields can be asked about at its own scope, and only there. Scoped
  to the principal, a user with a tenant is asked about as that tenant's membership, a user without one and
  a service account as themselves on the platform; a service account is never mapped into a tenant, and a
  scope value that is not one of the three is refused.\<close>

theorem authz_token_target:
  assumes "VerifyBearer v ctx raw w = (Inr p, w')"
  shows "authorizationTarget p ScopePrincipal =
      (if TrimSpace (TenantID p) \<noteq> []
       then Inr (TenantID p, \<lparr>sub_Id = MembershipID p, sub_Type = SUBJECT_TYPE_MEMBERSHIP\<rparr>)
       else Inr (PlatformTenantID, \<lparr>sub_Id = ID p,
         sub_Type = (if Type p = TypeUser then SUBJECT_TYPE_USER else SUBJECT_TYPE_SERVICE_ACCOUNT)\<rparr>)) \<and>
    (Type p = TypeServiceAccount \<longrightarrow> authorizationTarget p ScopeTenant = Inl ErrInvalidPrincipal) \<and>
    (\<forall>sc. 3 \<le> sc \<longrightarrow> authorizationTarget p sc = Inl ErrInvalidPrincipal)"
proof -
  have t: "token_principal p" using VerifyBearer_token[OF assms] .
  have n: "TypeServiceAccount \<noteq> TypeUser" by (simp add: Type_defs)
  have s: "sc \<noteq> ScopeTenant \<and> sc \<noteq> ScopePlatform \<and> sc \<noteq> ScopePrincipal" if "3 \<le> sc" for sc
    using that by (auto simp: Scope_defs word_le_nat_alt)
  show ?thesis
    using t n s
    by (auto simp: token_principal_def authorizationTarget_def authorizationSubject_def Let_def Scope_defs)
qed

definition demo_jwt :: "unit jwt_lib" where
  "demo_jwt =
     \<lparr>ParseWithClaims = (\<lambda>iss aud raw w. ((Inr (True, \<lparr>SubjectType = ''user'', PrincipalType = [], cl_SessionID = ''s1'',
        TemplateSessionID = [], cl_TenantID = ''t1'', cl_MembershipID = ''m1'', Subject = raw\<rparr>), False), w)),
      LoadKeys = (\<lambda>u t w. (None, w))\<rparr>"

theorem authz_token_target_witness:
  "authorizationTarget \<lparr>ID = ''u1'', Type = TypeUser, TenantID = ''t1'', MembershipID = ''m1'', SessionID = ''s1''\<rparr> ScopePrincipal =
     Inr (''t1'', \<lparr>sub_Id = ''m1'', sub_Type = SUBJECT_TYPE_MEMBERSHIP\<rparr>)"
proof -
  let ?v = "\<lparr>jv_lib = demo_jwt, jv_issuer = ''i'', jv_audience = ''a''\<rparr>"
  have v: "VerifyBearer ?v Background ''u1'' () =
      (Inr \<lparr>ID = ''u1'', Type = TypeUser, TenantID = ''t1'', MembershipID = ''m1'', SessionID = ''s1''\<rparr>, ())"
    by code_simp
  have t: "TrimSpace ''t1'' \<noteq> []" by code_simp
  show ?thesis using authz_token_target[OF v] t by simp
qed

text \<open>
  Permission keys do not identify permissions: both parts may contain the dot that joins them.
\<close>

lemma PermissionKey_ambiguous:
  "PermissionKey ''user.group'' ''read'' = PermissionKey ''user'' ''group.read'' \<and>
   PermissionKey ''user'' ''group.read'' = Inr ''user.group.read''"
  by code_simp

end
