(* ===== verification/Stable_ID.thy ===== *)
theory Stable_ID
  imports Go_Text
begin

text \<open>
  Deterministic identifiers (\<open>src/stableid/stableid.go\<close>). The UUID library is a parameter: its
  parser, its nil value, the name-based UUID and its text form.
\<close>

definition ErrInvalidNamespace :: goerr where "ErrInvalidNamespace = Sentinel ''invalid stable ID namespace''"
definition ErrInvalidKey :: goerr where "ErrInvalidKey = Sentinel ''invalid canonical business key''"

record 'u uuid_lib =
  uuid_Parse :: "string \<Rightarrow> goerr + 'u"
  uuid_Nil :: 'u
  NewSHA1 :: "'u \<Rightarrow> string \<Rightarrow> 'u"
  uuid_String :: "'u \<Rightarrow> string"

text \<open>\<open>^[a-z][a-z0-9_.-]*(?::[a-z0-9][a-z0-9_.-]*)+$\<close>, read at its colons.\<close>

definition key_segment :: "string \<Rightarrow> bool" where
  "key_segment s =
     (case s of [] \<Rightarrow> False | c # cs \<Rightarrow> (lowercase c \<or> digit c) \<and> list_all (ident_char ''_.-'') cs)"

definition canonicalKey :: "string \<Rightarrow> bool" where
  "canonicalKey key =
     (case Split (CHR '':'') key of
        [] \<Rightarrow> False
      | s # ss \<Rightarrow> key_segment s \<and> lowercase (hd s) \<and> ss \<noteq> [] \<and> list_all key_segment ss)"

record 'u Generator = ns :: 'u

definition New_generator :: "'u uuid_lib \<Rightarrow> string \<Rightarrow> goerr + 'u Generator" where
  "New_generator U namespace =
     (case uuid_Parse U (TrimSpace namespace) of
        Inl e \<Rightarrow> Inl (Ext (''invalid stable ID namespace: '' @ quoted namespace) [ErrInvalidNamespace])
      | Inr parsed \<Rightarrow>
          if parsed = uuid_Nil U then Inl (Ext (''invalid stable ID namespace: '' @ quoted namespace) [ErrInvalidNamespace])
          else Inr \<lparr>ns = parsed\<rparr>)"

definition UUID :: "'u uuid_lib \<Rightarrow> 'u Generator \<Rightarrow> string \<Rightarrow> goerr + 'u" where
  "UUID U g key =
     (if ns g = uuid_Nil U then Inl ErrInvalidNamespace
      else if key \<noteq> TrimSpace key \<or> key \<noteq> ToLower key \<or> \<not> canonicalKey key
      then Inl (Ext (''invalid canonical business key: '' @ quoted key) [ErrInvalidKey])
      else Inr (NewSHA1 U (ns g) key))"

definition String_id :: "'u uuid_lib \<Rightarrow> 'u Generator \<Rightarrow> string \<Rightarrow> goerr + string" where
  "String_id U g key = (case UUID U g key of Inl e \<Rightarrow> Inl e | Inr i \<Rightarrow> Inr (uuid_String U i))"

section \<open>Canonical keys\<close>

lemma String_id_Inr:
  "String_id U g key = Inr i \<Longrightarrow> canonicalKey key \<and> i = uuid_String U (NewSHA1 U (ns g) key)"
  by (auto simp: String_id_def UUID_def split: if_splits)

lemma canonicalKey_segments: "canonicalKey key \<Longrightarrow> \<forall>s \<in> set (Split (CHR '':'') key). key_segment s"
  by (auto simp: canonicalKey_def list_all_iff split: list.splits)

end
