(* ===== verification/Route_Policy.thy ===== *)
theory Route_Policy
  imports Authz Stable_ID
begin

text \<open>
  Route policies (\<open>src/routepolicy/\<close>): route identities (\<open>route.go\<close>), the compilation and
  evaluation of a policy (\<open>policy.go\<close>) and the snapshot of compiled policies
  (\<open>snapshot.go\<close>). CEL is a parameter: compiling an expression, its output type, the program
  made from it and what the program answers. Go walks a map in an unspecified order: a function that
  gives some order of the entries is a parameter too.
\<close>

definition ErrMissing_route :: goerr where "ErrMissing_route = Sentinel ''route policy missing''"
definition ErrInvalid_route :: goerr where "ErrInvalid_route = Sentinel ''route policy invalid''"
definition ErrDenied_route :: goerr where "ErrDenied_route = Sentinel ''route policy denied''"

section \<open>Route identities\<close>

definition RouteNamespace :: string where "RouteNamespace = ''afc952de-95c3-455a-bc5c-89fb3c2a5da5''"

text \<open>\<open>^[a-z0-9_.-]+$\<close>\<close>

definition routeSegment :: "string \<Rightarrow> bool" where
  "routeSegment s \<longleftrightarrow> s \<noteq> [] \<and> list_all (ident_char ''_.-'') s"

record Route =
  rt_ID :: string
  Protocol :: string
  Method :: string
  Path :: string
  rt_Operation :: string
  Description :: string
  rt_ServiceName :: string
  SourceVersion :: string

definition normalSegment :: "string \<Rightarrow> string" where
  "normalSegment s = ToLower (TrimPrefix1 (CHR ''*'') (TrimPrefix1 (CHR '':'') s))"

definition escapeSegment :: "string \<Rightarrow> string" where
  "escapeSegment s = (if prefix ''.'' s \<or> prefix ''x-'' s then ''x-'' @ s else s)"

fun routeSegments :: "string list \<Rightarrow> goerr + string list" where
  "routeSegments [] = Inr []"
| "routeSegments (s # ss) =
     (let seg = normalSegment s
      in if \<not> routeSegment seg
         then Inl (Ext (''route policy invalid: unsupported route segment '' @ quoted seg) [ErrInvalid_route])
         else (case routeSegments ss of Inl e \<Rightarrow> Inl e | Inr r \<Rightarrow> Inr (escapeSegment seg # r)))"

text \<open>The canonical key that is hashed, and the route made with it.\<close>

definition routeKey :: "string \<Rightarrow> string \<Rightarrow> string \<Rightarrow> string list \<Rightarrow> string" where
  "routeKey serviceName protocol meth segs = Join_sep (CHR '':'') ([''route'', serviceName, protocol, meth] @ segs)"

definition NewRoute :: "'u uuid_lib \<Rightarrow> string \<Rightarrow> string \<Rightarrow> string \<Rightarrow> string \<Rightarrow> string \<Rightarrow> goerr + Route" where
  "NewRoute U protocol0 method0 routePath0 serviceName0 sourceVersion =
     (let protocol = ToLower (TrimSpace protocol0); meth = ToLower (TrimSpace method0);
          routePath = TrimSpace routePath0; serviceName = ToLower (TrimSpace serviceName0)
      in if (protocol \<noteq> ''http'' \<and> protocol \<noteq> ''grpc'') \<or> meth = [] \<or> routePath = [] \<or> serviceName = [] \<or>
            \<not> routeSegment serviceName
         then Inl (Ext ''route policy invalid: incomplete route identity'' [ErrInvalid_route])
         else
           (case routeSegments (Split (CHR ''/'') (Trim1 (CHR ''/'') routePath)) of
              Inl e \<Rightarrow> Inl e
            | Inr segs \<Rightarrow>
                (case New_generator U RouteNamespace of
                   Inl e \<Rightarrow> Inl (Wrap ''create route id generator'' e)
                 | Inr g \<Rightarrow>
                     (case String_id U g (routeKey serviceName protocol meth segs) of
                        Inl e \<Rightarrow> Inl (Wrap ''generate route id'' e)
                      | Inr i \<Rightarrow>
                          Inr \<lparr>rt_ID = i, Protocol = protocol, Method = meth, Path = routePath, rt_Operation = [],
                               Description = [], rt_ServiceName = serviceName, SourceVersion = sourceVersion\<rparr>))))"

section \<open>Policies\<close>

definition MaxExpressionBytes :: nat where "MaxExpressionBytes = 4096"
definition MaxPermissionRefs :: nat where "MaxPermissionRefs = 8"

record Permission =
  pm_ID :: string
  pm_Key :: string
  pm_Resource :: string
  pm_Action :: string
  pm_Scope :: Scope

text \<open>The permissions are a map: each key occurs once in the list.\<close>

record Definition =
  df_ID :: string
  df_RouteID :: string
  Expression :: string
  Permissions :: "(string \<times> Permission) list"
  df_Version :: int

record activation =
  av_anonymous :: bool
  av_authenticated :: bool
  av_principal_type :: string
  av_permissions :: "(string \<times> bool) list"

record ('a, 'p) cel_lib =
  NewEnv :: "goerr option"
  cel_Compile :: "string \<Rightarrow> goerr + 'a"
  OutputBool :: "'a \<Rightarrow> bool"
  cel_Program :: "'a \<Rightarrow> goerr + 'p"
  ContextEval :: "'p \<Rightarrow> go_context \<Rightarrow> activation \<Rightarrow> goerr + bool option"

text \<open>A compiler is the environment it holds; an evaluation may answer something that is no boolean.\<close>

definition NewCompiler :: "('a, 'p) cel_lib \<Rightarrow> goerr + ('a, 'p) cel_lib" where
  "NewCompiler L = (case NewEnv L of Some e \<Rightarrow> Inl (Wrap ''create route policy environment'' e) | None \<Rightarrow> Inr L)"

record 'p RoutePolicy =
  definition_of :: Definition
  program :: 'p

text \<open>
  The reference pattern \<open>permissions\[\s*"([a-z][a-z0-9_.:-]{2,127})"\s*\]\<close> at the head of a
  text: the key and what follows the match. A key contains no quote, so there is one way to match.
\<close>

definition regex_space :: "char \<Rightarrow> bool" where
  "regex_space c \<longleftrightarrow> c \<in> {CHR 0x09, CHR 0x0A, CHR 0x0C, CHR 0x0D, CHR 0x20}"

definition matchRef :: "string \<Rightarrow> (string \<times> string) option" where
  "matchRef s =
     (if \<not> prefix ''permissions['' s then None
      else
        (let a = dropWhile regex_space (drop 12 s)
         in if a = [] \<or> hd a \<noteq> CHR 0x22 then None
            else
              (let key = takeWhile (ident_char ''_.:-'') (tl a);
                   b = dropWhile (ident_char ''_.:-'') (tl a)
               in if \<not> ident ''_.:-'' 2 127 key \<or> b = [] \<or> hd b \<noteq> CHR 0x22 then None
                  else
                    (let c = dropWhile regex_space (tl b)
                     in if c = [] \<or> hd c \<noteq> CHR '']'' then None else Some (key, tl c)))))"

lemma matchRef_shorter:
  assumes "matchRef s = Some (key, t)"
  shows "length t < length s"
proof -
  define a where "a = dropWhile regex_space (drop 12 s)"
  define b where "b = dropWhile (ident_char ''_.:-'') (tl a)"
  define c where "c = dropWhile regex_space (tl b)"
  have n: "a \<noteq> []" "b \<noteq> []" "c \<noteq> []" "t = tl c"
    using assms unfolding matchRef_def Let_def a_def[symmetric] b_def[symmetric] c_def[symmetric]
    by (simp_all split: if_split_asm)
  have "length t < length c" using n by (cases c) auto
  also have "length c \<le> length b" using length_dropWhile_le[of regex_space "tl b"] by (simp add: c_def)
  also have "length b \<le> length a" using length_dropWhile_le[of "ident_char ''_.:-''" "tl a"] by (simp add: b_def)
  also have "length a \<le> length s" using length_dropWhile_le[of regex_space "drop 12 s"] by (simp add: a_def)
  finally show ?thesis .
qed

function findRefs :: "string \<Rightarrow> string list" where
  "findRefs s =
     (if s = [] then []
      else (case matchRef s of Some (key, t) \<Rightarrow> key # findRefs t | None \<Rightarrow> findRefs (tl s)))"
  by pat_completeness auto
termination
  by (relation "measure length") (auto dest: matchRef_shorter)

declare findRefs.simps [simp del]

text \<open>The keys in the order of their first occurrence.\<close>

fun firsts :: "string list \<Rightarrow> string list \<Rightarrow> string list" where
  "firsts seen [] = []"
| "firsts seen (k # ks) = (if k \<in> set seen then firsts seen ks else k # firsts (k # seen) ks)"

definition PermissionKeys :: "string \<Rightarrow> string list" where
  "PermissionKeys expression = firsts [] (findRefs expression)"

fun inactive :: "(string \<times> Permission) list \<Rightarrow> string list \<Rightarrow> string option" where
  "inactive perms [] = None"
| "inactive perms (key # keys) =
     (case map_of perms key of
        None \<Rightarrow> Some key
      | Some perm \<Rightarrow> if pm_Resource perm = [] \<or> pm_Action perm = [] then Some key else inactive perms keys)"

definition Compile :: "('a, 'p) cel_lib \<Rightarrow> Definition \<Rightarrow> goerr + 'p RoutePolicy" where
  "Compile L d =
     (let expression = TrimSpace (Expression d); keys = PermissionKeys expression
      in if expression = [] \<or> length expression > MaxExpressionBytes
         then Inl (Ext ''route policy invalid: invalid expression length'' [ErrInvalid_route])
         else if length keys > MaxPermissionRefs
         then Inl (Ext ''route policy invalid: too many permission references'' [ErrInvalid_route])
         else
           (case inactive (Permissions d) keys of
              Some key \<Rightarrow> Inl (Ext (''route policy invalid: inactive permission '' @ quoted key) [ErrInvalid_route])
            | None \<Rightarrow>
                if length (Permissions d) \<noteq> length keys
                then Inl (Ext ''route policy invalid: unused permission references'' [ErrInvalid_route])
                else
                  (case cel_Compile L expression of
                     Inl e \<Rightarrow> Inl (Ext (''route policy invalid: compile expression: '' @ err_text e) [ErrInvalid_route])
                   | Inr ast \<Rightarrow>
                       if \<not> OutputBool L ast
                       then Inl (Ext ''route policy invalid: expression must return bool'' [ErrInvalid_route])
                       else
                         (case cel_Program L ast of
                            Inl e \<Rightarrow> Inl (Wrap ''create expression program'' e)
                          | Inr prog \<Rightarrow> Inr \<lparr>definition_of = d, program = prog\<rparr>))))"

definition permissionRequirement :: "Permission \<Rightarrow> Requirement" where
  "permissionRequirement perm =
     no_requirement\<lparr>Resource := pm_Resource perm, Action := pm_Action perm, rqScope := pm_Scope perm\<rparr>"

text \<open>The decisions of an authenticated caller, in the order the map is walked.\<close>

fun decide ::
  "'w Authorizer \<Rightarrow> go_context \<Rightarrow> Principal \<Rightarrow> (string \<times> Permission) list \<Rightarrow> 'w \<Rightarrow> (goerr + (string \<times> bool) list) \<times> 'w" where
  "decide authorize ctx identity [] w = (Inr [], w)"
| "decide authorize ctx identity ((key, perm) # ps) w =
     (case authorize ctx identity (permissionRequirement perm) w of
        (err, w1) \<Rightarrow>
          if err \<noteq> None \<and> \<not> errors_Is (the err) ErrDenied
          then (Inl (Wrap (''authorize permission '' @ quoted key) (the err)), w1)
          else
            (case decide authorize ctx identity ps w1 of
               (Inl e, w2) \<Rightarrow> (Inl e, w2)
             | (Inr ds, w2) \<Rightarrow> (Inr ((key, err = None) # ds), w2)))"

definition Evaluate ::
  "('a, 'p) cel_lib \<Rightarrow> ((string \<times> Permission) list \<Rightarrow> (string \<times> Permission) list) \<Rightarrow> 'p RoutePolicy \<Rightarrow> go_context \<Rightarrow>
   'w Authorizer option \<Rightarrow> 'w \<Rightarrow> goerr option \<times> 'w" where
  "Evaluate L iter pol ctx authorizer w =
     (let (identity, authenticated) = FromContext (Some ctx); perms = Permissions (definition_of pol)
      in if authenticated \<and> perms \<noteq> [] \<and> authorizer = None then (Some ErrDecisionUnavailable, w)
         else
           (case (if authenticated then decide (the authorizer) ctx identity (iter perms) w
                  else (Inr (map (\<lambda>(key, perm). (key, False)) (iter perms)), w)) of
              (Inl e, w1) \<Rightarrow> (Some e, w1)
            | (Inr decisions, w1) \<Rightarrow>
                (case ContextEval L (program pol) ctx
                    \<lparr>av_anonymous = \<not> authenticated, av_authenticated = authenticated,
                     av_principal_type = (if authenticated then Type identity else []), av_permissions = decisions\<rparr> of
                   Inl e \<Rightarrow> (Some (Wrap ''evaluate route policy'' e), w1)
                 | Inr v \<Rightarrow> if v \<noteq> Some True then (Some ErrDenied_route, w1) else (None, w1))))"

section \<open>Snapshots\<close>

text \<open>The map behind the snapshot's atomic pointer.\<close>

type_synonym 'p policies = "(string \<times> 'p RoutePolicy) list"

definition NewSnapshot :: "'p policies" where "NewSnapshot = []"

fun buildPolicies :: "('a, 'p) cel_lib \<Rightarrow> 'p policies \<Rightarrow> Definition list \<Rightarrow> goerr + 'p policies" where
  "buildPolicies L nxt [] = Inr nxt"
| "buildPolicies L nxt (d # ds) =
     (if df_RouteID d = [] then Inl (Ext ''route policy invalid: empty route id'' [ErrInvalid_route])
      else
        (case Compile L d of
           Inl e \<Rightarrow> Inl (Wrap (''compile policy '' @ quoted (df_ID d)) e)
         | Inr pol \<Rightarrow>
             if map_of nxt (df_RouteID d) \<noteq> None
             then Inl (Ext (''route policy invalid: duplicate route '' @ quoted (df_RouteID d)) [ErrInvalid_route])
             else buildPolicies L ((df_RouteID d, pol) # nxt) ds))"

definition Replace :: "('a, 'p) cel_lib \<Rightarrow> Definition list \<Rightarrow> 'p policies \<Rightarrow> goerr option \<times> 'p policies" where
  "Replace L definitions s =
     (case buildPolicies L [] definitions of Inl e \<Rightarrow> (Some e, s) | Inr nxt \<Rightarrow> (None, nxt))"

definition Reload :: "('a, 'p) cel_lib \<Rightarrow> goerr + Definition list \<Rightarrow> 'p policies \<Rightarrow> goerr option \<times> 'p policies" where
  "Reload L loaded s =
     (case loaded of Inl e \<Rightarrow> (Some (Wrap ''load route policies'' e), s) | Inr definitions \<Rightarrow> Replace L definitions s)"

definition Evaluate_snapshot ::
  "('a, 'p) cel_lib \<Rightarrow> ((string \<times> Permission) list \<Rightarrow> (string \<times> Permission) list) \<Rightarrow> 'p policies \<Rightarrow> go_context \<Rightarrow> string \<Rightarrow>
   'w Authorizer option \<Rightarrow> 'w \<Rightarrow> goerr option \<times> 'w" where
  "Evaluate_snapshot L iter s ctx routeID authorizer w =
     (case map_of s routeID of
        None \<Rightarrow> (Some (Ext (''route policy missing: route '' @ quoted routeID) [ErrMissing_route]), w)
      | Some pol \<Rightarrow> Evaluate L iter pol ctx authorizer w)"

section \<open>Correctness of policies\<close>

lemma firsts_distinct: "distinct (firsts seen ks) \<and> set (firsts seen ks) = set ks - set seen"
  by (induction seen ks rule: firsts.induct) auto

lemma inactive_None:
  "inactive perms keys = None \<longleftrightarrow>
     (\<forall>key \<in> set keys. \<exists>perm. map_of perms key = Some perm \<and> pm_Resource perm \<noteq> [] \<and> pm_Action perm \<noteq> [])"
  by (induction keys) (auto split: option.splits)

text \<open>
  What a compiled policy's definition satisfies: a bounded expression of type bool that refers to at most
  eight permissions, which are exactly the ones the definition lists, all of them active.
\<close>

definition sound_definition :: "('a, 'p) cel_lib \<Rightarrow> Definition \<Rightarrow> 'p \<Rightarrow> bool" where
  "sound_definition L d prog \<longleftrightarrow>
     (let expression = TrimSpace (Expression d); refs = set (findRefs expression)
      in expression \<noteq> [] \<and> length expression \<le> 4096 \<and> card refs \<le> 8 \<and> refs = set (map fst (Permissions d)) \<and>
         (\<forall>key \<in> refs. \<exists>perm. map_of (Permissions d) key = Some perm \<and> pm_Resource perm \<noteq> [] \<and> pm_Action perm \<noteq> []) \<and>
         (\<exists>ast. cel_Compile L expression = Inr ast \<and> OutputBool L ast \<and> cel_Program L ast = Inr prog))"

lemma Compile_sound:
  assumes "Compile L d = Inr pol" "distinct (map fst (Permissions d))"
  shows "definition_of pol = d \<and> sound_definition L d (program pol)"
proof -
  define e where "e = TrimSpace (Expression d)"
  define keys where "keys = PermissionKeys e"
  have k: "distinct keys" "set keys = set (findRefs e)"
    using firsts_distinct[of "[]" "findRefs e"] by (auto simp: keys_def PermissionKeys_def)
  have c: "e \<noteq> []" "length e \<le> 4096" "length keys \<le> 8" "inactive (Permissions d) keys = None"
      "length (Permissions d) = length keys" "definition_of pol = d"
      "\<exists>ast. cel_Compile L e = Inr ast \<and> OutputBool L ast \<and> cel_Program L ast = Inr (program pol)"
    using assms(1) unfolding Compile_def Let_def e_def[symmetric] keys_def[symmetric] MaxExpressionBytes_def MaxPermissionRefs_def
    by (simp_all split: if_split_asm option.splits sum.splits)
      (auto split: if_split_asm option.splits sum.splits)
  have a: "\<forall>key \<in> set keys. \<exists>perm. map_of (Permissions d) key = Some perm \<and> pm_Resource perm \<noteq> [] \<and> pm_Action perm \<noteq> []"
    using c(4) by (simp add: inactive_None)
  have "set keys \<subseteq> set (map fst (Permissions d))" using a by (auto dest!: map_of_SomeD bspec) force
  moreover have "card (set keys) = card (set (map fst (Permissions d)))"
    using distinct_card[OF k(1)] distinct_card[OF assms(2)] c(5) by simp
  ultimately have "set keys = set (map fst (Permissions d))" by (intro card_subset_eq) auto
  then show ?thesis
    using c a k(2) distinct_card[OF k(1)] unfolding sound_definition_def Let_def e_def[symmetric] by auto
qed

lemma buildPolicies_Inr:
  assumes "buildPolicies L nxt ds = Inr out"
  shows "distinct (map df_RouteID ds) \<and> [] \<notin> df_RouteID ` set ds \<and>
    (\<forall>d \<in> set ds. map_of nxt (df_RouteID d) = None) \<and>
    (\<forall>d \<in> set ds. \<exists>pol. map_of out (df_RouteID d) = Some pol \<and> Compile L d = Inr pol) \<and>
    (\<forall>r. r \<notin> df_RouteID ` set ds \<longrightarrow> map_of out r = map_of nxt r)"
  using assms
proof (induction ds arbitrary: nxt)
  case (Cons d ds)
  obtain pol where p: "df_RouteID d \<noteq> []" "Compile L d = Inr pol" "map_of nxt (df_RouteID d) = None"
      "buildPolicies L ((df_RouteID d, pol) # nxt) ds = Inr out"
    using Cons.prems by (auto split: if_split_asm sum.splits)
  note IH = Cons.IH[OF p(4)]
  have n: "df_RouteID d \<notin> df_RouteID ` set ds" using IH by force
  have "map_of out (df_RouteID d) = Some pol" using IH n by simp
  moreover have "\<forall>x \<in> set ds. map_of nxt (df_RouteID x) = None" using IH n by (auto split: if_splits)
  ultimately show ?case using IH n p by auto
qed simp

text \<open>C30. A snapshot is replaced as a whole or not at all. When a reload fails, for whatever reason, the policies in
  force stay; when it succeeds, every loaded definition has its own non-empty route, governs it with the
  program compiled from it, and is sound: a bounded boolean expression over exactly its listed, active
  permissions; no other route has a policy.\<close>

theorem routepolicy_replace_atomic:
  assumes "Reload L loaded s = (err, s')" "\<forall>ds. loaded = Inr ds \<longrightarrow> (\<forall>d \<in> set ds. distinct (map fst (Permissions d)))"
  shows "(err \<noteq> None \<longrightarrow> s' = s) \<and>
    (err = None \<longrightarrow> (\<exists>ds. loaded = Inr ds \<and> distinct (map df_RouteID ds) \<and> [] \<notin> df_RouteID ` set ds \<and>
       dom (map_of s') = df_RouteID ` set ds \<and>
       (\<forall>d \<in> set ds. \<exists>pol. map_of s' (df_RouteID d) = Some pol \<and> definition_of pol = d \<and> sound_definition L d (program pol))))"
proof (cases loaded)
  case (Inl e)
  then show ?thesis using assms(1) by (auto simp: Reload_def)
next
  case (Inr ds)
  show ?thesis
  proof (cases "buildPolicies L [] ds")
    case (Inl e)
    then show ?thesis using assms(1) Inr by (auto simp: Reload_def Replace_def)
  next
    case out: (Inr nxt)
    then have s: "err = None" "s' = nxt" using assms(1) Inr by (auto simp: Reload_def Replace_def)
    note b = buildPolicies_Inr[OF out]
    have "dom (map_of nxt) = df_RouteID ` set ds"
    proof (intro set_eqI iffI)
      fix r assume "r \<in> dom (map_of nxt)"
      then show "r \<in> df_RouteID ` set ds" using b by (cases "r \<in> df_RouteID ` set ds") auto
    next
      fix r assume "r \<in> df_RouteID ` set ds"
      then show "r \<in> dom (map_of nxt)" using b by blast
    qed
    moreover have "\<exists>pol. map_of nxt (df_RouteID d) = Some pol \<and> definition_of pol = d \<and> sound_definition L d (program pol)"
      if "d \<in> set ds" for d
      using b that Compile_sound[of L d] assms(2) Inr by blast
    ultimately show ?thesis using s b Inr by simp
  qed
qed

lemma decide_Inr:
  assumes "decide authorize ctx identity ps w = (Inr ds, w')"
  shows "map fst ds = map fst ps \<and>
    (\<forall>(key, b) \<in> set ds. b \<longrightarrow> (\<exists>perm w1 w2. (key, perm) \<in> set ps \<and> authorize ctx identity (permissionRequirement perm) w1 = (None, w2)))"
  using assms
proof (induction ps arbitrary: w ds)
  case (Cons q ps)
  obtain key perm where q: "q = (key, perm)" by (cases q)
  obtain err w1 where a: "authorize ctx identity (permissionRequirement perm) w = (err, w1)" by fastforce
  obtain ds1 where d: "decide authorize ctx identity ps w1 = (Inr ds1, w')" "ds = (key, err = None) # ds1"
    using Cons.prems a q by (auto split: if_split_asm sum.splits prod.splits)
  show ?case using Cons.IH[OF d(1)] a d(2) q by fastforce
qed simp

text \<open>C29. Route policies fail closed. A request passes only if its route has a policy whose program answered true
  on the caller's own situation: anonymous or authenticated as the context says, with the caller's type, a
  decision for each of the policy's permissions and no others, true only if the authorizer granted that
  permission to the caller; an anonymous caller has every permission false and the authorizer is not asked.\<close>

theorem routepolicy_fail_closed:
  assumes "\<And>m. mset (iter m) = mset m"
    and "Evaluate_snapshot L iter s ctx routeID authorizer w = (None, w')"
  shows "\<exists>pol av. map_of s routeID = Some pol \<and> ContextEval L (program pol) ctx av = Inr (Some True) \<and>
    av_authenticated av = snd (FromContext (Some ctx)) \<and> av_anonymous av = (\<not> av_authenticated av) \<and>
    mset (map fst (av_permissions av)) = mset (map fst (Permissions (definition_of pol))) \<and>
    (if av_authenticated av
     then av_principal_type av = Type (fst (FromContext (Some ctx))) \<and>
       (\<forall>key. (key, True) \<in> set (av_permissions av) \<longrightarrow>
          (\<exists>authorize perm w1 w2. authorizer = Some authorize \<and> (key, perm) \<in> set (Permissions (definition_of pol)) \<and>
             authorize ctx (fst (FromContext (Some ctx))) (permissionRequirement perm) w1 = (None, w2)))
     else av_principal_type av = [] \<and> w' = w \<and> (\<forall>(key, b) \<in> set (av_permissions av). \<not> b))"
proof -
  obtain pol where pol: "map_of s routeID = Some pol" "Evaluate L iter pol ctx authorizer w = (None, w')"
    using assms(2) by (auto simp: Evaluate_snapshot_def split: option.splits)
  obtain identity auth where c: "FromContext (Some ctx) = (identity, auth)" by fastforce
  let ?perms = "Permissions (definition_of pol)"
  have it: "mset (map fst (iter ?perms)) = mset (map fst ?perms)" "set (iter ?perms) = set ?perms"
    using assms(1)[of ?perms] mset_eq_setD[OF assms(1)[of ?perms]] by simp_all
  show ?thesis
  proof (cases auth)
    case True
    obtain ds where d: "decide (the authorizer) ctx identity (iter ?perms) w = (Inr ds, w')"
      and e: "ContextEval L (program pol) ctx \<lparr>av_anonymous = False, av_authenticated = True, av_principal_type = Type identity, av_permissions = ds\<rparr> = Inr (Some True)"
      and n: "?perms = [] \<or> authorizer \<noteq> None"
      using pol(2) c True by (auto simp: Evaluate_def Let_def split: if_split_asm sum.splits prod.splits)
    note D = decide_Inr[OF d]
    have g: "\<exists>authorize perm w1 w2. authorizer = Some authorize \<and> (key, perm) \<in> set ?perms \<and>
        authorize ctx identity (permissionRequirement perm) w1 = (None, w2)" if kt: "(key, True) \<in> set ds" for key
    proof -
      obtain perm w1 w2 where "(key, perm) \<in> set (iter ?perms)" "the authorizer ctx identity (permissionRequirement perm) w1 = (None, w2)"
        using bspec[OF conjunct2[OF D] kt] by auto
      then show ?thesis using n it(2) by (cases authorizer) auto
    qed
    show ?thesis using pol(1) e D it c True g
      by (intro exI[of _ pol] exI[of _ "\<lparr>av_anonymous = False, av_authenticated = True, av_principal_type = Type identity, av_permissions = ds\<rparr>"]) simp
  next
    case False
    let ?av = "\<lparr>av_anonymous = True, av_authenticated = False, av_principal_type = [], av_permissions = map (\<lambda>(key, perm). (key, False)) (iter ?perms)\<rparr>"
    have e: "ContextEval L (program pol) ctx ?av = Inr (Some True)" "w' = w"
      using pol(2) c False by (auto simp: Evaluate_def Let_def split: if_split_asm sum.splits prod.splits)
    have "fst \<circ> (\<lambda>(key, perm). (key, False)) = (fst :: string \<times> Permission \<Rightarrow> string)" by (auto simp: fun_eq_iff)
    then show ?thesis using pol(1) e it c False by (intro exI[of _ pol] exI[of _ ?av]) auto
  qed
qed

section \<open>Instances\<close>

text \<open>A program that asks for one permission, and the definition it is compiled from.\<close>

definition demo_cel :: "(string, string) cel_lib" where
  "demo_cel =
     \<lparr>NewEnv = None, cel_Compile = Inr, OutputBool = (\<lambda>_. True), cel_Program = Inr,
      ContextEval = (\<lambda>prog ctx av. Inr (map_of (av_permissions av) ''order.read''))\<rparr>"

definition demo_definition :: Definition where
  "demo_definition =
     \<lparr>df_ID = ''d1'', df_RouteID = ''r1'', Expression = ''permissions[ '' @ quoted ''order.read'' @ ''] '',
      Permissions = [(''order.read'', \<lparr>pm_ID = ''p1'', pm_Key = ''order.read'', pm_Resource = ''order'', pm_Action = ''read'', pm_Scope = ScopeTenant\<rparr>)],
      df_Version = 1\<rparr>"

definition demo_route_policy :: "string RoutePolicy" where
  "demo_route_policy = \<lparr>definition_of = demo_definition, program = ''permissions[ '' @ quoted ''order.read'' @ '']''\<rparr>"

lemma demo_reload: "Reload demo_cel (Inr [demo_definition]) [] = (None, [(''r1'', demo_route_policy)])"
  by code_simp

theorem routepolicy_replace_atomic_witness:
  "dom (map_of [(''r1'', demo_route_policy)]) = {''r1''} \<and> sound_definition demo_cel demo_definition (program demo_route_policy)"
proof -
  have d: "\<forall>ds. (Inr [demo_definition] :: goerr + Definition list) = Inr ds \<longrightarrow> (\<forall>d \<in> set ds. distinct (map fst (Permissions d)))"
    by (auto simp: demo_definition_def)
  have r: "df_RouteID demo_definition = ''r1''" by (simp add: demo_definition_def)
  show ?thesis using routepolicy_replace_atomic[OF demo_reload d] r by auto
qed

definition demo_caller :: go_context where
  "demo_caller = WithContext Background
     \<lparr>ID = ''u1'', Type = TypeUser, TenantID = ''t1'', MembershipID = ''m1'', SessionID = ''s1''\<rparr>"

theorem routepolicy_fail_closed_witness:
  "\<exists>av. ContextEval demo_cel (program demo_route_policy) demo_caller av = Inr (Some True) \<and>
     av_authenticated av \<and> av_principal_type av = TypeUser"
proof -
  have e: "Evaluate_snapshot demo_cel id [(''r1'', demo_route_policy)] demo_caller ''r1'' (Some (Authorize (Some demo_authorizer))) 0 = (None, 1)"
    by code_simp
  have a: "snd (FromContext (Some demo_caller))" "Type (fst (FromContext (Some demo_caller))) = TypeUser" by code_simp+
  show ?thesis using routepolicy_fail_closed[OF _ e] a by auto
qed

section \<open>Route identities\<close>

lemma routeSegments_Inr:
  "routeSegments ss = Inr segs \<Longrightarrow>
     segs = map (\<lambda>s. escapeSegment (normalSegment s)) ss \<and> (\<forall>s \<in> set ss. routeSegment (normalSegment s))"
  by (induction ss arbitrary: segs) (auto simp: Let_def split: if_split_asm sum.splits)

lemma routeSegment_no_colon: "routeSegment s \<Longrightarrow> CHR '':'' \<notin> set s"
  by (auto simp: routeSegment_def list_all_iff ident_char_def lowercase_def digit_def)

lemma escapeSegment_inj: "escapeSegment s = escapeSegment t \<Longrightarrow> s = t"
  by (auto simp: escapeSegment_def split: if_splits)

lemma escapeSegment_no_colon: "CHR '':'' \<notin> set s \<Longrightarrow> CHR '':'' \<notin> set (escapeSegment s)"
  by (simp add: escapeSegment_def)

definition pathSegments :: "string \<Rightarrow> string list" where
  "pathSegments path = map normalSegment (Split (CHR ''/'') (Trim1 (CHR ''/'') path))"

text \<open>What a route's identifier is the hash of.\<close>

definition keyOf :: "Route \<Rightarrow> string" where
  "keyOf r = routeKey (rt_ServiceName r) (Protocol r) (Method r) (map escapeSegment (pathSegments (Path r)))"

lemma NewRoute_Inr:
  assumes "NewRoute U p m path svc v = Inr r"
  shows "(\<exists>g. New_generator U RouteNamespace = Inr g \<and> rt_ID r = uuid_String U (NewSHA1 U (ns g) (keyOf r))) \<and>
    routeSegment (rt_ServiceName r) \<and> (Protocol r = ''http'' \<or> Protocol r = ''grpc'') \<and>
    (\<forall>s \<in> set (pathSegments (Path r)). routeSegment s)"
proof -
  define meth routePath serviceName where d: "meth = ToLower (TrimSpace m)" "routePath = TrimSpace path" "serviceName = ToLower (TrimSpace svc)"
  define protocol where "protocol = ToLower (TrimSpace p)"
  obtain segs g i where r: "routeSegments (Split (CHR ''/'') (Trim1 (CHR ''/'') routePath)) = Inr segs"
      "New_generator U RouteNamespace = Inr g" "String_id U g (routeKey serviceName protocol meth segs) = Inr i"
      "r = \<lparr>rt_ID = i, Protocol = protocol, Method = meth, Path = routePath, rt_Operation = [],
            Description = [], rt_ServiceName = serviceName, SourceVersion = v\<rparr>"
      "protocol = ''http'' \<or> protocol = ''grpc''" "routeSegment serviceName"
    using assms unfolding NewRoute_def Let_def d[symmetric] protocol_def[symmetric]
    by (auto split: if_split_asm sum.splits)
  note s = routeSegments_Inr[OF r(1)]
  have "segs = map escapeSegment (pathSegments routePath)" using s by (simp add: pathSegments_def)
  then show ?thesis using r s String_id_Inr[OF r(3)] by (auto simp: keyOf_def pathSegments_def comp_def)
qed

text \<open>The parts of a route's identity: its method, cut at its colons, and the segments of its path.\<close>

definition identityParts :: "Route \<Rightarrow> string list" where
  "identityParts r = Split (CHR '':'') (Method r) @ map escapeSegment (pathSegments (Path r))"

lemma Split_keyOf:
  assumes "routeSegment (rt_ServiceName r)" "Protocol r = ''http'' \<or> Protocol r = ''grpc''"
    "\<forall>s \<in> set (pathSegments (Path r)). routeSegment s"
  shows "Split (CHR '':'') (keyOf r) = [''route'', rt_ServiceName r, Protocol r] @ identityParts r"
proof -
  have free: "CHR '':'' \<notin> set ''route''" "CHR '':'' \<notin> set (rt_ServiceName r)" "CHR '':'' \<notin> set (Protocol r)"
    "\<forall>x \<in> set (map escapeSegment (pathSegments (Path r))). CHR '':'' \<notin> set x"
    using assms routeSegment_no_colon escapeSegment_no_colon by auto
  have k: "keyOf r = ''route'' @ CHR '':'' # rt_ServiceName r @ CHR '':'' # Protocol r @ CHR '':'' #
      Join_sep (CHR '':'') (Method r # map escapeSegment (pathSegments (Path r)))"
    by (simp add: keyOf_def routeKey_def)
  show ?thesis
    unfolding k
    by (subst Split_append[OF free(1)], subst Split_append[OF free(2)], subst Split_append[OF free(3)])
      (simp add: Split_Join_Cons[OF free(4)] identityParts_def)
qed

lemma identityParts_colon_free:
  assumes "CHR '':'' \<notin> set (Method r)" "CHR '':'' \<notin> set (Method r')"
  shows "identityParts r = identityParts r' \<longleftrightarrow>
    Method r = Method r' \<and> pathSegments (Path r) = pathSegments (Path r')"
  using assms inj_map_eq_map[of escapeSegment] escapeSegment_inj
  by (auto simp: identityParts_def Split_free inj_on_def)

text \<open>C31. A route's identifier is a hash of its key and of nothing else, and the key stands for the service, the
  protocol and one list of parts: the method cut at its colons, followed by the escaped path segments. For
  any two accepted routes the keys are equal exactly when these are, and then the identifiers are equal,
  whatever the versions of the sources. Where neither method has a colon, equal keys mean equal service,
  protocol, method and normalised path segments; a method with a colon can share its key with another
  method and path.\<close>

theorem route_identity:
  fixes U :: "'u uuid_lib"
  assumes "NewRoute U p m path svc v = Inr r" "NewRoute U p' m' path' svc' v' = Inr r'"
  shows "(keyOf r = keyOf r' \<longleftrightarrow>
      rt_ServiceName r = rt_ServiceName r' \<and> Protocol r = Protocol r' \<and> identityParts r = identityParts r') \<and>
    (CHR '':'' \<notin> set (Method r) \<and> CHR '':'' \<notin> set (Method r') \<longrightarrow>
      (keyOf r = keyOf r' \<longleftrightarrow>
        rt_ServiceName r = rt_ServiceName r' \<and> Protocol r = Protocol r' \<and> Method r = Method r' \<and>
        pathSegments (Path r) = pathSegments (Path r'))) \<and>
    (keyOf r = keyOf r' \<longrightarrow> rt_ID r = rt_ID r') \<and>
    (\<exists>g :: 'u Generator. rt_ID r = uuid_String U (NewSHA1 U (ns g) (keyOf r)) \<and> rt_ID r' = uuid_String U (NewSHA1 U (ns g) (keyOf r')))"
proof -
  note a = NewRoute_Inr[OF assms(1)] NewRoute_Inr[OF assms(2)]
  have sp: "Split (CHR '':'') (keyOf r) = [''route'', rt_ServiceName r, Protocol r] @ identityParts r"
    "Split (CHR '':'') (keyOf r') = [''route'', rt_ServiceName r', Protocol r'] @ identityParts r'"
    using a by (intro Split_keyOf; blast)+
  have k: "keyOf r = keyOf r' \<longleftrightarrow>
      rt_ServiceName r = rt_ServiceName r' \<and> Protocol r = Protocol r' \<and> identityParts r = identityParts r'"
    unfolding Split_eq_iff[of "CHR '':''" "keyOf r" "keyOf r'", symmetric] sp by simp
  obtain g g' where G: "New_generator U RouteNamespace = Inr g" "New_generator U RouteNamespace = Inr g'"
    "rt_ID r = uuid_String U (NewSHA1 U (ns g) (keyOf r))" "rt_ID r' = uuid_String U (NewSHA1 U (ns g') (keyOf r'))"
    using conjunct1[OF a(1)] conjunct1[OF a(2)] by (elim exE conjE)
  have g: "rt_ID r = uuid_String U (NewSHA1 U (ns g) (keyOf r))" "rt_ID r' = uuid_String U (NewSHA1 U (ns g) (keyOf r'))"
    using G by simp_all
  then have "keyOf r = keyOf r' \<longrightarrow> rt_ID r = rt_ID r'" by simp
  moreover have "\<exists>g :: 'u Generator. rt_ID r = uuid_String U (NewSHA1 U (ns g) (keyOf r)) \<and> rt_ID r' = uuid_String U (NewSHA1 U (ns g) (keyOf r'))"
    using g by (intro exI[of _ g] conjI)
  moreover have "CHR '':'' \<notin> set (Method r) \<and> CHR '':'' \<notin> set (Method r') \<longrightarrow>
      (keyOf r = keyOf r' \<longleftrightarrow>
        rt_ServiceName r = rt_ServiceName r' \<and> Protocol r = Protocol r' \<and> Method r = Method r' \<and>
        pathSegments (Path r) = pathSegments (Path r'))"
    using k identityParts_colon_free[of r r'] by blast
  ultimately show ?thesis using k by (intro conjI)
qed

text \<open>
  A path parameter and a literal segment of the same name are the same segment: \<open>/orders/:id\<close> and
  \<open>/orders/id\<close> are given one identifier, and so one policy.
\<close>

lemma route_parameter_collides:
  "map_sum id rt_ID (NewRoute U p m ''/orders/:id'' svc v) = map_sum id rt_ID (NewRoute U p m ''/orders/id'' svc v)"
proof -
  have "routeSegments (Split (CHR ''/'') (Trim1 (CHR ''/'') (TrimSpace ''/orders/:id''))) =
      routeSegments (Split (CHR ''/'') (Trim1 (CHR ''/'') (TrimSpace ''/orders/id'')))"
    by code_simp
  moreover have "TrimSpace ''/orders/:id'' \<noteq> []" "TrimSpace ''/orders/id'' \<noteq> []" by code_simp+
  ultimately show ?thesis by (simp add: NewRoute_def Let_def split: sum.splits)
qed

definition demo_uuid :: "string uuid_lib" where
  "demo_uuid = \<lparr>uuid_Parse = Inr, uuid_Nil = [], NewSHA1 = (\<lambda>n k. n @ k), uuid_String = id\<rparr>"

text \<open>A colon in the method: two different routes are accepted with one identifier.\<close>

lemma route_method_colon_collides:
  "\<exists>r r'. NewRoute demo_uuid ''http'' ''get:a'' ''/b'' ''shop'' ''1'' = Inr r \<and>
     NewRoute demo_uuid ''http'' ''get'' ''/a/b'' ''shop'' ''1'' = Inr r' \<and>
     rt_ID r = rt_ID r' \<and> Method r \<noteq> Method r' \<and> Path r \<noteq> Path r'"
proof -
  let ?r = "projr (NewRoute demo_uuid ''http'' ''get:a'' ''/b'' ''shop'' ''1'')"
  let ?r' = "projr (NewRoute demo_uuid ''http'' ''get'' ''/a/b'' ''shop'' ''1'')"
  have "NewRoute demo_uuid ''http'' ''get:a'' ''/b'' ''shop'' ''1'' = Inr ?r"
    "NewRoute demo_uuid ''http'' ''get'' ''/a/b'' ''shop'' ''1'' = Inr ?r'" by code_simp+
  moreover have "rt_ID ?r = rt_ID ?r'" "Method ?r \<noteq> Method ?r'" "Path ?r \<noteq> Path ?r'" by code_simp+
  ultimately show ?thesis by blast
qed

theorem route_identity_witness:
  "\<exists>r r'. NewRoute demo_uuid ''HTTP'' ''Post'' ''/v1/Orders/:id/'' ''shop'' ''1'' = Inr r \<and>
     NewRoute demo_uuid ''http'' ''post'' ''/v1/items/:id'' ''shop'' ''2'' = Inr r' \<and> keyOf r \<noteq> keyOf r'"
proof -
  let ?r = "projr (NewRoute demo_uuid ''HTTP'' ''Post'' ''/v1/Orders/:id/'' ''shop'' ''1'')"
  let ?r' = "projr (NewRoute demo_uuid ''http'' ''post'' ''/v1/items/:id'' ''shop'' ''2'')"
  have r: "NewRoute demo_uuid ''HTTP'' ''Post'' ''/v1/Orders/:id/'' ''shop'' ''1'' = Inr ?r"
    "NewRoute demo_uuid ''http'' ''post'' ''/v1/items/:id'' ''shop'' ''2'' = Inr ?r'" by code_simp+
  have "identityParts ?r \<noteq> identityParts ?r'" by code_simp
  then show ?thesis using route_identity[OF r] r by blast
qed

end
