(* ===== verification/Redact.thy ===== *)
theory Redact
  imports Go_Text
begin

text \<open>
  Redaction of structured payloads (\<open>src/redact/json.go\<close>). A decoded document is a value of
  \<open>json\<close>; an object is the list of its entries, each key once. Decoding the first value of a
  text and encoding a value are parameters, as is the table of the letters and digits outside ASCII.
\<close>

datatype json =
    JNull
  | JBool bool
  | JNumber string
  | JString string
  | JArray "json list"
  | JObject "(string \<times> json) list"

record json_codec =
  Decode :: "string \<Rightarrow> goerr + json"
  Encode :: "json \<Rightarrow> goerr + string"

section \<open>Sensitive keys\<close>

definition defaultSensitiveKeys :: "string list" where
  "defaultSensitiveKeys =
     [''authorization'', ''client_secret'', ''password'', ''refresh_token'', ''secret'', ''token'', ''access_token'',
      ''api_key'', ''psk'']"

definition letter_or_digit :: "(int \<Rightarrow> bool) \<Rightarrow> int \<Rightarrow> bool" where
  "letter_or_digit uni r \<longleftrightarrow>
     (if r < 0x80 then 97 \<le> r \<and> r \<le> 122 \<or> 65 \<le> r \<and> r \<le> 90 \<or> 48 \<le> r \<and> r \<le> 57 else uni r)"

text \<open>\<open>strings.FieldsFunc\<close> at the runes that are neither; \<open>cur\<close> is the field being read.\<close>

function fields :: "(int \<Rightarrow> bool) \<Rightarrow> string \<Rightarrow> string \<Rightarrow> string list" where
  "fields uni cur s =
     (if s = [] then (if cur = [] then [] else [cur])
      else
        (let n = snd (decode_rune s)
         in if letter_or_digit uni (fst (decode_rune s)) then fields uni (cur @ take n s) (drop n s)
            else (if cur = [] then [] else [cur]) @ fields uni [] (drop n s)))"
  by pat_completeness auto
termination
  by (relation "measure (\<lambda>(u, c, s). length s)") (auto simp: decode_rune_width)

declare fields.simps [simp del]

definition sensitive_words :: "string list" where
  "sensitive_words =
     [''password'', ''passwd'', ''secret'', ''token'', ''authorization'', ''cookie'', ''credential'', ''credentials'', ''psk'']"

fun key_pair :: "string list \<Rightarrow> bool" where
  "key_pair (p # q # ps) = ((q = ''key'' \<and> p \<in> {''api'', ''access'', ''private''}) \<or> key_pair (q # ps))"
| "key_pair _ = False"

definition SensitiveKey :: "(int \<Rightarrow> bool) \<Rightarrow> string \<Rightarrow> bool" where
  "SensitiveKey uni key =
     (let normalized = ToLower (TrimSpace key); parts = fields uni [] normalized
      in normalized \<in> set defaultSensitiveKeys \<or> list_ex (\<lambda>p. p \<in> set sensitive_words) parts \<or> key_pair parts)"

section \<open>Redaction\<close>

definition redacted :: json where "redacted = JString ''[REDACTED]''"

text \<open>The code overwrites entries in place; the value that results is the same.\<close>

fun redactValue :: "(int \<Rightarrow> bool) \<Rightarrow> json \<Rightarrow> json" where
  "redactValue uni (JObject es) =
     JObject (map (\<lambda>(key, child). (key, if SensitiveKey uni key then redacted else redactValue uni child)) es)"
| "redactValue uni (JArray xs) = JArray (map (redactValue uni) xs)"
| "redactValue uni v = v"

fun containsSensitiveValue :: "(int \<Rightarrow> bool) \<Rightarrow> json \<Rightarrow> bool" where
  "containsSensitiveValue uni (JObject es) =
     list_ex (\<lambda>(key, child). SensitiveKey uni key \<or> containsSensitiveValue uni child) es"
| "containsSensitiveValue uni (JArray xs) = list_ex (containsSensitiveValue uni) xs"
| "containsSensitiveValue uni v = False"

text \<open>An empty text has a nil result.\<close>

definition JSON :: "json_codec \<Rightarrow> (int \<Rightarrow> bool) \<Rightarrow> string \<Rightarrow> goerr + string" where
  "JSON J uni data =
     (if TrimSpace data = [] then Inr []
      else (case Decode J data of Inl e \<Rightarrow> Inl e | Inr v \<Rightarrow> Encode J (redactValue uni v)))"

definition ContainsSensitiveJSON :: "json_codec \<Rightarrow> (int \<Rightarrow> bool) \<Rightarrow> string \<Rightarrow> goerr + bool" where
  "ContainsSensitiveJSON J uni data =
     (if TrimSpace data = [] then Inr False
      else (case Decode J data of Inl e \<Rightarrow> Inl e | Inr v \<Rightarrow> Inr (containsSensitiveValue uni v)))"

section \<open>What redaction hides\<close>

text \<open>
  Two documents agree in public when they differ only in the values under sensitive keys.
\<close>

inductive agree :: "(int \<Rightarrow> bool) \<Rightarrow> json \<Rightarrow> json \<Rightarrow> bool" for uni where
  same: "agree uni v v"
| arrays: "list_all2 (agree uni) xs ys \<Longrightarrow> agree uni (JArray xs) (JArray ys)"
| objects: "list_all2 (\<lambda>a b. fst a = fst b \<and> (SensitiveKey uni (fst a) \<or> agree uni (snd a) (snd b))) es fs \<Longrightarrow>
    agree uni (JObject es) (JObject fs)"

inductive_cases agree_ArrayE: "agree uni (JArray xs) v"
inductive_cases agree_ObjectE: "agree uni (JObject es) v"

lemma agree_redacts: "agree uni v v' \<Longrightarrow> redactValue uni v = redactValue uni v'"
proof (induction rule: agree.induct)
  case (arrays xs ys)
  then have "list_all2 (\<lambda>x y. redactValue uni x = redactValue uni y) xs ys" by (rule list_all2_mono) simp
  then show ?case by (induction rule: list_all2_induct) auto
next
  case (objects es fs)
  then have "list_all2 (\<lambda>a b. fst a = fst b \<and> (SensitiveKey uni (fst a) \<or> redactValue uni (snd a) = redactValue uni (snd b))) es fs"
    by (rule list_all2_mono) auto
  then show ?case by (induction rule: list_all2_induct) (auto split: prod.splits)
qed simp

lemma json_induct [case_names leaf array object]:
  assumes "\<And>v. (\<forall>xs. v \<noteq> JArray xs) \<Longrightarrow> (\<forall>es. v \<noteq> JObject es) \<Longrightarrow> P v"
    and "\<And>xs. (\<And>x. x \<in> set xs \<Longrightarrow> P x) \<Longrightarrow> P (JArray xs)"
    and "\<And>es. (\<And>k x. (k, x) \<in> set es \<Longrightarrow> P x) \<Longrightarrow> P (JObject es)"
  shows "P v"
  using assms by (induction v) (auto simp: Basic_BNFs.snds.simps)

lemma map_eq_list_all2: "map f xs = map f ys \<longleftrightarrow> list_all2 (\<lambda>x y. f x = f y) xs ys"
  by (auto simp: list_all2_conv_all_nth list_eq_iff_nth_eq)

lemma redacts_agree: "redactValue uni v = redactValue uni v' \<Longrightarrow> agree uni v v'"
proof (induction v arbitrary: v' rule: json_induct)
  case (leaf v)
  then have "v = v'" by (cases v; cases v') auto
  then show ?case by (simp add: same)
next
  case (array xs)
  then obtain ys where v: "v' = JArray ys" "map (redactValue uni) xs = map (redactValue uni) ys" by (cases v') auto
  have "list_all2 (agree uni) xs ys"
    using v(2) unfolding map_eq_list_all2 by (rule list.rel_mono_strong) (simp add: array.IH)
  then show ?case using v(1) by (simp add: arrays)
next
  case (object es)
  let ?f = "\<lambda>(key, child). (key, if SensitiveKey uni key then redacted else redactValue uni child)"
  obtain fs where v: "v' = JObject fs" and m: "map ?f es = map ?f fs" using object.prems by (cases v') auto
  have "list_all2 (\<lambda>a b. fst a = fst b \<and> (SensitiveKey uni (fst a) \<or> agree uni (snd a) (snd b))) es fs"
    using m unfolding map_eq_list_all2
    by (rule list.rel_mono_strong) (auto split: prod.splits if_splits intro: object.IH)
  then show ?case using v by (simp add: objects)
qed

text \<open>After redaction every sensitive key holds the marker.\<close>

fun clean :: "(int \<Rightarrow> bool) \<Rightarrow> json \<Rightarrow> bool" where
  "clean uni (JObject es) = list_all (\<lambda>(key, child). if SensitiveKey uni key then child = redacted else clean uni child) es"
| "clean uni (JArray xs) = list_all (clean uni) xs"
| "clean uni v = True"

lemma redact_clean: "clean uni (redactValue uni v)"
proof (induction v rule: json_induct)
  case (leaf v)
  then show ?case by (cases v) auto
qed (auto simp: list_all_iff)

lemma clean_fixed: "clean uni v \<Longrightarrow> redactValue uni v = v"
proof (induction v rule: json_induct)
  case (leaf v)
  then show ?case by (cases v) auto
next
  case (array xs)
  then show ?case by (auto simp: list_all_iff intro!: map_idI)
next
  case (object es)
  have "(key, if SensitiveKey uni key then redacted else redactValue uni child) = (key, child)" if "(key, child) \<in> set es" for key child
    using object.IH[OF that] object.prems that by (auto simp: list_all_iff split: if_splits)
  then show ?case by (auto intro!: map_idI)
qed

lemma insensitive_clean: "\<not> containsSensitiveValue uni v \<Longrightarrow> clean uni v"
proof (induction v rule: json_induct)
  case (leaf v)
  then show ?case by (cases v) auto
qed (auto simp: list_all_iff list_ex_iff)

text \<open>C32. Redaction hides exactly the secrets. Two documents are redacted to the same result if and only if they agree
  in everything but the values under sensitive keys; in the result every sensitive key holds the marker,
  redacting again changes nothing, and a document without sensitive keys comes through unchanged.\<close>

theorem redact_exact:
  "(redactValue uni v = redactValue uni v' \<longleftrightarrow> agree uni v v') \<and> clean uni (redactValue uni v) \<and>
   redactValue uni (redactValue uni v) = redactValue uni v \<and>
   (\<not> containsSensitiveValue uni v \<longrightarrow> redactValue uni v = v)"
  using agree_redacts redacts_agree redact_clean clean_fixed insensitive_clean by blast

definition no_unicode :: "int \<Rightarrow> bool" where "no_unicode r = False"

theorem redact_exact_witness:
  "redactValue no_unicode (JArray [JObject [(''X-Api-Key'', JNumber ''1''), (''monkey'', JNull)]]) =
   redactValue no_unicode (JArray [JObject [(''X-Api-Key'', JString ''abc''), (''monkey'', JNull)]]) \<and>
   redactValue no_unicode (JObject [(''tokenized'', JNull)]) = JObject [(''tokenized'', JNull)]"
proof -
  have k: "SensitiveKey no_unicode ''X-Api-Key''" by code_simp
  have n: "\<not> containsSensitiveValue no_unicode (JObject [(''tokenized'', JNull)])" by code_simp
  have "agree no_unicode (JArray [JObject [(''X-Api-Key'', JNumber ''1''), (''monkey'', JNull)]])
      (JArray [JObject [(''X-Api-Key'', JString ''abc''), (''monkey'', JNull)]])"
    using k by (auto intro!: arrays objects same)
  then show ?thesis using redact_exact n by blast
qed

end
