(* ===== verification/Recorders.thy ===== *)
theory Recorders
  imports Redact Principal Envelope
begin

text \<open>
  The recorders of operations (\<open>src/operationlog/recorder.go\<close>) and of security events
  (\<open>src/securitylog/recorder.go\<close>). What a call takes from outside is a record: the clock, the
  fresh event id, the trace id of the span, the encoders of \<open>encoding/json\<close>, the keyed hash, the
  full lower-case mapping, and the publisher, over a state of the world.
\<close>

section \<open>Operations\<close>

definition op_EventType :: string where "op_EventType = ''platform.operation-log.recorded.v1''"

definition op_ErrInvalidEntry :: goerr where "op_ErrInvalidEntry = Sentinel ''invalid operation log entry''"

record op_Config =
  oc_Enabled :: bool
  oc_Subject :: string
  oc_MaxPayloadBytes :: int

text \<open>A request or an extension is a value of any type; nil is \<open>None\<close>.\<close>

record 'v op_Entry =
  oe_Operation :: string
  oe_ResourceType :: string
  oe_ResourceID :: string
  oe_ApplicationID :: string
  oe_Source :: string
  oe_Protocol :: string
  oe_Method :: string
  oe_Route :: string
  oe_Request :: "'v option"
  oe_Duration :: int
  oe_Succeeded :: bool
  oe_ErrorCode :: string
  oe_ErrorMessage :: string
  oe_ClientIP :: string
  oe_UserAgent :: string
  oe_RequestID :: string
  oe_Extension :: "'v option"

record 'v op_payload =
  opEntry :: "'v op_Entry"
  RequestPayload :: string
  DurationMS :: int
  RequestIDValue :: string
  op_TraceID :: string
  op_ActorID :: string
  op_ActorType :: string
  op_TenantID :: string
  op_OccurredAt :: int
  ExtensionValue :: string

type_synonym 'w Publisher = "go_context \<Rightarrow> string \<Rightarrow> EventEnvelope \<Rightarrow> 'w \<Rightarrow> goerr option \<times> 'w"

record 'v rec_env =
  re_now :: int
  re_uuid :: string
  re_trace :: string
  re_codec :: json_codec
  re_letters :: "int \<Rightarrow> bool"
  re_marshal :: "'v \<Rightarrow> goerr + string"

record 'w op_Service =
  os_config :: op_Config
  os_publisher :: "'w Publisher option"

definition New_oplog :: "op_Config \<Rightarrow> 'w Publisher option \<Rightarrow> goerr + 'w op_Service" where
  "New_oplog config0 publisher =
     (let config = config0\<lparr>oc_Subject := TrimSpace (oc_Subject config0)\<rparr>
      in if \<not> oc_Enabled config then Inr \<lparr>os_config = config, os_publisher = publisher\<rparr>
         else if publisher = None \<or> oc_Subject config = [] \<or> oc_MaxPayloadBytes config < 256 \<or> oc_MaxPayloadBytes config > 2 ^ 20
         then Inl (Ext ''invalid operation log entry: enabled recorder requires publisher, subject, and payload limit between 256 bytes and 1 MiB'' [op_ErrInvalidEntry])
         else Inr \<lparr>os_config = config, os_publisher = publisher\<rparr>)"

definition Enabled_oplog :: "'w op_Service option \<Rightarrow> bool" where
  "Enabled_oplog s = (case s of None \<Rightarrow> False | Some sv \<Rightarrow> oc_Enabled (os_config sv))"

definition payloadTooLarge :: "string \<Rightarrow> int \<Rightarrow> goerr" where
  "payloadTooLarge data limit =
     Msg (''payload is '' @ Itoa (int (length data)) @ '' bytes; maximum is '' @ Itoa limit)"

definition sanitize :: "'v rec_env \<Rightarrow> 'v option \<Rightarrow> int \<Rightarrow> bool \<Rightarrow> goerr + string" where
  "sanitize E v limit objectDefault =
     (case v of
        None \<Rightarrow> Inr (if objectDefault then ''{}'' else [])
      | Some x \<Rightarrow>
          (case re_marshal E x of
             Inl e \<Rightarrow> Inl e
           | Inr data \<Rightarrow>
               (case JSON (re_codec E) (re_letters E) data of
                  Inl e \<Rightarrow> Inl e
                | Inr out \<Rightarrow> if int (length out) > limit then Inl (payloadTooLarge out limit) else Inr out)))"

definition Record_oplog ::
  "'v rec_env \<Rightarrow> ('v op_payload \<Rightarrow> goerr + string) \<Rightarrow> 'w op_Service option \<Rightarrow> go_context \<Rightarrow> 'v op_Entry \<Rightarrow> 'w \<Rightarrow> goerr option \<times> 'w" where
  "Record_oplog E marshalPayload s ctx entry0 w =
     (if \<not> Enabled_oplog s then (None, w)
      else
        (let config = os_config (the s); entry = entry0\<lparr>oe_Operation := TrimSpace (oe_Operation entry0)\<rparr>
         in if oe_Operation entry = [] \<or> oe_Duration entry < 0
            then (Some (Ext ''invalid operation log entry: operation and non-negative duration are required'' [op_ErrInvalidEntry]), w)
            else
              (let (actor, ok) = FromContext (Some ctx)
               in if \<not> ok \<or> TrimSpace (ID actor) = [] then (Some ErrMissing, w)
                  else
                    (case sanitize E (oe_Request entry) (oc_MaxPayloadBytes config) False of
                       Inl e \<Rightarrow> (Some (Ext (''invalid operation log entry: sanitize request: '' @ err_text e) [op_ErrInvalidEntry]), w)
                     | Inr requestPayload \<Rightarrow>
                         (case sanitize E (oe_Extension entry) (oc_MaxPayloadBytes config) True of
                            Inl e \<Rightarrow> (Some (Ext (''invalid operation log entry: sanitize extension: '' @ err_text e) [op_ErrInvalidEntry]), w)
                          | Inr extension \<Rightarrow>
                              (case marshalPayload
                                  \<lparr>opEntry = entry\<lparr>oe_Request := None, oe_RequestID := [], oe_Extension := None\<rparr>,
                                   RequestPayload = requestPayload, DurationMS = Milliseconds (oe_Duration entry),
                                   RequestIDValue = oe_RequestID entry, op_TraceID = re_trace E, op_ActorID = ID actor,
                                   op_ActorType = Type actor, op_TenantID = TenantID actor, op_OccurredAt = re_now E,
                                   ExtensionValue = extension\<rparr> of
                                 Inl e \<Rightarrow> (Some (Wrap ''encode operation log'' e), w)
                               | Inr data \<Rightarrow>
                                   (case the (os_publisher (the s)) ctx (oc_Subject config)
                                       \<lparr>EventId = re_uuid E, EventType = op_EventType, AggregateId = oe_ResourceID entry,
                                        AggregateType = ''operation_log'', TenantId = TenantID actor,
                                        ApplicationId = oe_ApplicationID entry, SchemaVersion = 1, OccurredAt = re_now E,
                                        env_Context = Some \<lparr>rc_RequestId = oe_RequestID entry, rc_TraceId = re_trace E,
                                          rc_ActorId = ID actor, rc_ActorType = Type actor, rc_TenantId = TenantID actor,
                                          rc_MembershipId = MembershipID actor\<rparr>,
                                        env_Payload = data\<rparr> w of
                                      (Some e, w1) \<Rightarrow> (Some (Wrap ''publish operation log'' e), w1)
                                    | (None, w1) \<Rightarrow> (None, w1))))))))"

text \<open>Two values whose documents agree in public.\<close>

definition alike :: "'v rec_env \<Rightarrow> 'v option \<Rightarrow> 'v option \<Rightarrow> bool" where
  "alike E x y \<longleftrightarrow>
     x = y \<or>
     (\<exists>a b d d' j j'. x = Some a \<and> y = Some b \<and> re_marshal E a = Inr d \<and> re_marshal E b = Inr d' \<and>
        TrimSpace d \<noteq> [] \<and> TrimSpace d' \<noteq> [] \<and> Decode (re_codec E) d = Inr j \<and> Decode (re_codec E) d' = Inr j' \<and>
        agree (re_letters E) j j')"

lemma sanitize_alike: "alike E x y \<Longrightarrow> sanitize E x limit od = sanitize E y limit od"
  by (auto simp: alike_def sanitize_def JSON_def agree_redacts)

text \<open>C33. The operation log learns no secrets. Recording two entries that differ only in their request and extension
  documents, and there only in values under sensitive keys, has the same outcome: the same error or the same
  event on the bus, whatever the publisher does with it.\<close>

theorem oplog_no_secrets:
  assumes "alike E r r'" "alike E x x'"
  shows "Record_oplog E mp s ctx (entry\<lparr>oe_Request := r, oe_Extension := x\<rparr>) w =
    Record_oplog E mp s ctx (entry\<lparr>oe_Request := r', oe_Extension := x'\<rparr>) w"
proof -
  have "sanitize E r l False = sanitize E r' l False" "sanitize E x l True = sanitize E x' l True" for l
    using assms sanitize_alike by blast+
  then show ?thesis by (simp add: Record_oplog_def Let_def split: prod.split sum.split)
qed

section \<open>Security events\<close>

definition EnvelopeType :: string where "EnvelopeType = ''platform.security-log.recorded.v1''"

definition sec_ErrInvalidConfig :: goerr where "sec_ErrInvalidConfig = Sentinel ''invalid security log configuration''"
definition sec_ErrInvalidEntry :: goerr where "sec_ErrInvalidEntry = Sentinel ''invalid security log entry''"

text \<open>\<open>^[a-z][a-z0-9_.-]{0,127}$\<close>\<close>

definition eventTypePattern :: "string \<Rightarrow> bool" where "eventTypePattern s = ident ''_.-'' 0 127 s"

text \<open>The event types that have names, all of them accepted.\<close>

definition namedEventTypes :: "string list" where
  "namedEventTypes = [''login'', ''token_refresh'', ''logout'', ''forced_logout'', ''password_changed'', ''password_reset'',
     ''session_revoked'', ''logout_all'', ''tenant_authorization_changed'', ''application_menu_published'',
     ''tenant_application_grant_changed'']"

lemma namedEventTypes_accepted: "list_all eventTypePattern namedEventTypes \<and> distinct namedEventTypes"
  by code_simp

record sec_Config =
  sc_Enabled :: bool
  sc_Subject :: string
  sc_MaxPayloadBytes :: int
  HashKey :: string
  sc_FailClosed :: bool

record 'v sec_Entry =
  se_EventType :: string
  se_SubjectID :: string
  se_SubjectType :: string
  se_TenantID :: string
  se_ApplicationID :: string
  Identifier :: string
  TokenID :: string
  se_SessionID :: string
  se_Succeeded :: bool
  se_Reason :: string
  se_ErrorCode :: string
  se_ErrorMessage :: string
  se_ClientIP :: string
  se_UserAgent :: string
  se_RequestID :: string
  se_Metadata :: "'v option"

record sec_payload =
  sp_EventType :: string
  sp_ActorID :: string
  sp_ActorType :: string
  sp_SubjectID :: string
  sp_SubjectType :: string
  sp_TenantID :: string
  sp_ApplicationID :: string
  sp_Succeeded :: bool
  sp_Reason :: string
  sp_ErrorCode :: string
  sp_ErrorMessage :: string
  IdentifierHash :: string
  TokenIDHash :: string
  sp_SessionID :: string
  sp_RequestID :: string
  sp_TraceID :: string
  sp_ClientIP :: string
  sp_UserAgent :: string
  sp_Metadata :: string
  sp_OccurredAt :: int

record 'w sec_Service =
  ss_config :: sec_Config
  ss_publisher :: "'w Publisher option"

definition New_seclog :: "sec_Config \<Rightarrow> 'w Publisher option \<Rightarrow> goerr + 'w sec_Service" where
  "New_seclog config0 publisher =
     (let config = config0\<lparr>sc_Subject := TrimSpace (sc_Subject config0)\<rparr>
      in if \<not> sc_Enabled config then Inr \<lparr>ss_config = config, ss_publisher = publisher\<rparr>
         else if publisher = None \<or> sc_Subject config = [] \<or> sc_MaxPayloadBytes config < 256 \<or>
                 sc_MaxPayloadBytes config > 2 ^ 20 \<or> length (HashKey config) < 32
         then Inl (Ext ''invalid security log configuration: enabled recorder requires publisher, subject, a payload limit between 256 bytes and 1 MiB, and a hash key of at least 32 bytes'' [sec_ErrInvalidConfig])
         else Inr \<lparr>ss_config = config, ss_publisher = publisher\<rparr>)"

definition Enabled_seclog :: "'w sec_Service option \<Rightarrow> bool" where
  "Enabled_seclog s = (case s of None \<Rightarrow> False | Some sv \<Rightarrow> sc_Enabled (ss_config sv))"

definition FailClosed :: "'w sec_Service option \<Rightarrow> bool" where
  "FailClosed s = (case s of None \<Rightarrow> False | Some sv \<Rightarrow> sc_FailClosed (ss_config sv))"

text \<open>\<open>mac\<close> is HMAC-SHA-256 in hexadecimal, key first.\<close>

definition hash :: "(string \<Rightarrow> string \<Rightarrow> string) \<Rightarrow> sec_Config \<Rightarrow> string \<Rightarrow> string" where
  "hash mac config v = (if v = [] then [] else mac (HashKey config) v)"

definition safeMetadata :: "'v rec_env \<Rightarrow> 'v option \<Rightarrow> int \<Rightarrow> goerr + string" where
  "safeMetadata E v limit =
     (case v of
        None \<Rightarrow> Inr ''{}''
      | Some x \<Rightarrow>
          (case re_marshal E x of
             Inl e \<Rightarrow> Inl e
           | Inr data \<Rightarrow>
               if int (length data) > limit then Inl (payloadTooLarge data limit)
               else
                 (case ContainsSensitiveJSON (re_codec E) (re_letters E) data of
                    Inl e \<Rightarrow> Inl e
                  | Inr sensitive \<Rightarrow> if sensitive then Inl (Msg ''contains a credential field'') else Inr data)))"

text \<open>The encodings of the runes of a text, as \<open>[]rune\<close> and back; and the cut to a number of runes.\<close>

function runes :: "string \<Rightarrow> string list" where
  "runes s =
     (if s = [] then []
      else if utf8_width s = 0 then [CHR 0xEF, CHR 0xBF, CHR 0xBD] # runes (drop 1 s)
      else take (utf8_width s) s # runes (drop (utf8_width s) s))"
  by pat_completeness auto
termination
  by (relation "measure length") auto

declare runes.simps [simp del]

definition truncate_runes :: "string \<Rightarrow> nat \<Rightarrow> string" where
  "truncate_runes v limit = (if length (runes v) \<le> limit then v else concat (take limit (runes v)))"

definition sec_value ::
  "(string \<Rightarrow> string \<Rightarrow> string) \<Rightarrow> (string \<Rightarrow> string) \<Rightarrow> 'v rec_env \<Rightarrow> sec_Config \<Rightarrow> Principal \<Rightarrow> 'v sec_Entry \<Rightarrow> string \<Rightarrow> sec_payload" where
  "sec_value mac toLower E config actor entry metadata =
     \<lparr>sp_EventType = se_EventType entry, sp_ActorID = ID actor, sp_ActorType = Type actor,
      sp_SubjectID = TrimSpace (se_SubjectID entry), sp_SubjectType = truncate_runes (se_SubjectType entry) 128,
      sp_TenantID = TrimSpace (se_TenantID entry), sp_ApplicationID = TrimSpace (se_ApplicationID entry),
      sp_Succeeded = se_Succeeded entry, sp_Reason = truncate_runes (se_Reason entry) 1024,
      sp_ErrorCode = truncate_runes (se_ErrorCode entry) 128, sp_ErrorMessage = truncate_runes (se_ErrorMessage entry) 2048,
      IdentifierHash = hash mac config (toLower (TrimSpace (Identifier entry))),
      TokenIDHash = hash mac config (TokenID entry), sp_SessionID = truncate_runes (se_SessionID entry) 256,
      sp_RequestID = truncate_runes (se_RequestID entry) 256, sp_TraceID = re_trace E,
      sp_ClientIP = truncate_runes (se_ClientIP entry) 256, sp_UserAgent = truncate_runes (se_UserAgent entry) 1024,
      sp_Metadata = metadata, sp_OccurredAt = re_now E\<rparr>"

definition Record_seclog ::
  "(string \<Rightarrow> string \<Rightarrow> string) \<Rightarrow> (string \<Rightarrow> string) \<Rightarrow> 'v rec_env \<Rightarrow> (sec_payload \<Rightarrow> goerr + string) \<Rightarrow> 'w sec_Service option \<Rightarrow>
   go_context \<Rightarrow> 'v sec_Entry \<Rightarrow> 'w \<Rightarrow> goerr option \<times> 'w" where
  "Record_seclog mac toLower E marshalPayload s ctx entry0 w =
     (if \<not> Enabled_seclog s then (None, w)
      else
        (let config = ss_config (the s); actor = fst (FromContext (Some ctx)); eventType = TrimSpace (se_EventType entry0);
             entry = entry0\<lparr>se_EventType := eventType,
               se_TenantID := (if TrimSpace (se_TenantID entry0) = [] then TenantID actor else se_TenantID entry0)\<rparr>
         in if \<not> eventTypePattern eventType
            then (Some (Ext ''invalid security log entry: event type must match ^[a-z][a-z0-9_.-]{0,127}$'' [sec_ErrInvalidEntry]), w)
            else
              (case safeMetadata E (se_Metadata entry) (sc_MaxPayloadBytes config) of
                 Inl e \<Rightarrow> (Some (Ext (''invalid security log entry: metadata: '' @ err_text e) [sec_ErrInvalidEntry]), w)
               | Inr metadata \<Rightarrow>
                   (let payload = sec_value mac toLower E config actor entry metadata
                    in case marshalPayload payload of
                         Inl e \<Rightarrow> (Some (Wrap ''encode security log'' e), w)
                       | Inr data \<Rightarrow>
                           (case the (ss_publisher (the s)) ctx (sc_Subject config)
                               \<lparr>EventId = re_uuid E, EventType = EnvelopeType, AggregateId = sp_SubjectID payload,
                                AggregateType = ''security_log'', TenantId = sp_TenantID payload,
                                ApplicationId = sp_ApplicationID payload, SchemaVersion = 1, OccurredAt = re_now E,
                                env_Context = Some \<lparr>rc_RequestId = sp_RequestID payload, rc_TraceId = sp_TraceID payload,
                                  rc_ActorId = ID actor, rc_ActorType = Type actor, rc_TenantId = sp_TenantID payload,
                                  rc_MembershipId = MembershipID actor\<rparr>,
                                env_Payload = data\<rparr> w of
                              (Some e, w1) \<Rightarrow> (Some (Wrap ''publish security log'' e), w1)
                            | (None, w1) \<Rightarrow> (None, w1))))))"

lemma runes_valid: "x \<in> set (runes s) \<Longrightarrow> valid_utf8 x \<and> x \<noteq> []"
proof (induction s rule: runes.induct)
  case (1 s)
  have r: "valid_utf8 [CHR 0xEF, CHR 0xBF, CHR 0xBD]" by code_simp
  consider "s = []" | "s \<noteq> []" "utf8_width s = 0" | "s \<noteq> []" "0 < utf8_width s" by blast
  then show ?case
  proof cases
    case 1
    then show ?thesis using "1.prems" by (simp add: runes.simps[of "[]"])
  next
    case 2
    then have "x = [CHR 0xEF, CHR 0xBF, CHR 0xBD] \<or> x \<in> set (runes (drop 1 s))"
      using "1.prems" by (simp add: runes.simps[of s])
    then show ?thesis using 2 r "1.IH"(1) by auto
  next
    case 3
    then have "x = take (utf8_width s) s \<or> x \<in> set (runes (drop (utf8_width s) s))"
      using "1.prems" by (simp add: runes.simps[of s])
    then show ?thesis using 3 valid_utf8_rune[of s] "1.IH"(2) by auto
  qed
qed

lemma truncate_runes_bound:
  "length (runes v) > limit \<Longrightarrow> valid_utf8 (truncate_runes v limit)"
proof -
  have "valid_utf8 (concat xs)" if "\<forall>x \<in> set xs. valid_utf8 x" for xs
    using that by (induction xs) (auto intro: valid_utf8_append)
  then show "length (runes v) > limit \<Longrightarrow> valid_utf8 (truncate_runes v limit)"
    using runes_valid set_take_subset[of limit "runes v"] by (auto simp: truncate_runes_def)
qed

lemma safeMetadata_sensitive:
  assumes "re_marshal E x = Inr d" "TrimSpace d \<noteq> []" "Decode (re_codec E) d = Inr j" "containsSensitiveValue (re_letters E) j"
  shows "\<exists>e. safeMetadata E (Some x) limit = Inl e"
  using assms by (auto simp: safeMetadata_def ContainsSensitiveJSON_def)

text \<open>C34. The security log carries no credentials. An entry whose metadata has a sensitive key anywhere is refused
  and nothing is published; the identifier and the token of an entry reach the bus only through their keyed
  hashes: replacing them by others with the same hashes changes neither the result nor the event.\<close>

theorem seclog_no_credentials:
  assumes "Enabled_seclog s"
  shows "(\<forall>x d j. se_Metadata entry = Some x \<and> re_marshal E x = Inr d \<and> TrimSpace d \<noteq> [] \<and>
        Decode (re_codec E) d = Inr j \<and> containsSensitiveValue (re_letters E) j \<longrightarrow>
      (\<exists>e. Record_seclog mac toLower E mp s ctx entry w = (Some e, w) \<and> errors_Is e sec_ErrInvalidEntry)) \<and>
    (hash mac (ss_config (the s)) (toLower (TrimSpace i)) = hash mac (ss_config (the s)) (toLower (TrimSpace i')) \<and>
     hash mac (ss_config (the s)) t = hash mac (ss_config (the s)) t' \<longrightarrow>
      Record_seclog mac toLower E mp s ctx (entry\<lparr>Identifier := i, TokenID := t\<rparr>) w =
      Record_seclog mac toLower E mp s ctx (entry\<lparr>Identifier := i', TokenID := t'\<rparr>) w)"
proof (intro conjI allI impI; (elim conjE)?)
  fix x d j
  assume m: "se_Metadata entry = Some x"
    and s: "re_marshal E x = Inr d" "TrimSpace d \<noteq> []" "Decode (re_codec E) d = Inr j" "containsSensitiveValue (re_letters E) j"
  obtain e where "safeMetadata E (Some x) (sc_MaxPayloadBytes (ss_config (the s))) = Inl e"
    using safeMetadata_sensitive[OF s] by blast
  then show "\<exists>e. Record_seclog mac toLower E mp s ctx entry w = (Some e, w) \<and> errors_Is e sec_ErrInvalidEntry"
    using assms m by (auto simp: Record_seclog_def Let_def)
next
  assume h: "hash mac (ss_config (the s)) (toLower (TrimSpace i)) = hash mac (ss_config (the s)) (toLower (TrimSpace i'))"
    "hash mac (ss_config (the s)) t = hash mac (ss_config (the s)) t'"
  then have v: "sec_value mac toLower E (ss_config (the s)) actor (entry\<lparr>Identifier := i, TokenID := t, se_EventType := a, se_TenantID := b\<rparr>) m =
      sec_value mac toLower E (ss_config (the s)) actor (entry\<lparr>Identifier := i', TokenID := t', se_EventType := a, se_TenantID := b\<rparr>) m"
    and v2: "sec_value mac toLower E (ss_config (the s)) actor (entry\<lparr>Identifier := i, TokenID := t, se_EventType := a\<rparr>) m =
      sec_value mac toLower E (ss_config (the s)) actor (entry\<lparr>Identifier := i', TokenID := t', se_EventType := a\<rparr>) m"
    for actor a b m by (simp_all add: sec_value_def)
  show "Record_seclog mac toLower E mp s ctx (entry\<lparr>Identifier := i, TokenID := t\<rparr>) w =
      Record_seclog mac toLower E mp s ctx (entry\<lparr>Identifier := i', TokenID := t'\<rparr>) w"
    by (simp add: Record_seclog_def Let_def v v2 split: sum.split)
qed

section \<open>Instances\<close>

definition demo_codec :: json_codec where
  "demo_codec =
     \<lparr>Decode = (\<lambda>d. if d = ''a'' then Inr (JObject [(''password'', JString ''x'')]) else Inr (JObject [(''password'', JNull)])),
      Encode = (\<lambda>j. Inr (if j = JObject [(''password'', redacted)] then ''clean'' else ''leak''))\<rparr>"

definition demo_rec_env :: "string rec_env" where
  "demo_rec_env = \<lparr>re_now = 0, re_uuid = ''e1'', re_trace = [], re_codec = demo_codec, re_letters = no_unicode, re_marshal = Inr\<rparr>"

definition demo_oplog :: "EventEnvelope list op_Service" where
  "demo_oplog = \<lparr>os_config = \<lparr>oc_Enabled = True, oc_Subject = ''ops'', oc_MaxPayloadBytes = 256\<rparr>,
     os_publisher = Some (\<lambda>ctx subject e w. (None, e # w))\<rparr>"

definition demo_op_entry :: "string op_Entry" where
  "demo_op_entry = \<lparr>oe_Operation = ''login'', oe_ResourceType = [], oe_ResourceID = [], oe_ApplicationID = [], oe_Source = [],
     oe_Protocol = [], oe_Method = [], oe_Route = [], oe_Request = None, oe_Duration = 0, oe_Succeeded = True, oe_ErrorCode = [],
     oe_ErrorMessage = [], oe_ClientIP = [], oe_UserAgent = [], oe_RequestID = [], oe_Extension = None\<rparr>"

definition demo_actor :: go_context where
  "demo_actor = WithContext Background
     \<lparr>ID = ''u1'', Type = TypeUser, TenantID = ''t1'', MembershipID = ''m1'', SessionID = ''s1''\<rparr>"

text \<open>Two requests that differ in the password only: both are recorded, as the same event.\<close>

theorem oplog_no_secrets_witness:
  "\<exists>e. env_Payload e = ''clean'' \<and> Record_oplog demo_rec_env (\<lambda>p. Inr (RequestPayload p)) (Some demo_oplog) demo_actor (demo_op_entry\<lparr>oe_Request := Some ''a'', oe_Extension := None\<rparr>) [] = (None, [e]) \<and>
     Record_oplog demo_rec_env (\<lambda>p. Inr (RequestPayload p)) (Some demo_oplog) demo_actor (demo_op_entry\<lparr>oe_Request := Some ''b'', oe_Extension := None\<rparr>) [] = (None, [e])"
proof -
  let ?rec = "\<lambda>d. Record_oplog demo_rec_env (\<lambda>p. Inr (RequestPayload p)) (Some demo_oplog) demo_actor (demo_op_entry\<lparr>oe_Request := Some d, oe_Extension := None\<rparr>) []"
  have k: "SensitiveKey no_unicode ''password''" by code_simp
  have t: "TrimSpace ''a'' \<noteq> []" "TrimSpace ''b'' \<noteq> []" by code_simp+
  have "agree no_unicode (JObject [(''password'', JString ''x'')]) (JObject [(''password'', JNull)])"
    using k by (auto intro!: objects)
  then have "alike demo_rec_env (Some ''a'') (Some ''b'')"
    using t by (auto simp: alike_def demo_rec_env_def demo_codec_def)
  then have same: "?rec ''a'' = ?rec ''b''" by (rule oplog_no_secrets) (simp add: alike_def)
  have "fst (?rec ''a'') = None" "map env_Payload (snd (?rec ''a'')) = [''clean'']" by code_simp+
  then have "\<exists>e. env_Payload e = ''clean'' \<and> ?rec ''a'' = (None, [e])" by (cases "?rec ''a''") auto
  then show ?thesis using same by metis
qed

definition demo_seclog :: "EventEnvelope list sec_Service" where
  "demo_seclog = \<lparr>ss_config = \<lparr>sc_Enabled = True, sc_Subject = ''sec'', sc_MaxPayloadBytes = 256, HashKey = replicate 32 (CHR ''k''), sc_FailClosed = True\<rparr>,
     ss_publisher = Some (\<lambda>ctx subject e w. (None, e # w))\<rparr>"

definition demo_sec_entry :: "string sec_Entry" where
  "demo_sec_entry = \<lparr>se_EventType = ''login'', se_SubjectID = [], se_SubjectType = [], se_TenantID = [], se_ApplicationID = [],
     Identifier = ''u'', TokenID = [], se_SessionID = [], se_Succeeded = True, se_Reason = [], se_ErrorCode = [], se_ErrorMessage = [],
     se_ClientIP = [], se_UserAgent = [], se_RequestID = [], se_Metadata = Some ''a''\<rparr>"

theorem seclog_no_credentials_witness:
  "\<exists>e. Record_seclog (\<lambda>k v. v) id demo_rec_env (\<lambda>p. Inr []) (Some demo_seclog) Background demo_sec_entry [] = (Some e, [])"
proof -
  have en: "Enabled_seclog (Some demo_seclog)" by (simp add: Enabled_seclog_def demo_seclog_def)
  have k: "containsSensitiveValue no_unicode (JObject [(''password'', JString ''x'')])" by code_simp
  have t: "TrimSpace ''a'' \<noteq> []" by code_simp
  have m: "se_Metadata demo_sec_entry = Some ''a''" "re_marshal demo_rec_env ''a'' = Inr ''a''"
    "Decode (re_codec demo_rec_env) ''a'' = Inr (JObject [(''password'', JString ''x'')])" "re_letters demo_rec_env = no_unicode"
    by (simp_all add: demo_sec_entry_def demo_rec_env_def demo_codec_def)
  show ?thesis
    using conjunct1[OF seclog_no_credentials[OF en, where entry = demo_sec_entry and E = demo_rec_env and w = "[]"
          and mac = "\<lambda>k v. v" and toLower = id and mp = "\<lambda>p. Inr []" and ctx = Background]] k t m by metis
qed

end
