(* ===== verification/Providers.thy ===== *)
theory Providers
  imports Go_Text
begin

text \<open>
  The metadata of export and import providers (\<open>src/exportprovider/metadata.go\<close>,
  \<open>src/importprovider/metadata.go\<close>). Both packages run the same loop over their datasets, with
  their own record and their own first check; the loop is defined once, over these two steps. Encoding
  and decoding the dataset list are parameters.
\<close>

section \<open>The shared steps\<close>

text \<open>\<open>^[a-z][a-z0-9._-]{1,127}$\<close>\<close>

definition datasetCode :: "string \<Rightarrow> bool" where "datasetCode s = ident ''._-'' 1 127 s"

definition supportedFormats :: "string list" where "supportedFormats = [''csv'', ''jsonl'', ''xlsx'']"

fun collectFormats :: "string \<Rightarrow> string list \<Rightarrow> string list \<Rightarrow> goerr + string list" where
  "collectFormats code out [] = Inr out"
| "collectFormats code out (f # fs) =
     (let fmt = ToLower (TrimSpace f)
      in if fmt \<notin> set supportedFormats
         then Inl (Msg (''dataset '' @ quoted code @ '' has unsupported format '' @ quoted fmt))
         else collectFormats code (if fmt \<in> set out then out else out @ [fmt]) fs)"

definition normalFormats :: "string \<Rightarrow> string list \<Rightarrow> goerr + string list" where
  "normalFormats code fs =
     (case collectFormats code [] fs of
        Inl e \<Rightarrow> Inl e
      | Inr out \<Rightarrow> if out = [] then Inl (Msg (''dataset '' @ quoted code @ '' requires at least one format'')) else Inr (sort out))"

text \<open>\<open>pre\<close> trims and checks a dataset, \<open>fin\<close> normalises its formats; the duplicate check is between them.\<close>

fun normalizeLoop ::
  "('d \<Rightarrow> goerr + 'd) \<Rightarrow> ('d \<Rightarrow> goerr + 'd) \<Rightarrow> ('d \<Rightarrow> string) \<Rightarrow> string \<Rightarrow> string list \<Rightarrow> 'd list \<Rightarrow> goerr + 'd list" where
  "normalizeLoop pre fin code kind seen [] = Inr []"
| "normalizeLoop pre fin code kind seen (d # ds) =
     (case pre d of
        Inl e \<Rightarrow> Inl e
      | Inr d1 \<Rightarrow>
          if code d1 \<in> set seen then Inl (Msg (''duplicate '' @ kind @ '' dataset '' @ quoted (code d1)))
          else
            (case fin d1 of
               Inl e \<Rightarrow> Inl e
             | Inr d2 \<Rightarrow>
                 (case normalizeLoop pre fin code kind (code d1 # seen) ds of
                    Inl e \<Rightarrow> Inl e
                  | Inr out \<Rightarrow> Inr (d2 # out))))"

definition normalizeAll ::
  "('d \<Rightarrow> goerr + 'd) \<Rightarrow> ('d \<Rightarrow> goerr + 'd) \<Rightarrow> ('d \<Rightarrow> string) \<Rightarrow> string \<Rightarrow> 'd list \<Rightarrow> goerr + 'd list" where
  "normalizeAll pre fin code kind ds =
     (if ds = [] then Inl (Msg (''at least one '' @ kind @ '' dataset is required''))
      else (case normalizeLoop pre fin code kind [] ds of Inl e \<Rightarrow> Inl e | Inr out \<Rightarrow> Inr (sort_key code out)))"

type_synonym metadata_map = "string \<rightharpoonup> string"

definition lookup_or_empty :: "metadata_map \<Rightarrow> string \<Rightarrow> string" where
  "lookup_or_empty m k = (case m k of None \<Rightarrow> [] | Some v \<Rightarrow> v)"

section \<open>Export providers\<close>

definition exp_ProviderMetadataKey :: string where "exp_ProviderMetadataKey = ''platform.export.provider''"
definition exp_DatasetsMetadataKey :: string where "exp_DatasetsMetadataKey = ''platform.export.datasets''"

record Dataset =
  Code :: string
  Title :: string
  Formats :: "string list"
  SupportsSnapshot :: bool

definition exp_pre :: "Dataset \<Rightarrow> goerr + Dataset" where
  "exp_pre d =
     (let c = ToLower (TrimSpace (Code d)); t = TrimSpace (Title d)
      in if \<not> datasetCode c \<or> t = [] then Inl (Msg (''dataset '' @ quoted c @ '' requires a valid code and title''))
         else Inr (d\<lparr>Code := c, Title := t\<rparr>))"

definition exp_fin :: "Dataset \<Rightarrow> goerr + Dataset" where
  "exp_fin d = (case normalFormats (Code d) (Formats d) of Inl e \<Rightarrow> Inl e | Inr fs \<Rightarrow> Inr (d\<lparr>Formats := fs\<rparr>))"

definition Normalize_export :: "Dataset list \<Rightarrow> goerr + Dataset list" where
  "Normalize_export ds = normalizeAll exp_pre exp_fin Code ''export'' ds"

definition Metadata_export :: "(Dataset list \<Rightarrow> goerr + string) \<Rightarrow> Dataset list \<Rightarrow> goerr + metadata_map" where
  "Metadata_export marshal ds =
     (case Normalize_export ds of
        Inl e \<Rightarrow> Inl e
      | Inr ns \<Rightarrow>
          (case marshal ns of
             Inl e \<Rightarrow> Inl (Wrap ''encode export datasets'' e)
           | Inr payload \<Rightarrow> Inr [exp_ProviderMetadataKey \<mapsto> ''true'', exp_DatasetsMetadataKey \<mapsto> payload]))"

definition ParseMetadata_export :: "(string \<Rightarrow> goerr + Dataset list) \<Rightarrow> metadata_map \<Rightarrow> goerr + Dataset list" where
  "ParseMetadata_export unmarshal m =
     (if lookup_or_empty m exp_ProviderMetadataKey \<noteq> ''true'' then Inl (Msg ''instance is not an export provider'')
      else
        (case unmarshal (lookup_or_empty m exp_DatasetsMetadataKey) of
           Inl e \<Rightarrow> Inl (Wrap ''decode export datasets'' e)
         | Inr ds \<Rightarrow> Normalize_export ds))"

section \<open>Import providers\<close>

definition imp_ProviderMetadataKey :: string where "imp_ProviderMetadataKey = ''platform.import.provider''"
definition imp_DatasetsMetadataKey :: string where "imp_DatasetsMetadataKey = ''platform.import.datasets''"

record ImportDataset =
  im_Code :: string
  im_Title :: string
  im_Formats :: "string list"
  MaxBatchSize :: int
  SupportsDryRun :: bool

definition imp_pre :: "ImportDataset \<Rightarrow> goerr + ImportDataset" where
  "imp_pre d =
     (let c = ToLower (TrimSpace (im_Code d)); t = TrimSpace (im_Title d)
      in if \<not> datasetCode c \<or> t = [] \<or> MaxBatchSize d < 1 \<or> MaxBatchSize d > 10000
         then Inl (Msg (''dataset '' @ quoted c @ '' requires a valid code, title, and max batch size''))
         else Inr (d\<lparr>im_Code := c, im_Title := t\<rparr>))"

definition imp_fin :: "ImportDataset \<Rightarrow> goerr + ImportDataset" where
  "imp_fin d = (case normalFormats (im_Code d) (im_Formats d) of Inl e \<Rightarrow> Inl e | Inr fs \<Rightarrow> Inr (d\<lparr>im_Formats := fs\<rparr>))"

definition Normalize_import :: "ImportDataset list \<Rightarrow> goerr + ImportDataset list" where
  "Normalize_import ds = normalizeAll imp_pre imp_fin im_Code ''import'' ds"

definition Metadata_import :: "(ImportDataset list \<Rightarrow> goerr + string) \<Rightarrow> ImportDataset list \<Rightarrow> goerr + metadata_map" where
  "Metadata_import marshal ds =
     (case Normalize_import ds of
        Inl e \<Rightarrow> Inl e
      | Inr ns \<Rightarrow>
          (case marshal ns of
             Inl e \<Rightarrow> Inl (Wrap ''encode import datasets'' e)
           | Inr payload \<Rightarrow> Inr [imp_ProviderMetadataKey \<mapsto> ''true'', imp_DatasetsMetadataKey \<mapsto> payload]))"

definition ParseMetadata_import :: "(string \<Rightarrow> goerr + ImportDataset list) \<Rightarrow> metadata_map \<Rightarrow> goerr + ImportDataset list" where
  "ParseMetadata_import unmarshal m =
     (if lookup_or_empty m imp_ProviderMetadataKey \<noteq> ''true'' then Inl (Msg ''instance is not an import provider'')
      else
        (case unmarshal (lookup_or_empty m imp_DatasetsMetadataKey) of
           Inl e \<Rightarrow> Inl (Wrap ''decode import datasets'' e)
         | Inr ds \<Rightarrow> Normalize_import ds))"

section \<open>Normal forms\<close>

text \<open>
  The contract of the two steps: the code is settled by the first, and a dataset that came through both
  is unchanged by them.
\<close>

locale dataset_rules =
  fixes pre :: "'d \<Rightarrow> goerr + 'd" and fin :: "'d \<Rightarrow> goerr + 'd" and code :: "'d \<Rightarrow> string"
  assumes fin_code: "fin d = Inr d' \<Longrightarrow> code d' = code d"
    and stable: "pre d = Inr d1 \<Longrightarrow> fin d1 = Inr d2 \<Longrightarrow> pre d2 = Inr d2 \<and> fin d2 = Inr d2"
begin

definition normal :: "'d \<Rightarrow> 'd \<Rightarrow> bool" where
  "normal d d2 \<longleftrightarrow> (\<exists>d1. pre d = Inr d1 \<and> fin d1 = Inr d2)"

lemma normal_fun: "normal d a \<Longrightarrow> normal d b \<Longrightarrow> a = b"
  by (auto simp: normal_def)

lemma normal_stable: "normal d a \<Longrightarrow> normal a a"
  using stable by (auto simp: normal_def)

lemma loop_Inr:
  "normalizeLoop pre fin code kind seen ds = Inr out \<longleftrightarrow>
     list_all2 normal ds out \<and> distinct (map code out) \<and> set (map code out) \<inter> set seen = {}"
proof (induction ds arbitrary: seen out)
  case (Cons d ds)
  show ?case
  proof
    assume "normalizeLoop pre fin code kind seen (d # ds) = Inr out"
    then obtain d1 d2 out1 where o: "pre d = Inr d1" "code d1 \<notin> set seen" "fin d1 = Inr d2"
        "normalizeLoop pre fin code kind (code d1 # seen) ds = Inr out1" "out = d2 # out1"
      by (auto split: sum.splits if_splits)
    then show "list_all2 normal (d # ds) out \<and> distinct (map code out) \<and> set (map code out) \<inter> set seen = {}"
      using fin_code[OF o(3)] Cons.IH[of "code d1 # seen" out1] normal_def[of d d2] by auto
  next
    assume r: "list_all2 normal (d # ds) out \<and> distinct (map code out) \<and> set (map code out) \<inter> set seen = {}"
    then obtain d1 d2 out1 where o: "out = d2 # out1" "pre d = Inr d1" "fin d1 = Inr d2" "list_all2 normal ds out1"
      by (auto simp: list_all2_Cons1 normal_def)
    have "normalizeLoop pre fin code kind (code d1 # seen) ds = Inr out1"
      using r o fin_code[OF o(3)] unfolding Cons.IH by auto
    then show "normalizeLoop pre fin code kind seen (d # ds) = Inr out"
      using o r fin_code[OF o(3)] by auto
  qed
qed auto

lemma normalizeAll_Inr:
  "normalizeAll pre fin code kind ds = Inr ns \<longleftrightarrow>
     ds \<noteq> [] \<and> (\<exists>out. list_all2 normal ds out \<and> distinct (map code out) \<and> ns = sort_key code out)"
proof -
  have l: "normalizeLoop pre fin code kind [] ds = Inr out \<longleftrightarrow> list_all2 normal ds out \<and> distinct (map code out)" for out
    by (simp add: loop_Inr)
  show ?thesis
  proof (cases "normalizeLoop pre fin code kind [] ds")
    case (Inl e)
    then have "\<nexists>out. list_all2 normal ds out \<and> distinct (map code out)" using l by (metis sum.distinct(1))
    then show ?thesis using Inl by (simp add: normalizeAll_def) blast
  next
    case (Inr r)
    have u: "list_all2 normal ds x \<and> distinct (map code x) \<longleftrightarrow> x = r" for x using l[of x] Inr by auto
    show ?thesis unfolding conj_assoc[symmetric] u using Inr by (auto simp: normalizeAll_def)
  qed
qed

lemma normalizeAll_sorted:
  "normalizeAll pre fin code kind ds = Inr ns \<Longrightarrow> sorted (map code ns) \<and> distinct (map code ns) \<and> (\<forall>n \<in> set ns. normal n n)"
proof -
  assume "normalizeAll pre fin code kind ds = Inr ns"
  then obtain out where o: "list_all2 normal ds out" "distinct (map code out)" "ns = sort_key code out"
    unfolding normalizeAll_Inr by blast
  have "mset (map code ns) = mset (map code out)" using o(3) by simp
  then have "distinct (map code ns)" using o(2) by (metis mset_eq_imp_distinct_iff)
  moreover have "\<forall>n \<in> set out. normal n n"
    using o(1) by (induction rule: list_all2_induct) (auto dest: normal_stable)
  ultimately show ?thesis using o(3) by simp
qed

lemma normalizeAll_from:
  assumes "normalizeAll pre fin code kind ds = Inr ns"
  shows "\<forall>n \<in> set ns. \<exists>d \<in> set ds. normal d n"
proof -
  obtain out where o: "list_all2 normal ds out" "ns = sort_key code out" using assms unfolding normalizeAll_Inr by blast
  have "\<forall>n \<in> set out. \<exists>d \<in> set ds. normal d n" using o(1) by (induction rule: list_all2_induct) auto
  then show ?thesis using o(2) by simp
qed

lemma normalizeAll_idem: "normalizeAll pre fin code kind ds = Inr ns \<Longrightarrow> normalizeAll pre fin code kind ns = Inr ns"
proof -
  assume a: "normalizeAll pre fin code kind ds = Inr ns"
  note s = normalizeAll_sorted[OF a]
  obtain out where "ds \<noteq> []" "list_all2 normal ds out" "ns = sort_key code out" using a unfolding normalizeAll_Inr by blast
  then have "length ns \<noteq> 0" by (auto dest: list_all2_lengthD)
  then have "ns \<noteq> []" by simp
  moreover have "list_all2 normal ns ns" using s by (simp add: list_all2_same)
  moreover have "sort_key code ns = ns" using s by (simp add: sort_key_id_if_sorted)
  ultimately show ?thesis using s unfolding normalizeAll_Inr by metis
qed

lemma normal_perm:
  assumes "list_all2 normal ds out" "mset ds' = mset ds"
  shows "\<exists>out'. list_all2 normal ds' out' \<and> mset out' = mset out"
  using list_all2_reorder_left_invariance[OF assms(1), of ds'] assms(2) by metis

lemma normalizeAll_perm:
  assumes "normalizeAll pre fin code kind ds = Inr ns" "mset ds' = mset ds"
  shows "normalizeAll pre fin code kind ds' = Inr ns"
proof -
  obtain out where o: "ds \<noteq> []" "list_all2 normal ds out" "distinct (map code out)" "ns = sort_key code out"
    using assms(1) unfolding normalizeAll_Inr by blast
  obtain out' where p: "list_all2 normal ds' out'" "mset out' = mset out" using normal_perm[OF o(2) assms(2)] by blast
  have "mset (map code out') = mset (map code out)" using p(2) by simp
  then have d: "distinct (map code out')" using o(3) mset_eq_imp_distinct_iff by blast
  have "sort_key code out' = sort_key code out"
    using p(2) d by (intro sort_key_inj_key_eq) (auto simp: distinct_map)
  moreover have "ds' \<noteq> []" using o(1) assms(2) by auto
  ultimately show ?thesis using p(1) d o(4) unfolding normalizeAll_Inr by metis
qed

end

section \<open>Both packages satisfy the contract\<close>

definition space_byte :: "char \<Rightarrow> bool" where
  "space_byte c \<longleftrightarrow> 0x80 \<le> byte c \<or> c \<in> {CHR 0x20, CHR 0x09, CHR 0x0A, CHR 0x0B, CHR 0x0C, CHR 0x0D}"

lemma space_runes_ends: "\<forall>p \<in> set space_runes. p \<noteq> [] \<and> space_byte (hd p) \<and> space_byte (last p)"
  by code_simp

lemma trimmed_no_space:
  assumes "\<forall>c \<in> set s. \<not> space_byte c"
  shows "TrimSpace s = s"
proof (rule TrimSpace_id)
  have "\<not> prefix p t" if "p \<noteq> []" "space_byte (hd p)" "set t = set s" for p t
    using that assms by (cases p; cases t) auto
  moreover have "\<forall>p \<in> set (map rev space_runes). p \<noteq> [] \<and> space_byte (hd p)"
    using space_runes_ends by (auto simp: hd_rev)
  ultimately show "\<not> starts_with_any space_runes s" "\<not> starts_with_any (map rev space_runes) (rev s)"
    using space_runes_ends unfolding starts_with_any_def list_ex_iff by (metis, metis set_rev)
qed

lemma ident_no_space: "ident_char ''._-'' c \<Longrightarrow> \<not> space_byte c"
  by (auto simp: ident_char_def lowercase_def digit_def space_byte_def)

lemma datasetCode_fixed: "datasetCode c \<Longrightarrow> ToLower (TrimSpace c) = c"
proof -
  assume "datasetCode c"
  then have c: "list_all (ident_char ''._-'') c" using ident_chars by (simp add: datasetCode_def)
  have "TrimSpace c = c" using c ident_no_space by (intro trimmed_no_space) (auto simp: list_all_iff)
  moreover have "ToLower c = c" unfolding ToLower_def using c by (rule lower_runes_ident) (auto simp: ascii_lower_def)
  ultimately show ?thesis by simp
qed

lemma format_fixed: "f \<in> set supportedFormats \<Longrightarrow> ToLower (TrimSpace f) = f"
proof -
  have "\<forall>f \<in> set supportedFormats. ToLower (TrimSpace f) = f" by code_simp
  then show "f \<in> set supportedFormats \<Longrightarrow> ToLower (TrimSpace f) = f" by blast
qed

lemma collectFormats_Inr:
  "collectFormats code out fs = Inr r \<Longrightarrow> distinct out \<Longrightarrow> set out \<subseteq> set supportedFormats \<Longrightarrow>
     distinct r \<and> set r \<subseteq> set supportedFormats"
  by (induction code out fs arbitrary: r rule: collectFormats.induct) (auto simp: Let_def split: if_splits)

lemma collectFormats_fixed:
  "distinct (out @ fs) \<Longrightarrow> set fs \<subseteq> set supportedFormats \<Longrightarrow> collectFormats code out fs = Inr (out @ fs)"
  by (induction fs arbitrary: out) (auto simp: Let_def format_fixed)

lemma normalFormats_stable: "normalFormats code fs = Inr r \<Longrightarrow> normalFormats code r = Inr r"
proof -
  assume "normalFormats code fs = Inr r"
  then obtain out where o: "collectFormats code [] fs = Inr out" "out \<noteq> []" "r = sort out"
    by (auto simp: normalFormats_def split: sum.splits if_splits)
  have "distinct out \<and> set out \<subseteq> set supportedFormats" using collectFormats_Inr[OF o(1)] by simp
  then have "collectFormats code [] r = Inr r" using o(3) by (subst collectFormats_fixed) auto
  moreover have "length r \<noteq> 0" using o by simp
  moreover have "sort r = r" using o(3) by (simp add: sorted_sort_id)
  ultimately show ?thesis by (auto simp: normalFormats_def)
qed

interpretation export_rules: dataset_rules exp_pre exp_fin Code
proof unfold_locales
  show "exp_fin d = Inr d' \<Longrightarrow> Code d' = Code d" for d d'
    by (auto simp: exp_fin_def split: sum.splits)
  show "exp_pre d2 = Inr d2 \<and> exp_fin d2 = Inr d2" if "exp_pre d = Inr d1" "exp_fin d1 = Inr d2" for d d1 d2
    using that normalFormats_stable
    by (auto simp: exp_pre_def exp_fin_def datasetCode_fixed Let_def split: sum.splits if_splits)
qed

interpretation import_rules: dataset_rules imp_pre imp_fin im_Code
proof unfold_locales
  show "imp_fin d = Inr d' \<Longrightarrow> im_Code d' = im_Code d" for d d'
    by (auto simp: imp_fin_def split: sum.splits)
  show "imp_pre d2 = Inr d2 \<and> imp_fin d2 = Inr d2" if "imp_pre d = Inr d1" "imp_fin d1 = Inr d2" for d d1 d2
    using that normalFormats_stable
    by (auto simp: imp_pre_def imp_fin_def datasetCode_fixed Let_def split: sum.splits if_splits)
qed

text \<open>
  JSON strings are Unicode: \<open>encoding/json\<close> replaces what is not valid UTF-8. A list of datasets is
  decoded to what was encoded when all its texts are valid. Codes and formats of a normalised dataset
  always are, and its title is when the given title was.
\<close>

definition exp_texts_valid :: "Dataset \<Rightarrow> bool" where
  "exp_texts_valid d \<longleftrightarrow> valid_utf8 (Code d) \<and> valid_utf8 (Title d) \<and> list_all valid_utf8 (Formats d)"

definition imp_texts_valid :: "ImportDataset \<Rightarrow> bool" where
  "imp_texts_valid d \<longleftrightarrow> valid_utf8 (im_Code d) \<and> valid_utf8 (im_Title d) \<and> list_all valid_utf8 (im_Formats d)"

lemma datasetCode_valid: "datasetCode c \<Longrightarrow> valid_utf8 c"
proof -
  assume "datasetCode c"
  then have "list_all (ident_char ''._-'') c" using ident_chars by (simp add: datasetCode_def)
  then have "\<forall>x \<in> set c. \<not> space_byte x" using ident_no_space unfolding list_all_iff by blast
  then show ?thesis by (intro valid_utf8_all_ascii ballI) (meson space_byte_def not_le)
qed

lemma normalFormats_valid:
  assumes "normalFormats code fs = Inr r"
  shows "list_all valid_utf8 r"
proof -
  have a: "list_all valid_utf8 supportedFormats" by code_simp
  obtain out where o: "collectFormats code [] fs = Inr out" "r = sort out"
    using assms by (auto simp: normalFormats_def split: sum.splits if_splits)
  have "set out \<subseteq> set supportedFormats" using collectFormats_Inr[OF o(1)] by simp
  then show ?thesis using a o(2) by (auto simp: list_all_iff)
qed

lemma exp_normal_valid:
  assumes "export_rules.normal d n" "valid_utf8 (Title d)"
  shows "exp_texts_valid n"
proof -
  obtain d1 where p: "exp_pre d = Inr d1" and f: "exp_fin d1 = Inr n" using assms(1) unfolding export_rules.normal_def by blast
  obtain fs where fs: "normalFormats (Code d1) (Formats d1) = Inr fs" "n = d1\<lparr>Formats := fs\<rparr>"
    using f by (auto simp: exp_fin_def split: sum.splits)
  have "datasetCode (Code d1)" "Title d1 = TrimSpace (Title d)"
    using p by (auto simp: exp_pre_def Let_def split: if_splits)
  then show ?thesis
    using fs assms(2) normalFormats_valid[OF fs(1)] by (simp add: exp_texts_valid_def datasetCode_valid TrimSpace_valid)
qed

lemma imp_normal_valid:
  assumes "import_rules.normal d n" "valid_utf8 (im_Title d)"
  shows "imp_texts_valid n"
proof -
  obtain d1 where p: "imp_pre d = Inr d1" and f: "imp_fin d1 = Inr n" using assms(1) unfolding import_rules.normal_def by blast
  obtain fs where fs: "normalFormats (im_Code d1) (im_Formats d1) = Inr fs" "n = d1\<lparr>im_Formats := fs\<rparr>"
    using f by (auto simp: imp_fin_def split: sum.splits)
  have "datasetCode (im_Code d1)" "im_Title d1 = TrimSpace (im_Title d)"
    using p by (auto simp: imp_pre_def Let_def split: if_splits)
  then show ?thesis
    using fs assms(2) normalFormats_valid[OF fs(1)] by (simp add: imp_texts_valid_def datasetCode_valid TrimSpace_valid)
qed

text \<open>C35. Export metadata is read back as it was published. When the titles given are valid UTF-8, whatever an
  instance advertises is parsed to the normalised datasets it was made from, provided the codec decodes what it
  encoded for datasets whose texts are valid UTF-8; and the normal form is canonical: sorted by code
  without duplicates, unchanged by normalising again and the same for every order in which the datasets are
  given.\<close>

theorem export_metadata_roundtrip:
  assumes "Metadata_export marshal ds = Inr m" "\<forall>d \<in> set ds. valid_utf8 (Title d)"
    and "\<forall>ns p. marshal ns = Inr p \<and> (\<forall>n \<in> set ns. exp_texts_valid n) \<longrightarrow> unmarshal p = Inr ns"
  shows "\<exists>ns. Normalize_export ds = Inr ns \<and> ParseMetadata_export unmarshal m = Inr ns \<and>
    sorted (map Code ns) \<and> distinct (map Code ns) \<and> (\<forall>ds'. mset ds' = mset ds \<longrightarrow> Normalize_export ds' = Inr ns)"
proof -
  obtain ns p where n: "Normalize_export ds = Inr ns" "marshal ns = Inr p"
      "m = [exp_ProviderMetadataKey \<mapsto> ''true'', exp_DatasetsMetadataKey \<mapsto> p]"
    using assms(1) by (auto simp: Metadata_export_def split: sum.splits)
  have "\<forall>x \<in> set ns. exp_texts_valid x"
    using export_rules.normalizeAll_from[OF n(1)[unfolded Normalize_export_def]] exp_normal_valid assms(2) by blast
  then have "unmarshal p = Inr ns" using assms(3) n(2) by blast
  moreover have "Normalize_export ns = Inr ns"
    using export_rules.normalizeAll_idem n(1) unfolding Normalize_export_def by blast
  ultimately have "ParseMetadata_export unmarshal m = Inr ns"
    using n(3)
    by (auto simp: ParseMetadata_export_def lookup_or_empty_def exp_ProviderMetadataKey_def exp_DatasetsMetadataKey_def)
  then show ?thesis
    using n(1) export_rules.normalizeAll_sorted export_rules.normalizeAll_perm unfolding Normalize_export_def by blast
qed

definition demo_dataset :: Dataset where
  "demo_dataset = \<lparr>Code = '' Orders.v1'', Title = ''Orders '', Formats = [''XLSX'', ''csv'', ''csv''], SupportsSnapshot = True\<rparr>"

definition demo_normal :: Dataset where
  "demo_normal = \<lparr>Code = ''orders.v1'', Title = ''Orders'', Formats = [''csv'', ''xlsx''], SupportsSnapshot = True\<rparr>"

lemma demo_normalize: "Normalize_export [demo_dataset] = Inr [demo_normal]"
  by code_simp

theorem export_metadata_roundtrip_witness:
  "ParseMetadata_export (\<lambda>p. if p = ''P'' then Inr [demo_normal] else Inl (Msg ''bad''))
     [exp_ProviderMetadataKey \<mapsto> ''true'', exp_DatasetsMetadataKey \<mapsto> ''P''] = Inr [demo_normal]"
proof -
  let ?marshal = "\<lambda>ns. if ns = [demo_normal] then Inr ''P'' else Inl (Msg ''other'')"
  have m: "Metadata_export ?marshal [demo_dataset] = Inr [exp_ProviderMetadataKey \<mapsto> ''true'', exp_DatasetsMetadataKey \<mapsto> ''P'']"
    by (simp add: Metadata_export_def demo_normalize)
  have v: "\<forall>d \<in> set [demo_dataset]. valid_utf8 (Title d)" by code_simp
  show ?thesis
    using export_metadata_roundtrip[OF m v, of "\<lambda>p. if p = ''P'' then Inr [demo_normal] else Inl (Msg ''bad'')"] demo_normalize
    by auto
qed

text \<open>The same holds of import providers.\<close>

lemma import_metadata_roundtrip:
  assumes "Metadata_import marshal ds = Inr m" "\<forall>d \<in> set ds. valid_utf8 (im_Title d)"
    and "\<forall>ns p. marshal ns = Inr p \<and> (\<forall>n \<in> set ns. imp_texts_valid n) \<longrightarrow> unmarshal p = Inr ns"
  shows "\<exists>ns. Normalize_import ds = Inr ns \<and> ParseMetadata_import unmarshal m = Inr ns \<and>
    sorted (map im_Code ns) \<and> distinct (map im_Code ns) \<and> (\<forall>ds'. mset ds' = mset ds \<longrightarrow> Normalize_import ds' = Inr ns)"
proof -
  obtain ns p where n: "Normalize_import ds = Inr ns" "marshal ns = Inr p"
      "m = [imp_ProviderMetadataKey \<mapsto> ''true'', imp_DatasetsMetadataKey \<mapsto> p]"
    using assms(1) by (auto simp: Metadata_import_def split: sum.splits)
  have "\<forall>x \<in> set ns. imp_texts_valid x"
    using import_rules.normalizeAll_from[OF n(1)[unfolded Normalize_import_def]] imp_normal_valid assms(2) by blast
  then have "unmarshal p = Inr ns" using assms(3) n(2) by blast
  moreover have "Normalize_import ns = Inr ns"
    using import_rules.normalizeAll_idem n(1) unfolding Normalize_import_def by blast
  ultimately have "ParseMetadata_import unmarshal m = Inr ns"
    using n(3)
    by (auto simp: ParseMetadata_import_def lookup_or_empty_def imp_ProviderMetadataKey_def imp_DatasetsMetadataKey_def)
  then show ?thesis
    using n(1) import_rules.normalizeAll_sorted import_rules.normalizeAll_perm unfolding Normalize_import_def by blast
qed

end
