(* ===== verification/App_Access.thy ===== *)
theory App_Access
  imports Principal
begin

text \<open>
  Verification of a tenant's access to an application (\<open>src/appaccess/verifier.go\<close>). The
  application service is a parameter: what its batch check answers.
\<close>

definition maxBatchSize :: nat where "maxBatchSize = 100"

definition ErrInvalidArgument :: goerr where "ErrInvalidArgument = Sentinel ''invalid application access request''"
definition ErrNotGranted :: goerr where "ErrNotGranted = Sentinel ''tenant application access is not granted''"
definition app_ErrUnavailable :: goerr where "app_ErrUnavailable = Sentinel ''application access decision is unavailable''"

record app_decision =
  ad_ApplicationId :: string
  ad_Granted :: bool
  ad_Reason :: string

text \<open>The call, its timeout, tenant and applications; a nil response has no decisions.\<close>

type_synonym 'w BatchCheckClient = "go_context \<Rightarrow> int \<Rightarrow> string \<Rightarrow> string list \<Rightarrow> 'w \<Rightarrow> (goerr + app_decision list) \<times> 'w"

record AccessDecision =
  Granted :: bool
  Reason_access :: string

record 'w GRPCVerifier =
  gv_client :: "'w BatchCheckClient option"
  gv_timeout :: int

definition NewGRPCVerifier :: "'w BatchCheckClient option \<Rightarrow> int \<Rightarrow> 'w GRPCVerifier" where
  "NewGRPCVerifier client timeout = \<lparr>gv_client = client, gv_timeout = (if timeout \<le> 0 then 2 * Second else timeout)\<rparr>"

fun normalizeLoop_ids :: "string list \<Rightarrow> string list \<Rightarrow> goerr + string list" where
  "normalizeLoop_ids result [] = Inr result"
| "normalizeLoop_ids result (v # vs) =
     (let i = TrimSpace v
      in if i = [] then Inl ErrInvalidArgument
         else normalizeLoop_ids (if i \<in> set result then result else result @ [i]) vs)"

definition normalizeIDs :: "string list \<Rightarrow> goerr + string list" where
  "normalizeIDs values =
     (if values = [] \<or> length values > maxBatchSize then Inl ErrInvalidArgument else normalizeLoop_ids [] values)"

definition addDecision :: "app_decision \<Rightarrow> (string \<rightharpoonup> AccessDecision) \<Rightarrow> (string \<rightharpoonup> AccessDecision)" where
  "addDecision d m =
     (let i = TrimSpace (ad_ApplicationId d)
      in if i \<noteq> [] then m(i \<mapsto> \<lparr>Granted = ad_Granted d, Reason_access = ad_Reason d\<rparr>) else m)"

definition Check_access ::
  "'w GRPCVerifier option \<Rightarrow> go_context \<Rightarrow> string \<Rightarrow> string list \<Rightarrow> 'w \<Rightarrow> (goerr + (string \<rightharpoonup> AccessDecision)) \<times> 'w" where
  "Check_access v ctx tenantID0 applicationIDs w =
     (let tenantID = TrimSpace tenantID0
      in case normalizeIDs applicationIDs of
           Inl e \<Rightarrow> (Inl (Ext ''invalid application access request: tenant and 1-100 unique application IDs are required'' [ErrInvalidArgument]), w)
         | Inr ids \<Rightarrow>
             if tenantID = []
             then (Inl (Ext ''invalid application access request: tenant and 1-100 unique application IDs are required'' [ErrInvalidArgument]), w)
             else
               (case Option.bind v gv_client of
                  None \<Rightarrow> (Inl (Ext ''application access decision is unavailable: upstream is not configured'' [app_ErrUnavailable]), w)
                | Some call \<Rightarrow>
                    (case call ctx (gv_timeout (the v)) tenantID ids w of
                       (Inl err, w1) \<Rightarrow>
                         (Inl (Ext (''application access decision is unavailable: '' @ err_text err) [app_ErrUnavailable]), w1)
                     | (Inr response, w1) \<Rightarrow>
                         (let decisions = fold addDecision response Map.empty
                          in case find (\<lambda>i. decisions i = None) ids of
                               Some i \<Rightarrow>
                                 (Inl (Ext (''application access decision is unavailable: decision missing for application '' @ i) [app_ErrUnavailable]), w1)
                             | None \<Rightarrow> (Inr decisions, w1)))))"

definition Verify :: "'w GRPCVerifier option \<Rightarrow> go_context \<Rightarrow> string \<Rightarrow> string \<Rightarrow> 'w \<Rightarrow> goerr option \<times> 'w" where
  "Verify v ctx tenantID applicationID w =
     (case Check_access v ctx tenantID [applicationID] w of
        (Inl e, w1) \<Rightarrow> (Some e, w1)
      | (Inr decisions, w1) \<Rightarrow>
          (let decision = (case decisions (TrimSpace applicationID) of Some d \<Rightarrow> d | None \<Rightarrow> \<lparr>Granted = False, Reason_access = []\<rparr>)
           in if \<not> Granted decision
              then (Some (Ext (''tenant application access is not granted: tenant='' @ tenantID @ '' application='' @ applicationID @
                      '' reason='' @ Reason_access decision) [ErrNotGranted]), w1)
              else (None, w1)))"

section \<open>Correctness\<close>

lemma fold_decisions:
  "i \<noteq> [] \<Longrightarrow> fold addDecision ds m i =
     (case find (\<lambda>d. TrimSpace (ad_ApplicationId d) = i) (rev ds) of
        Some d \<Rightarrow> Some \<lparr>Granted = ad_Granted d, Reason_access = ad_Reason d\<rparr> | None \<Rightarrow> m i)"
proof (induction ds arbitrary: m rule: rev_induct)
  case (snoc d ds)
  then show ?case by (auto simp: addDecision_def Let_def)
qed simp

text \<open>C36. Application access fails closed. Verify lets a request through exactly when tenant and application are
  given, the application service answered for that one application, and the last decision it returned for
  it is a grant; whatever else happens is an error, and it is the not-granted error only if the service
  said no.\<close>

theorem appaccess_fail_closed:
  "(Verify v ctx tenant app w = (None, w') \<longleftrightarrow>
     TrimSpace tenant \<noteq> [] \<and> TrimSpace app \<noteq> [] \<and>
     (\<exists>gv call ds d. v = Some gv \<and> gv_client gv = Some call \<and>
        call ctx (gv_timeout gv) (TrimSpace tenant) [TrimSpace app] w = (Inr ds, w') \<and>
        find (\<lambda>d. TrimSpace (ad_ApplicationId d) = TrimSpace app) (rev ds) = Some d \<and> ad_Granted d)) \<and>
   (\<forall>e. fst (Verify v ctx tenant app w) = Some e \<and> errors_Is e ErrNotGranted \<longrightarrow>
     (\<exists>gv call ds d w1. v = Some gv \<and> gv_client gv = Some call \<and>
        call ctx (gv_timeout gv) (TrimSpace tenant) [TrimSpace app] w = (Inr ds, w1) \<and>
        find (\<lambda>d. TrimSpace (ad_ApplicationId d) = TrimSpace app) (rev ds) = Some d \<and> \<not> ad_Granted d))"
proof (cases "TrimSpace tenant = [] \<or> TrimSpace app = []")
  case True
  have "Check_access v ctx tenant [app] w =
      (Inl (Ext ''invalid application access request: tenant and 1-100 unique application IDs are required'' [ErrInvalidArgument]), w)"
    using True by (cases "TrimSpace app = []") (simp_all add: Check_access_def normalizeIDs_def maxBatchSize_def Let_def)
  then show ?thesis using True by (auto simp: Verify_def ErrInvalidArgument_def ErrNotGranted_def)
next
  case False
  then have i: "normalizeIDs [app] = Inr [TrimSpace app]" by (simp add: normalizeIDs_def maxBatchSize_def Let_def)
  show ?thesis
  proof (cases "Option.bind v gv_client")
    case None
    then show ?thesis
      using False i by (cases v) (auto simp: Verify_def Check_access_def app_ErrUnavailable_def ErrNotGranted_def)
  next
    case (Some call)
    then obtain gv where g: "v = Some gv" "gv_client gv = Some call" by (cases v) auto
    obtain r w1 where c: "call ctx (gv_timeout gv) (TrimSpace tenant) [TrimSpace app] w = (r, w1)" by fastforce
    show ?thesis
    proof (cases r)
      case (Inl e)
      then show ?thesis
        using False i g c by (auto simp: Verify_def Check_access_def app_ErrUnavailable_def ErrNotGranted_def)
    next
      case (Inr ds)
      note f = fold_decisions[of "TrimSpace app" ds Map.empty]
      show ?thesis
        using False i g c Inr f
        by (cases "find (\<lambda>d. TrimSpace (ad_ApplicationId d) = TrimSpace app) (rev ds)")
          (auto simp: Verify_def Check_access_def Let_def app_ErrUnavailable_def ErrNotGranted_def)
    qed
  qed
qed

definition demo_app_verifier :: "nat GRPCVerifier" where
  "demo_app_verifier = NewGRPCVerifier (Some (\<lambda>ctx t tenant ids n.
     (Inr (map (\<lambda>i. \<lparr>ad_ApplicationId = i, ad_Granted = (tenant = ''t1''), ad_Reason = ''plan''\<rparr>) ids), Suc n))) 0"

theorem appaccess_fail_closed_witness:
  "Verify (Some demo_app_verifier) Background '' t1'' ''crm'' 0 = (None, 1) \<and>
   (\<exists>(ds :: app_decision list) d. find (\<lambda>d. TrimSpace (ad_ApplicationId d) = TrimSpace ''crm'') (rev ds) = Some d \<and> ad_Granted d)"
proof -
  have v: "Verify (Some demo_app_verifier) Background '' t1'' ''crm'' 0 = (None, 1)" by code_simp
  then show ?thesis using appaccess_fail_closed[of "Some demo_app_verifier" Background "'' t1''" "''crm''" 0 1] by metis
qed

end
