(* ===== verification/Dynamic_Config.thy ===== *)
theory Dynamic_Config
  imports Envelope Principal
begin

text \<open>
  The dynamic configuration client (\<open>src/dynamicconfig/client.go\<close>). The state is the atomic
  pointer to the snapshot and the refresh mutex. A refresh is two steps, asking the resolver and storing the
  snapshot made of its response; between them the response is in flight, the mutex is held, and other
  goroutines may invalidate the client but not refresh it. What other goroutines do during a read, before its
  refresh has the mutex, between the two steps and before the second read of the pointer, are arguments
  of the read. A nil dereference is the outcome \<open>Panicked\<close>. The resolver is a parameter: what its call answers.
\<close>

definition ErrNotFound :: goerr where "ErrNotFound = Sentinel ''dynamic configuration key not found''"

record cfg_Options =
  Environment :: string
  cf_TenantID :: string
  Service :: string
  cf_SubjectID :: string
  TTL :: int

record cfg_Value =
  Bytes :: string
  SecretRef :: string
  cv_Revision :: int

record cfg_snapshot =
  cs_values :: "(string \<times> cfg_Value) list"
  etag :: string
  expiresAt :: int

text \<open>An entry of the response, and the response.\<close>

record cfg_entry =
  ce_Key :: string
  ce_Value :: string
  ce_SecretRef :: string
  ce_Revision :: int

record ResolveResponse =
  Entries :: "cfg_entry list"
  Etag :: string

record ResolveRequest =
  rq_Environment :: string
  rq_TenantId :: string
  rq_Service :: string
  rq_Keys :: "string list"
  rq_SubjectId :: string

text \<open>The resolver answers a request, in a world with a clock.\<close>

record 'w cfg_Client =
  cc_resolver :: "ResolveRequest \<Rightarrow> 'w \<Rightarrow> (goerr + ResolveResponse) \<times> 'w"
  cc_options :: cfg_Options

definition New_config ::
  "(ResolveRequest \<Rightarrow> 'w \<Rightarrow> (goerr + ResolveResponse) \<times> 'w) option \<Rightarrow> cfg_Options \<Rightarrow> goerr + 'w cfg_Client" where
  "New_config resolver options =
     (case resolver of
        None \<Rightarrow> Inl (Msg ''resolver, environment, and service are required'')
      | Some rs \<Rightarrow>
          if Environment options = [] \<or> Service options = [] then Inl (Msg ''resolver, environment, and service are required'')
          else Inr \<lparr>cc_resolver = rs, cc_options = (if TTL options \<le> 0 then options\<lparr>TTL := Minute\<rparr> else options)\<rparr>)"

definition entry_value :: "cfg_entry \<Rightarrow> cfg_Value" where
  "entry_value e = \<lparr>Bytes = ce_Value e, SecretRef = ce_SecretRef e, cv_Revision = ce_Revision e\<rparr>"

text \<open>The map of the response: the last entry of a key counts.\<close>

definition response_values :: "ResolveResponse \<Rightarrow> (string \<times> cfg_Value) list" where
  "response_values r = rev (map (\<lambda>e. (ce_Key e, entry_value e)) (Entries r))"

definition request_of :: "'w cfg_Client \<Rightarrow> string list \<Rightarrow> ResolveRequest" where
  "request_of c keys =
     \<lparr>rq_Environment = Environment (cc_options c), rq_TenantId = cf_TenantID (cc_options c),
      rq_Service = Service (cc_options c), rq_Keys = keys, rq_SubjectId = cf_SubjectID (cc_options c)\<rparr>"

text \<open>
  The client's variables. \<open>in_flight\<close> is the response held by the goroutine inside \<open>Refresh\<close>, nothing
  while the mutex is free; \<open>answers\<close> records the resolver's responses, the latest first.
\<close>

record 'w cfg_state =
  cc_value :: "cfg_snapshot option"
  in_flight :: "ResolveResponse option"
  cc_world :: 'w
  answers :: "ResolveResponse list"

definition resolve_step :: "'w cfg_Client \<Rightarrow> string list \<Rightarrow> 'w cfg_state \<Rightarrow> (goerr + ResolveResponse) \<times> 'w cfg_state" where
  "resolve_step c keys y =
     (case cc_resolver c (request_of c keys) (cc_world y) of
        (Inl err, w) \<Rightarrow> (Inl (Wrap ''resolve dynamic configuration'' err), y\<lparr>cc_world := w\<rparr>)
      | (Inr response, w) \<Rightarrow> (Inr response, y\<lparr>cc_world := w, in_flight := Some response, answers := response # answers y\<rparr>))"

definition store_step :: "'w cfg_Client \<Rightarrow> ('w \<Rightarrow> int) \<Rightarrow> ResolveResponse \<Rightarrow> 'w cfg_state \<Rightarrow> 'w cfg_state" where
  "store_step c now response y =
     y\<lparr>cc_value := Some \<lparr>cs_values = response_values response, etag = Etag response,
                           expiresAt = now (cc_world y) + TTL (cc_options c)\<rparr>,
       in_flight := None\<rparr>"

text \<open>Waiting for the mutex: a refresh that is in flight stores its response first.\<close>

definition lock_refresh :: "'w cfg_Client \<Rightarrow> ('w \<Rightarrow> int) \<Rightarrow> 'w cfg_state \<Rightarrow> 'w cfg_state" where
  "lock_refresh c now y = (case in_flight y of None \<Rightarrow> y | Some response \<Rightarrow> store_step c now response y)"

definition Refresh ::
  "'w cfg_Client \<Rightarrow> ('w \<Rightarrow> int) \<Rightarrow> string list \<Rightarrow> ('w cfg_state \<Rightarrow> 'w cfg_state) \<Rightarrow> 'w cfg_state \<Rightarrow> goerr option \<times> 'w cfg_state" where
  "Refresh c now keys during y =
     (case resolve_step c keys (lock_refresh c now y) of
        (Inl err, y1) \<Rightarrow> (Some err, y1)
      | (Inr response, y1) \<Rightarrow> (None, store_step c now response (during y1)))"

datatype 'a go_outcome = Got 'a | Failed goerr | Panicked

text \<open>What a read of a snapshot answers.\<close>

definition answer :: "cfg_snapshot \<Rightarrow> string \<Rightarrow> cfg_Value go_outcome" where
  "answer sn key =
     (case map_of (cs_values sn) key of
        None \<Rightarrow> Failed (Ext (''dynamic configuration key not found: '' @ key) [ErrNotFound]) | Some v \<Rightarrow> Got v)"

definition Get_config ::
  "'w cfg_Client \<Rightarrow> ('w \<Rightarrow> int) \<Rightarrow> ('w cfg_state \<Rightarrow> 'w cfg_state) \<Rightarrow> ('w cfg_state \<Rightarrow> 'w cfg_state) \<Rightarrow>
   ('w cfg_state \<Rightarrow> 'w cfg_state) \<Rightarrow> string \<Rightarrow> 'w cfg_state \<Rightarrow> cfg_Value go_outcome \<times> 'w cfg_state" where
  "Get_config c now before during after key y =
     (let current = cc_value y
      in if current = None \<or> \<not> now (cc_world y) < expiresAt (the current)
         then
           (case Refresh c now [] during (before y) of
              (err, y1) \<Rightarrow>
                (let y2 = after y1
                 in if err \<noteq> None \<and> current = None then (Failed (the err), y2)
                    else (case cc_value y2 of None \<Rightarrow> Panicked | Some sn \<Rightarrow> answer sn key, y2)))
         else (answer (the current) key, y))"

definition Invalidate :: "'w cfg_state \<Rightarrow> 'w cfg_state" where
  "Invalidate y = y\<lparr>cc_value := None\<rparr>"

record changed_entry =
  ch_Environment :: string
  ch_Service :: string
  ch_TenantId :: string

definition concerns :: "cfg_Options \<Rightarrow> changed_entry \<Rightarrow> bool" where
  "concerns o1 entry \<longleftrightarrow>
     ch_Environment entry = Environment o1 \<and> ch_Service entry = Service o1 \<and>
     (ch_TenantId entry = [] \<or> ch_TenantId entry = cf_TenantID o1)"

text \<open>The entry of the event may be nil, whose fields read as empty.\<close>

definition HandleChanged ::
  "'w cfg_Client \<Rightarrow> (string \<Rightarrow> goerr + changed_entry option) \<Rightarrow> EventEnvelope option \<Rightarrow> 'w cfg_state \<Rightarrow>
   goerr option \<times> 'w cfg_state" where
  "HandleChanged c unmarshal envelope y =
     (case DecodePayload unmarshal envelope (Some None) of
        Inl e \<Rightarrow> (Some (Wrap ''decode config changed event'' e), y)
      | Inr entry0 \<Rightarrow>
          (let entry = (case entry0 of None \<Rightarrow> \<lparr>ch_Environment = [], ch_Service = [], ch_TenantId = []\<rparr> | Some x \<Rightarrow> x)
           in if concerns (cc_options c) entry then (None, Invalidate y) else (None, y)))"

definition ETag :: "'w cfg_state \<Rightarrow> string" where
  "ETag y = (case cc_value y of Some sn \<Rightarrow> etag sn | None \<Rightarrow> [])"

section \<open>Goroutines\<close>

text \<open>
  What goroutines do, one step at a time. The first kind needs no mutex: the world moves on, an event is handled, the
  client is invalidated. The second kind are the two steps of a refresh: the first waits while the mutex
  is held.
\<close>

datatype 'w free_op = Passes "'w \<Rightarrow> 'w" | Changes "EventEnvelope option" | Invalidates

datatype 'w cfg_op = Free "'w free_op" | Resolves "string list" | Stores

fun free_step :: "'w cfg_Client \<Rightarrow> (string \<Rightarrow> goerr + changed_entry option) \<Rightarrow> 'w free_op \<Rightarrow> 'w cfg_state \<Rightarrow> 'w cfg_state" where
  "free_step c unmarshal (Passes f) y = y\<lparr>cc_world := f (cc_world y)\<rparr>"
| "free_step c unmarshal (Changes envelope) y = snd (HandleChanged c unmarshal envelope y)"
| "free_step c unmarshal Invalidates y = Invalidate y"

fun cfg_step ::
  "'w cfg_Client \<Rightarrow> ('w \<Rightarrow> int) \<Rightarrow> (string \<Rightarrow> goerr + changed_entry option) \<Rightarrow> 'w cfg_op \<Rightarrow> 'w cfg_state \<Rightarrow> 'w cfg_state" where
  "cfg_step c now unmarshal (Free op) y = free_step c unmarshal op y"
| "cfg_step c now unmarshal (Resolves keys) y = (if in_flight y = None then snd (resolve_step c keys y) else y)"
| "cfg_step c now unmarshal Stores y = lock_refresh c now y"

section \<open>Correctness\<close>

text \<open>
  Every response the client holds, in the snapshot or in flight, is one of the recorded responses or one of
  \<open>R\<close>. No step breaks this.
\<close>

definition holds_only :: "ResolveResponse set \<Rightarrow> 'w cfg_state \<Rightarrow> bool" where
  "holds_only R y \<longleftrightarrow>
     (\<forall>sn. cc_value y = Some sn \<longrightarrow> (\<exists>r \<in> set (answers y) \<union> R. cs_values sn = response_values r)) \<and>
     (\<forall>r. in_flight y = Some r \<longrightarrow> r \<in> set (answers y) \<union> R)"

lemma holds_only_resolve:
  assumes "holds_only R y" "resolve_step c keys y = (res, y')"
  shows "holds_only R y' \<and> (\<forall>r. res = Inr r \<longrightarrow> r \<in> set (answers y'))"
  using assms by (auto simp: resolve_step_def holds_only_def split: prod.splits sum.splits)

lemma holds_only_store: "holds_only R y \<Longrightarrow> r \<in> set (answers y) \<union> R \<Longrightarrow> holds_only R (store_step c now r y)"
  by (auto simp: holds_only_def store_step_def)

lemma holds_only_lock:
  assumes "holds_only R y"
  shows "holds_only R (lock_refresh c now y)"
proof (cases "in_flight y")
  case (Some r)
  then have "r \<in> set (answers y) \<union> R" using assms by (simp add: holds_only_def)
  then show ?thesis using Some holds_only_store[OF assms] by (simp add: lock_refresh_def)
qed (simp add: lock_refresh_def assms)

lemma HandleChanged_state: "snd (HandleChanged c unmarshal envelope y) = y \<or> snd (HandleChanged c unmarshal envelope y) = Invalidate y"
  by (simp add: HandleChanged_def Let_def split: sum.splits)

lemma holds_only_free: "holds_only R y \<Longrightarrow> holds_only R (free_step c unmarshal op y) \<and> answers (free_step c unmarshal op y) = answers y"
proof (cases op)
  case (Changes envelope)
  then show "holds_only R y \<Longrightarrow> ?thesis"
    using HandleChanged_state[of c unmarshal envelope y] by (elim disjE) (simp_all add: holds_only_def Invalidate_def)
qed (simp_all add: holds_only_def Invalidate_def)

lemma holds_only_frees:
  "holds_only R y \<Longrightarrow> holds_only R (fold (free_step c unmarshal) ops y) \<and> answers (fold (free_step c unmarshal) ops y) = answers y"
  by (induction ops arbitrary: y) (auto simp: holds_only_free)

lemma holds_only_step: "holds_only R y \<Longrightarrow> holds_only R (cfg_step c now unmarshal op y)"
  by (cases op) (auto simp: holds_only_free holds_only_lock dest: holds_only_resolve[OF _ prod.collapse[symmetric]])

lemma holds_only_run: "holds_only R y \<Longrightarrow> holds_only R (fold (cfg_step c now unmarshal) ops y)"
  by (induction ops arbitrary: y) (auto simp: holds_only_step)

lemma holds_only_Refresh:
  assumes "holds_only R y" "Refresh c now keys (fold (free_step c unmarshal) mid) y = (err, y')"
  shows "holds_only R y'"
proof -
  obtain res y1 where r: "resolve_step c keys (lock_refresh c now y) = (res, y1)" by fastforce
  note h = holds_only_resolve[OF holds_only_lock[OF assms(1)] r]
  show ?thesis
  proof (cases res)
    case (Inl e)
    then show ?thesis using assms(2) r h by (simp add: Refresh_def)
  next
    case (Inr response)
    have "holds_only R (store_step c now response (fold (free_step c unmarshal) mid y1))"
      using holds_only_frees[of R y1 c unmarshal mid] h Inr by (intro holds_only_store) auto
    then show ?thesis using assms(2) r Inr by (simp add: Refresh_def)
  qed
qed

lemma answer_Got: "answer sn key = Got v \<longleftrightarrow> map_of (cs_values sn) key = Some v"
  by (auto simp: answer_def split: option.splits)

lemma holds_only_Got: "holds_only R y \<Longrightarrow> cc_value y = Some sn \<Longrightarrow> answer sn key = Got v \<Longrightarrow>
    \<exists>r \<in> set (answers y) \<union> R. map_of (response_values r) key = Some v"
  by (fastforce simp: holds_only_def answer_Got)

lemma Get_config_holds_only:
  assumes "holds_only R y" and
    "Get_config c now (fold (cfg_step c now unmarshal) pre) (fold (free_step c unmarshal) mid)
       (fold (cfg_step c now unmarshal) post) key y = (Got v, y')"
  shows "\<exists>r \<in> set (answers y') \<union> R. map_of (response_values r) key = Some v"
proof (cases "cc_value y = None \<or> \<not> now (cc_world y) < expiresAt (the (cc_value y))")
  case True
  obtain err y1 where r: "Refresh c now [] (fold (free_step c unmarshal) mid) (fold (cfg_step c now unmarshal) pre y) = (err, y1)"
    by fastforce
  have "holds_only R (fold (cfg_step c now unmarshal) post y1)"
    by (intro holds_only_run holds_only_Refresh[OF _ r] assms(1))
  moreover have "\<exists>sn. cc_value (fold (cfg_step c now unmarshal) post y1) = Some sn \<and> answer sn key = Got v \<and>
      y' = fold (cfg_step c now unmarshal) post y1"
    using assms(2) True r by (auto simp: Get_config_def Let_def split: if_splits option.splits)
  ultimately show ?thesis using holds_only_Got by blast
next
  case False
  then obtain sn where "cc_value y = Some sn" by auto
  then show ?thesis using False assms holds_only_Got[OF assms(1)] by (auto simp: Get_config_def)
qed

lemma Get_config_fresh:
  "cc_value y = Some sn \<Longrightarrow> now (cc_world y) < expiresAt sn \<Longrightarrow> Get_config c now before during after key y = (answer sn key, y)"
  by (simp add: Get_config_def)

lemma Get_config_empty:
  "cc_value y = None \<Longrightarrow>
     fst (Get_config c now id id id key y) =
       (case cc_resolver c (request_of c []) (cc_world y) of
          (Inl e, w) \<Rightarrow> Failed (Wrap ''resolve dynamic configuration'' e)
        | (Inr response, w) \<Rightarrow>
            answer \<lparr>cs_values = response_values response, etag = Etag response, expiresAt = now w + TTL (cc_options c)\<rparr> key)"
  by (auto simp: Get_config_def Refresh_def resolve_step_def store_step_def lock_refresh_def split: prod.splits sum.splits option.splits)

text \<open>The value a response has for a key: that of its last entry with this key.\<close>

definition answered :: "ResolveResponse \<Rightarrow> string \<rightharpoonup> cfg_Value" where
  "answered r key =
     map_option (\<lambda>e. \<lparr>Bytes = ce_Value e, SecretRef = ce_SecretRef e, cv_Revision = ce_Revision e\<rparr>)
       (find (\<lambda>e. ce_Key e = key) (rev (Entries r)))"

lemma response_values_answered: "map_of (response_values r) key = answered r key"
proof -
  have "map_of (map (\<lambda>e. (ce_Key e, entry_value e)) es) key = map_option entry_value (find (\<lambda>e. ce_Key e = key) es)" for es
    by (induction es) auto
  moreover have "entry_value = (\<lambda>e. \<lparr>Bytes = ce_Value e, SecretRef = ce_SecretRef e, cv_Revision = ce_Revision e\<rparr>)"
    by (simp add: entry_value_def fun_eq_iff)
  ultimately show ?thesis by (simp add: response_values_def rev_map answered_def)
qed

text \<open>C37. A change of configuration is seen. The handler of an event for the client's environment and service and for all
  tenants or its own drops the snapshot. A read that starts later, after and among any steps of other
  goroutines (refreshes, invalidations, further events, the passing of time), returns a value only from a
  response the resolver gave after the event, or from the one response that another goroutine's refresh
  had already received and not yet stored when the event was handled. A read that nothing interrupts right after
  the event answers from the response its own refresh gets, or fails with the resolver's error. An event
  for another environment, service or tenant leaves the client as it is.\<close>

theorem dynconfig_change_seen:
  assumes "unmarshal (env_Payload envelope) = Inr (Some entry)"
    and "HandleChanged c unmarshal (Some envelope) y = (err, y0)"
    and "Get_config c now (fold (cfg_step c now unmarshal) pre) (fold (free_step c unmarshal) mid)
      (fold (cfg_step c now unmarshal) post) key (fold (cfg_step c now unmarshal) ops (y0\<lparr>answers := []\<rparr>)) = (out, y')"
  shows "err = None \<and>
    (if ch_Environment entry = Environment (cc_options c) \<and> ch_Service entry = Service (cc_options c) \<and>
        (ch_TenantId entry = [] \<or> ch_TenantId entry = cf_TenantID (cc_options c))
     then cc_value y0 = None \<and> ETag y0 = [] \<and>
       (\<forall>v. out = Got v \<longrightarrow> (\<exists>r \<in> set (answers y') \<union> set_option (in_flight y). answered r key = Some v)) \<and>
       fst (Get_config c now id id id key y0) =
         (case cc_resolver c (request_of c []) (cc_world y) of
            (Inl e, w) \<Rightarrow> Failed (Wrap ''resolve dynamic configuration'' e)
          | (Inr response, w) \<Rightarrow>
              (case answered response key of
                 None \<Rightarrow> Failed (Ext (''dynamic configuration key not found: '' @ key) [ErrNotFound])
               | Some v \<Rightarrow> Got v))
     else y0 = y)"
proof -
  let ?mine = "ch_Environment entry = Environment (cc_options c) \<and> ch_Service entry = Service (cc_options c) \<and>
        (ch_TenantId entry = [] \<or> ch_TenantId entry = cf_TenantID (cc_options c))"
  have h: "err = None \<and> y0 = (if ?mine then Invalidate y else y)"
    using assms(1,2) by (auto simp: HandleChanged_def DecodePayload_def concerns_def split: if_splits)
  show ?thesis
  proof (cases ?mine)
    case True
    then have y0: "cc_value y0 = None" "in_flight y0 = in_flight y" "cc_world y0 = cc_world y"
      using h by (simp_all add: Invalidate_def)
    have "holds_only (set_option (in_flight y)) (y0\<lparr>answers := []\<rparr>)" using y0 by (auto simp: holds_only_def)
    then have "holds_only (set_option (in_flight y)) (fold (cfg_step c now unmarshal) ops (y0\<lparr>answers := []\<rparr>))"
      by (rule holds_only_run)
    from Get_config_holds_only[OF this] have
      "\<forall>v. out = Got v \<longrightarrow> (\<exists>r \<in> set (answers y') \<union> set_option (in_flight y). answered r key = Some v)"
      using assms(3) unfolding response_values_answered by blast
    moreover have "fst (Get_config c now id id id key y0) =
        (case cc_resolver c (request_of c []) (cc_world y) of
            (Inl e, w) \<Rightarrow> Failed (Wrap ''resolve dynamic configuration'' e)
          | (Inr response, w) \<Rightarrow>
              (case answered response key of
                 None \<Rightarrow> Failed (Ext (''dynamic configuration key not found: '' @ key) [ErrNotFound])
               | Some v \<Rightarrow> Got v))"
      unfolding Get_config_empty[OF y0(1)] y0(3) by (simp add: answer_def response_values_answered split: prod.split sum.split)
    ultimately show ?thesis using True h y0 by (simp add: ETag_def)
  next
    case False
    then show ?thesis using h by (simp only: if_False)
  qed
qed

text \<open>
  The exception is real: a refresh that received its response before the event and stores it afterwards
  brings the old values back, and reads return them until they expire.
\<close>

theorem dynconfig_stale_refresh:
  assumes "in_flight y = Some old" "map_of (response_values old) key = Some v" "0 < TTL (cc_options c)"
    and "y' = cfg_step c now unmarshal Stores (snd (HandleChanged c unmarshal envelope y))"
  shows "Get_config c now before during after key y' = (Got v, y')"
proof (rule Get_config_fresh[THEN trans])
  have i: "in_flight (snd (HandleChanged c unmarshal envelope y)) = Some old"
    using HandleChanged_state[of c unmarshal envelope y] assms(1) by (auto simp: Invalidate_def)
  show "cc_value y' = Some \<lparr>cs_values = response_values old, etag = Etag old, expiresAt = now (cc_world y') + TTL (cc_options c)\<rparr>"
    using i assms(4) by (simp add: lock_refresh_def store_step_def)
qed (use assms(2,3) in \<open>simp_all add: answer_Got[THEN iffD2]\<close>)

text \<open>A read that refreshes can crash. When the snapshot has expired or is missing and the refresh succeeds,
  an invalidation by another goroutine before the second read of the pointer makes the read dereference nil.
  Without such an invalidation no read panics.\<close>

theorem dynconfig_invalidation_race:
  assumes "cc_value y = None \<or> \<not> now (cc_world y) < expiresAt (the (cc_value y))"
    and "cc_resolver c (request_of c []) (cc_world y) = (Inr response, w)"
  shows "fst (Get_config c now id id Invalidate key y) = Panicked \<and> fst (Get_config c now id id id key y) \<noteq> Panicked"
  using assms
  by (auto simp: Get_config_def Refresh_def resolve_step_def store_step_def lock_refresh_def Invalidate_def answer_def
      split: option.splits)

definition demo_config_client :: "nat cfg_Client" where
  "demo_config_client =
     \<lparr>cc_resolver = (\<lambda>rq n. (Inr \<lparr>Entries = [\<lparr>ce_Key = ''k'', ce_Value = (if n < 3 then ''old'' else ''new''), ce_SecretRef = [], ce_Revision = int n\<rparr>],
                                  Etag = ''e''\<rparr>, Suc n)),
      cc_options = \<lparr>Environment = ''prod'', cf_TenantID = ''t1'', Service = ''shop'', cf_SubjectID = [], TTL = 10\<rparr>\<rparr>"

definition demo_config_state :: "nat cfg_state" where
  "demo_config_state =
     \<lparr>cc_value = Some \<lparr>cs_values = [(''k'', \<lparr>Bytes = ''old'', SecretRef = [], cv_Revision = 1\<rparr>)], etag = ''x'', expiresAt = 50\<rparr>,
      in_flight = None, cc_world = 5, answers = []\<rparr>"

definition demo_changed :: EventEnvelope where
  "demo_changed = \<lparr>EventId = ''e1'', EventType = ''config'', AggregateId = ''a'', AggregateType = ''config'', TenantId = [],
     ApplicationId = [], SchemaVersion = 1, OccurredAt = 0, env_Context = None, env_Payload = ''p''\<rparr>"

definition demo_entry :: changed_entry where
  "demo_entry = \<lparr>ch_Environment = ''prod'', ch_Service = ''shop'', ch_TenantId = []\<rparr>"

theorem dynconfig_invalidation_race_witness:
  "fst (Get_config demo_config_client int id id Invalidate ''k'' (Invalidate demo_config_state)) = Panicked"
  using dynconfig_invalidation_race[of "Invalidate demo_config_state" int demo_config_client _ "Suc 5" "''k''"]
  by (simp add: demo_config_client_def demo_config_state_def Invalidate_def)

definition demo_old :: ResolveResponse where
  "demo_old = \<lparr>Entries = [\<lparr>ce_Key = ''k'', ce_Value = ''old'', ce_SecretRef = [], ce_Revision = 1\<rparr>], Etag = ''x''\<rparr>"

theorem dynconfig_stale_refresh_witness:
  "fst (Get_config demo_config_client int id id id ''k''
     (cfg_step demo_config_client int (\<lambda>_. Inr (Some demo_entry)) Stores
       (snd (HandleChanged demo_config_client (\<lambda>_. Inr (Some demo_entry)) (Some demo_changed)
         (demo_config_state\<lparr>in_flight := Some demo_old\<rparr>))))) = Got \<lparr>Bytes = ''old'', SecretRef = [], cv_Revision = 1\<rparr>"
proof -
  have m: "map_of (response_values demo_old) ''k'' = Some \<lparr>Bytes = ''old'', SecretRef = [], cv_Revision = 1\<rparr>" by code_simp
  have t: "0 < TTL (cc_options demo_config_client)" by code_simp
  have i: "in_flight (demo_config_state\<lparr>in_flight := Some demo_old\<rparr>) = Some demo_old" by simp
  show ?thesis using dynconfig_stale_refresh[OF i m t refl] by simp
qed

text \<open>The snapshot held the old value; the read after the event, with an invalidation and a refresh of another
  goroutine before it, returns the new one.\<close>

theorem dynconfig_change_seen_witness:
  "\<exists>r y'. Get_config demo_config_client int id id id ''k''
       (fold (cfg_step demo_config_client int (\<lambda>_. Inr (Some demo_entry))) [Resolves [], Free Invalidates, Stores]
         (Invalidate demo_config_state)) = (Got \<lparr>Bytes = ''new'', SecretRef = [], cv_Revision = 5\<rparr>, y') \<and>
     r \<in> set (answers y') \<and> answered r ''k'' = Some \<lparr>Bytes = ''new'', SecretRef = [], cv_Revision = 5\<rparr>"
proof -
  let ?u = "\<lambda>_ :: string. Inr (Some demo_entry) :: goerr + changed_entry option"
  let ?g = "Get_config demo_config_client int id id id ''k''
       (fold (cfg_step demo_config_client int ?u) [Resolves [], Free Invalidates, Stores] (Invalidate demo_config_state))"
  have h: "HandleChanged demo_config_client ?u (Some demo_changed) demo_config_state = (None, Invalidate demo_config_state)" by code_simp
  have c: "ch_Environment demo_entry = Environment (cc_options demo_config_client)" "ch_Service demo_entry = Service (cc_options demo_config_client)"
    "ch_TenantId demo_entry = []" by code_simp+
  have a: "(Invalidate demo_config_state)\<lparr>answers := []\<rparr> = Invalidate demo_config_state" "in_flight demo_config_state = None"
    by (simp_all add: Invalidate_def demo_config_state_def)
  have g: "fst ?g = Got \<lparr>Bytes = ''new'', SecretRef = [], cv_Revision = 5\<rparr>" by code_simp
  then have e: "?g = (Got \<lparr>Bytes = ''new'', SecretRef = [], cv_Revision = 5\<rparr>, snd ?g)" by (metis prod.collapse)
  have "\<exists>r \<in> set (answers (snd ?g)). answered r ''k'' = Some \<lparr>Bytes = ''new'', SecretRef = [], cv_Revision = 5\<rparr>"
    using dynconfig_change_seen[of ?u demo_changed demo_entry, OF refl h, where pre = "[]" and mid = "[]" and post = "[]" and now = int
        and ops = "[Resolves [], Free Invalidates, Stores]" and key = "''k''", unfolded a fold_Nil, OF e] c
    by simp
  then show ?thesis using e by blast
qed

end
