(* ===== verification/Dictionary.thy ===== *)
theory Dictionary
  imports Distlock
begin

text \<open>
  The registrant of a dictionary provider (\<open>src/dictionaryprovider/\<close>). The registry's answers,
  the locker's answers and the ticks are what a run is given; the run is the list of calls it makes, in
  order, with the flag that \<open>Active\<close> reads. Capabilities are only passed on, here as their names. The registry adapter of \<open>registry.go\<close> passes each
  call on.
\<close>

definition defaultCallTimeout :: int where "defaultCallTimeout = 5 * Second"
definition defaultRetryDelay :: int where "defaultRetryDelay = 3 * Second"
definition defaultLeaderTTL :: int where "defaultLeaderTTL = 30 * Second"

record dict_Config =
  dc_ServiceName :: string
  dc_Target :: string
  dc_Capabilities :: "string list"
  CacheTTL :: int
  CallTimeout :: int
  ProviderTimeout :: int
  LeaseDuration :: int
  RetryDelay :: int
  LeaderTTL :: int
  LeaderLockKey :: string

definition dict_defaults :: "dict_Config \<Rightarrow> dict_Config" where
  "dict_defaults c =
     c\<lparr>CallTimeout := (if CallTimeout c \<le> 0 then defaultCallTimeout else CallTimeout c),
       ProviderTimeout := (if ProviderTimeout c \<le> 0 then 3 * Second else ProviderTimeout c),
       LeaseDuration := (if LeaseDuration c \<le> 0 then 60 * Second else LeaseDuration c),
       RetryDelay := (if RetryDelay c \<le> 0 then defaultRetryDelay else RetryDelay c),
       LeaderTTL := (if LeaderTTL c \<le> 0 then defaultLeaderTTL else LeaderTTL c),
       LeaderLockKey := (if TrimSpace (LeaderLockKey c) = [] then ''dictionary-provider:'' @ TrimSpace (dc_ServiceName c)
                         else LeaderLockKey c)\<rparr>"

text \<open>\<open>registry\<close> says whether a registry was given. The product of a duration is a 64-bit one.\<close>

definition dict_validate :: "dict_Config \<Rightarrow> bool \<Rightarrow> goerr option" where
  "dict_validate c registry =
     (if \<not> registry then Some (Msg ''dictionary registry is required'')
      else if TrimSpace (dc_ServiceName c) = [] \<or> TrimSpace (dc_Target c) = []
      then Some (Msg ''provider service name and target are required'')
      else if dc_Capabilities c = [] then Some (Msg ''at least one provider capability is required'')
      else if LeaseDuration c < 15 * Second \<or> LeaseDuration c > 300 * Second
      then Some (Msg ''provider lease must be between 15 and 300 seconds'')
      else if LeaderTTL c < wrap64 (3 * CallTimeout c) then Some (Msg ''leader TTL must be at least three call timeouts'')
      else if CacheTTL c < 0 \<or> CacheTTL c > Hour then Some (Msg ''provider cache TTL must be between zero and one hour'')
      else if ProviderTimeout c < 100 * Millisecond \<or> ProviderTimeout c > 30 * Second
      then Some (Msg ''provider timeout must be between 100 milliseconds and 30 seconds'')
      else None)"

record dict_Registrant =
  dr_config :: dict_Config
  dr_locker :: bool
  dr_started :: bool

definition New_dict :: "dict_Config \<Rightarrow> bool \<Rightarrow> bool \<Rightarrow> goerr + dict_Registrant" where
  "New_dict config registry locker =
     (let c = dict_defaults config
      in case dict_validate c registry of
           Some e \<Rightarrow> Inl e
         | None \<Rightarrow> Inr \<lparr>dr_config = c, dr_locker = locker, dr_started = False\<rparr>)"

text \<open>\<open>uint32(value / time.Second)\<close>\<close>

definition durationSeconds :: "int \<Rightarrow> nat" where
  "durationSeconds v = nat (go_div v Second mod 2 ^ 32)"

section \<open>Calls\<close>

datatype dict_call =
    RegisterProvider string string "string list" nat nat nat
  | HeartbeatProvider string string nat
  | UnregisterProvider string string
  | ExtendLeadership
  | UnlockLeadership

text \<open>A response names the provider and the lease's token, either of which may be empty.\<close>

definition dict_register :: "goerr + string \<times> string \<Rightarrow> dict_Registrant \<Rightarrow> (goerr + string \<times> string) \<times> dict_call" where
  "dict_register response r =
     (let c = dr_config r
      in (case response of
            Inl e \<Rightarrow> Inl e
          | Inr (providerID, token) \<Rightarrow>
              if providerID = [] \<or> token = [] then Inl (Msg ''dictionary registry returned an incomplete lease'')
              else Inr (providerID, token),
          RegisterProvider (dc_ServiceName c) (dc_Target c) (dc_Capabilities c) (durationSeconds (CacheTTL c))
            (nat (Milliseconds (ProviderTimeout c) mod 2 ^ 32)) (durationSeconds (LeaseDuration c))))"

definition heartbeat :: "dict_Registrant \<Rightarrow> string \<Rightarrow> string \<Rightarrow> dict_call" where
  "heartbeat r providerID token = HeartbeatProvider providerID token (durationSeconds (LeaseDuration (dr_config r)))"

definition heartbeatInterval :: "dict_Registrant \<Rightarrow> int" where
  "heartbeatInterval r = go_div (LeaseDuration (dr_config r)) 3"

definition extendInterval :: "dict_Registrant \<Rightarrow> int" where
  "extendInterval r = go_div (LeaderTTL (dr_config r)) 3"

section \<open>Sessions\<close>

text \<open>
  What happens in a session, in order: a heartbeat tick with the registry's answer, a tick of the
  leadership renewal with the lock's answer, or the end of the context.
\<close>

datatype dict_event = HeartbeatTick "goerr option" | ExtendTick "goerr option" | ContextDone

text \<open>
  The session's two loops, until its context ends: a failed heartbeat is only logged, a failed renewal
  cancels the session. The answer says whether the session ended. The renewals' ticker starts with the
  session, before the registration; as the registration is over within the call timeout and that is at most
  a third of the leadership's duration, its ticks come after the registration.
\<close>

fun sessionLoop :: "dict_Registrant \<Rightarrow> bool \<Rightarrow> string \<Rightarrow> string \<Rightarrow> dict_event list \<Rightarrow> dict_call list \<times> bool" where
  "sessionLoop r mutex providerID token [] = ([], False)"
| "sessionLoop r mutex providerID token (HeartbeatTick e # es) =
     (let (calls, ended) = sessionLoop r mutex providerID token es in (heartbeat r providerID token # calls, ended))"
| "sessionLoop r mutex providerID token (ExtendTick e # es) =
     (if \<not> mutex then sessionLoop r mutex providerID token es
      else if e \<noteq> None then ([ExtendLeadership], True)
      else (let (calls, ended) = sessionLoop r mutex providerID token es in (ExtendLeadership # calls, ended)))"
| "sessionLoop r mutex providerID token (ContextDone # es) = ([], True)"

text \<open>
  The calls of a session, whether it returned, and whether the registrant is active afterwards. The
  deferred calls run in reverse order: unregister, inactive, unlock.
\<close>

definition runSession ::
  "dict_Registrant \<Rightarrow> bool \<Rightarrow> goerr + string \<times> string \<Rightarrow> dict_event list \<Rightarrow> dict_call list \<times> bool \<times> bool" where
  "runSession r mutex response events =
     (let unlock = (if mutex then [UnlockLeadership] else [])
      in case dict_register response r of
           (Inl e, call) \<Rightarrow> ([call] @ unlock, True, False)
         | (Inr (providerID, token), call) \<Rightarrow>
             (case sessionLoop r mutex providerID token events of
                (calls, False) \<Rightarrow> (call # calls, False, True)
              | (calls, True) \<Rightarrow> (call # calls @ [UnregisterProvider providerID token] @ unlock, True, False)))"

text \<open>
  One round of the supervisor: whether its context has ended, what the election answers (an error or
  whether the lock was acquired), what the registry answers, the session's events, and whether the wait
  for the next round completes.
\<close>

record dict_round =
  dd_done :: bool
  dd_lock :: "goerr + bool"
  dd_response :: "goerr + string \<times> string"
  dd_events :: "dict_event list"
  dd_waited :: bool

fun supervise :: "dict_Registrant \<Rightarrow> dict_round list \<Rightarrow> dict_call list \<times> bool \<times> bool" where
  "supervise r [] = ([], False, False)"
| "supervise r (d # ds) =
     (if dd_done d then ([], True, False)
      else if \<not> dr_locker r then runSession r False (dd_response d) (dd_events d)
      else
        (case (if dd_lock d = Inr True then runSession r True (dd_response d) (dd_events d) else ([], True, False)) of
           (calls, False, active) \<Rightarrow> (calls, False, active)
         | (calls, True, active) \<Rightarrow>
             if \<not> dd_waited d then (calls, True, False)
             else (let (calls2, ret, active2) = supervise r ds in (calls @ calls2, ret, active2))))"

text \<open>Starting is allowed once; a start runs the supervisor in its own goroutine.\<close>

definition Start :: "dict_Registrant \<Rightarrow> goerr option \<times> dict_Registrant" where
  "Start r =
     (if dr_started r then (Some (Msg ''dictionary provider registrant is already started''), r)
      else (None, r\<lparr>dr_started := True\<rparr>))"

text \<open>Stopping cancels the supervisor and waits for it or for the caller's own context, whichever comes first.\<close>

definition Stop :: "goerr option \<Rightarrow> dict_Registrant \<Rightarrow> goerr option" where
  "Stop ctxErr r = (if \<not> dr_started r then None else ctxErr)"

section \<open>Correctness\<close>

lemma sessionLoop_calls:
  "c \<in> set (fst (sessionLoop r mutex p t es)) \<Longrightarrow> c = heartbeat r p t \<or> (mutex \<and> c = ExtendLeadership)"
  by (induction r mutex p t es rule: sessionLoop.induct) (auto simp: Let_def split: if_splits prod.splits)

text \<open>C38. A session leaves nothing behind. When a session that registered ends, by the end of its context or the
  loss of leadership, it has unregistered its provider with the lease's token, after every heartbeat and
  before it unlocks the leadership; its calls are
  exactly one registration, its heartbeats and renewals, and the farewell; and the registrant is not active.\<close>

theorem dictionary_session_clean:
  assumes "response = Inr (p, t)" "p \<noteq> []" "t \<noteq> []" "runSession r mutex response events = (calls, True, active)"
  shows "\<not> active \<and> (\<exists>mid. calls = snd (dict_register response r) # mid @ UnregisterProvider p t # (if mutex then [UnlockLeadership] else []) \<and>
    (\<forall>c \<in> set mid. c = heartbeat r p t \<or> (mutex \<and> c = ExtendLeadership)))"
proof -
  obtain mid ended where m: "sessionLoop r mutex p t events = (mid, ended)" by fastforce
  obtain call where reg: "dict_register response r = (Inr (p, t), call)"
    using assms(1-3) by (simp add: dict_register_def Let_def)
  have e: "ended" using assms(4) m reg by (cases ended) (auto simp: runSession_def Let_def)
  have "calls = call # mid @ UnregisterProvider p t # (if mutex then [UnlockLeadership] else [])" "\<not> active"
    using assms(4) m e reg by (auto simp: runSession_def Let_def)
  then show ?thesis using sessionLoop_calls[of _ r mutex p t events] m reg by auto
qed

lemma third: "3 \<le> x \<Longrightarrow> 0 < x div 3 \<and> 3 * (x div 3) \<le> x" "3 * c \<le> x \<Longrightarrow> 0 < c \<Longrightarrow> x div 3 + c \<le> x" for x c :: int
  by presburger+

lemma lease_fits:
  assumes "15 * Second \<le> x" "x \<le> 300 * Second"
  shows "15 \<le> x div Second" "x div Second \<le> 300" "2 * (x div 3) < x div Second * Second"
    "x mod Second = 0 \<Longrightarrow> 3 * (x div 3) \<le> x div Second * Second"
proof -
  show "15 \<le> x div Second" "x div Second \<le> 300" using assms by (simp_all add: duration_defs)
  have "x - Second < x div Second * Second" by (simp add: duration_defs)
  moreover have "3 * (x div 3) \<le> x" by simp
  ultimately show "2 * (x div 3) < x div Second * Second" using assms(1) by (simp add: duration_defs)
  show "3 * (x div 3) \<le> x div Second * Second" if "x mod Second = 0"
    using that \<open>3 * (x div 3) \<le> x\<close> by (metis add.right_neutral div_mult_mod_eq)
qed

lemma durationSeconds_exact: "0 \<le> v \<Longrightarrow> v \<le> Hour \<Longrightarrow> durationSeconds v = nat (v div Second)"
  by (simp add: durationSeconds_def go_div_nonneg duration_defs)

text \<open>C39. Heartbeats and leadership renewals come in time. For every registrant that was created, and whose three call
  timeouts fit 64 bits, the registry is told the configured cache time, provider timeout and lease in whole
  seconds, milliseconds and seconds, rounded down and unharmed by the narrowing to 32 bits, at registration
  and with every heartbeat. Two heartbeat intervals are shorter than the lease that was asked for, and three
  fit into it when the configured lease is a whole number of seconds. A renewal of the leadership that starts an
  interval after the last one and takes the whole call timeout is over before the leadership expires.\<close>

theorem dictionary_renews_in_time:
  assumes "New_dict config registry locker = Inr r" "3 * CallTimeout (dr_config r) \<le> max_int64"
    and "lease = nat (LeaseDuration (dr_config r) div Second)"
  shows "snd (dict_register response r) =
      RegisterProvider (dc_ServiceName config) (dc_Target config) (dc_Capabilities config) (nat (CacheTTL config div Second))
        (nat (ProviderTimeout (dr_config r) div Millisecond)) lease \<and>
    heartbeat r providerID token = HeartbeatProvider providerID token lease \<and> 15 \<le> lease \<and> lease \<le> 300 \<and>
    0 < heartbeatInterval r \<and> 2 * heartbeatInterval r < int lease * Second \<and>
    (LeaseDuration (dr_config r) mod Second = 0 \<longrightarrow> 3 * heartbeatInterval r \<le> int lease * Second) \<and>
    0 < extendInterval r \<and> extendInterval r + CallTimeout (dr_config r) \<le> LeaderTTL (dr_config r)"
proof -
  let ?c = "dr_config r"
  have r: "?c = dict_defaults config" "dict_validate (dict_defaults config) registry = None"
    using assms(1) by (auto simp: New_dict_def Let_def split: option.splits)
  have p: "0 < CallTimeout ?c" "0 < LeaderTTL ?c" unfolding r(1)
    by (simp_all add: dict_defaults_def defaultCallTimeout_def defaultLeaderTTL_def duration_defs)
  have f: "dc_ServiceName ?c = dc_ServiceName config" "dc_Target ?c = dc_Target config"
    "dc_Capabilities ?c = dc_Capabilities config" "CacheTTL ?c = CacheTTL config" unfolding r(1) by (simp_all add: dict_defaults_def)
  have v: "15 * Second \<le> LeaseDuration ?c" "LeaseDuration ?c \<le> 300 * Second" "wrap64 (3 * CallTimeout ?c) \<le> LeaderTTL ?c"
    "0 \<le> CacheTTL ?c" "CacheTTL ?c \<le> Hour" "100 * Millisecond \<le> ProviderTimeout ?c" "ProviderTimeout ?c \<le> 30 * Second"
    using r(2) unfolding r(1)[symmetric] by (simp_all add: dict_validate_def split: if_split_asm)
  have w: "3 * CallTimeout ?c \<le> LeaderTTL ?c" using v(3) p(1) assms(2) by simp
  have i: "heartbeatInterval r = LeaseDuration ?c div 3" "extendInterval r = LeaderTTL ?c div 3" "3 \<le> LeaderTTL ?c"
    using v(1) w p by (simp_all add: heartbeatInterval_def extendInterval_def go_div_nonneg duration_defs)
  note l = lease_fits[OF v(1,2)]
  have lease: "durationSeconds (LeaseDuration ?c) = lease" "int lease = LeaseDuration ?c div Second"
    using v(1,2) l(1) by (simp_all add: assms(3) durationSeconds_exact duration_defs)
  have t: "nat (Milliseconds (ProviderTimeout ?c) mod 2 ^ 32) = nat (ProviderTimeout ?c div Millisecond)"
    using v(6,7) by (simp add: Milliseconds_def go_div_nonneg duration_defs)
  have "snd (dict_register response r) =
      RegisterProvider (dc_ServiceName config) (dc_Target config) (dc_Capabilities config) (nat (CacheTTL config div Second))
        (nat (ProviderTimeout ?c div Millisecond)) lease \<and>
    heartbeat r providerID token = HeartbeatProvider providerID token lease"
    using f v(4,5) t lease(1) by (simp add: dict_register_def heartbeat_def Let_def durationSeconds_exact)
  moreover have "0 < LeaseDuration ?c div 3" using v(1) by (simp add: duration_defs)
  moreover have "15 \<le> lease" "lease \<le> 300" using l(1,2) lease(2) by linarith+
  ultimately show ?thesis
    using l(3,4) lease(2) third(1)[OF i(3)] third(2)[OF w p(1)] unfolding i(1,2) by simp
qed

text \<open>Two ways to stay unregistered for good. Without a locker a failed registration ends the supervisor, and
  nothing tries again although a retry delay is configured. And a session whose heartbeats the registry rejects,
  because it has dropped the lease, goes on with the same token: it never registers again and stays active.\<close>

theorem dictionary_gives_up:
  "(\<not> dr_locker r \<and> \<not> dd_done d \<and> dd_response d = Inl e \<longrightarrow>
      supervise r (d # ds) = ([snd (dict_register (Inl e) r)], True, False)) \<and>
   (p \<noteq> [] \<and> t \<noteq> [] \<longrightarrow>
      runSession r mutex (Inr (p, t)) (map (\<lambda>e. HeartbeatTick (Some e)) errs) =
        (snd (dict_register (Inr (p, t)) r) # replicate (length errs) (heartbeat r p t), False, True))"
proof -
  have l: "sessionLoop r mutex p t (map (\<lambda>e. HeartbeatTick (Some e)) errs) = (replicate (length errs) (heartbeat r p t), False)"
    by (induction errs) auto
  show ?thesis by (auto simp: runSession_def dict_register_def Let_def l)
qed

definition demo_dict_config :: dict_Config where
  "demo_dict_config = \<lparr>dc_ServiceName = ''shop'', dc_Target = ''shop:80'', dc_Capabilities = [''orders''], CacheTTL = 0,
     CallTimeout = 0, ProviderTimeout = 0, LeaseDuration = 0, RetryDelay = 0, LeaderTTL = 0, LeaderLockKey = []\<rparr>"

definition demo_dict :: dict_Registrant where
  "demo_dict = \<lparr>dr_config = dict_defaults demo_dict_config, dr_locker = False, dr_started = False\<rparr>"

theorem dictionary_session_clean_witness:
  "\<exists>mid. fst (runSession demo_dict True (Inr (''p1'', ''tok'')) [HeartbeatTick None, ExtendTick None, ContextDone]) =
     snd (dict_register (Inr (''p1'', ''tok'')) demo_dict) # mid @ [UnregisterProvider ''p1'' ''tok'', UnlockLeadership]"
proof -
  let ?ev = "[HeartbeatTick None, ExtendTick None, ContextDone]"
  have "runSession demo_dict True (Inr (''p1'', ''tok'')) ?ev =
      (fst (runSession demo_dict True (Inr (''p1'', ''tok'')) ?ev), True, False)"
    by (simp add: runSession_def dict_register_def Let_def)
  from dictionary_session_clean[OF refl _ _ this] show ?thesis by auto
qed

theorem dictionary_renews_in_time_witness:
  "snd (dict_register (Inl (Msg ''down'')) demo_dict) = RegisterProvider ''shop'' ''shop:80'' [''orders''] 0 3000 60 \<and>
   3 * heartbeatInterval demo_dict \<le> 60 * Second"
proof -
  have n: "New_dict demo_dict_config True False = Inr demo_dict" by code_simp
  have c: "3 * CallTimeout (dr_config demo_dict) \<le> max_int64" by code_simp
  have e: "60 = nat (LeaseDuration (dr_config demo_dict) div Second)" "LeaseDuration (dr_config demo_dict) mod Second = 0"
    "nat (ProviderTimeout (dr_config demo_dict) div Millisecond) = 3000"
    by (simp_all add: demo_dict_def dict_defaults_def demo_dict_config_def duration_defs)
  show ?thesis
    using dictionary_renews_in_time[OF n c e(1), of "Inl (Msg ''down'')"] e(2,3) by (simp add: demo_dict_config_def)
qed

text \<open>A lease that is no whole number of seconds: three intervals are longer than what was asked for.\<close>

lemma dictionary_lease_rounded:
  "\<exists>r. New_dict (demo_dict_config\<lparr>LeaseDuration := 15900 * Millisecond\<rparr>) True False = Inr r \<and>
     durationSeconds (LeaseDuration (dr_config r)) = 15 \<and> 15 * Second < 3 * heartbeatInterval r"
proof -
  let ?r = "projr (New_dict (demo_dict_config\<lparr>LeaseDuration := 15900 * Millisecond\<rparr>) True False)"
  have "New_dict (demo_dict_config\<lparr>LeaseDuration := 15900 * Millisecond\<rparr>) True False = Inr ?r"
    "LeaseDuration (dr_config ?r) = 15900 * Millisecond" by code_simp+
  then show ?thesis by (intro exI[of _ ?r]) (simp add: durationSeconds_exact heartbeatInterval_def go_div_nonneg duration_defs)
qed

theorem dictionary_gives_up_witness:
  "supervise demo_dict [\<lparr>dd_done = False, dd_lock = Inr False, dd_response = Inl (Msg ''down''), dd_events = [], dd_waited = True\<rparr>] =
     ([snd (dict_register (Inl (Msg ''down'')) demo_dict)], True, False)"
  using dictionary_gives_up[of demo_dict "\<lparr>dd_done = False, dd_lock = Inr False, dd_response = Inl (Msg ''down''), dd_events = [], dd_waited = True\<rparr>"
      "Msg ''down''" "[]"]
  by (simp add: demo_dict_def)

end
