(* ===== verification/Dynamic_GRPC.thy ===== *)
theory Dynamic_GRPC
  imports Go_Text
begin

text \<open>
  Dynamic invocation of unary gRPC methods (\<open>src/dynamicgrpc/invoker.go\<close>), and the registry of
  application error codes (\<open>src/errorcode/code.go\<close>). The connection registry, server reflection,
  the JSON codec and the call itself belong to other modules: they are a record of their answers. A
  function answers with its result and the list of what it did to the reflection client and the upstream.
\<close>

definition ErrUpstreamNotConfigured :: goerr where
  "ErrUpstreamNotConfigured = Sentinel ''gRPC upstream is not configured''"

text \<open>A symbol found by reflection: a method, with whether each side streams and its input type, or something else.\<close>

datatype 't symbol = MethodSymbol bool bool 't | OtherSymbol

record rpc_result =
  rr_status :: "goerr option"
  NumResponses :: int
  rr_output :: string

record ('c, 't) grpcurl =
  GRPC :: "string \<Rightarrow> 'c option"
  FindSymbol :: "'c \<Rightarrow> string \<Rightarrow> goerr + 't symbol"
  RequestParser :: "'c \<Rightarrow> string \<Rightarrow> goerr option"
  Next :: "'c \<Rightarrow> string \<Rightarrow> nat \<Rightarrow> 't \<Rightarrow> goerr option"
  io_EOF :: goerr
  InvokeRPC :: "'c \<Rightarrow> string \<Rightarrow> string \<Rightarrow> goerr + rpc_result"

text \<open>\<open>Next c text n t\<close> is what the parser of a text answers when asked for its message number \<open>n\<close>.\<close>

datatype 'c dg_action = OpenReflection 'c | ResetReflection | CallUpstream 'c string

definition New_invoker :: "'i option \<Rightarrow> goerr + 'i" where
  "New_invoker registry = (case registry of None \<Rightarrow> Inl (Msg ''gRPC connection registry is required'') | Some r \<Rightarrow> Inr r)"

definition ValidFullMethod :: "string \<Rightarrow> bool" where
  "ValidFullMethod v =
     (let parts = Split (CHR ''/'') (TrimPrefix1 (CHR ''/'') (TrimSpace v))
      in length parts = 2 \<and> CHR ''.'' \<in> set (parts ! 0) \<and> parts ! 1 \<noteq> [])"

text \<open>\<open>strings.Replace(s, "/", ".", 1)\<close>\<close>

fun replaceFirst :: "string \<Rightarrow> string" where
  "replaceFirst [] = []"
| "replaceFirst (c # cs) = (if c = CHR ''/'' then CHR ''.'' # cs else c # replaceFirst cs)"

definition symbolName :: "string \<Rightarrow> string" where
  "symbolName fullMethod = replaceFirst (TrimPrefix1 (CHR ''/'') (TrimSpace fullMethod))"

definition unaryMethod :: "('c, 't) grpcurl \<Rightarrow> 'c \<Rightarrow> string \<Rightarrow> goerr + 't" where
  "unaryMethod L source fullMethod =
     (case FindSymbol L source (symbolName fullMethod) of
        Inl e \<Rightarrow> Inl (Wrap (''resolve gRPC method '' @ quoted fullMethod) e)
      | Inr (MethodSymbol clientStreaming serverStreaming input) \<Rightarrow>
          if clientStreaming \<or> serverStreaming then Inl (Msg (''gRPC target '' @ quoted fullMethod @ '' must be a unary method''))
          else Inr input
      | Inr OtherSymbol \<Rightarrow> Inl (Msg (''gRPC target '' @ quoted fullMethod @ '' must be a unary method'')))"

definition resolve :: "('c, 't) grpcurl \<Rightarrow> string \<Rightarrow> string \<Rightarrow> (goerr + 'c) \<times> 'c dg_action list" where
  "resolve L upstream fullMethod =
     (case GRPC L (TrimSpace upstream) of
        None \<Rightarrow> (Inl (Ext (''gRPC upstream is not configured: '' @ upstream) [ErrUpstreamNotConfigured]), [])
      | Some connection \<Rightarrow>
          if \<not> ValidFullMethod fullMethod then (Inl (Msg (''invalid full gRPC method '' @ quoted fullMethod)), [])
          else
            (case unaryMethod L connection fullMethod of
               Inl e \<Rightarrow> (Inl (Wrap (''resolve gRPC method '' @ quoted fullMethod @ '' through reflection'') e),
                         [OpenReflection connection, ResetReflection])
             | Inr t \<Rightarrow> (Inr connection, [OpenReflection connection])))"

definition Validate :: "('c, 't) grpcurl \<Rightarrow> string \<Rightarrow> string \<Rightarrow> string \<Rightarrow> goerr option \<times> 'c dg_action list" where
  "Validate L upstream fullMethod requestJSON =
     (case resolve L upstream fullMethod of
        (Inl e, acts) \<Rightarrow> (Some e, acts)
      | (Inr source, acts) \<Rightarrow>
          (case RequestParser L source requestJSON of
             Some e \<Rightarrow> Some (Wrap ''create dynamic JSON parser'' e)
           | None \<Rightarrow>
               (case unaryMethod L source fullMethod of
                  Inl e \<Rightarrow> Some e
                | Inr input \<Rightarrow>
                    (case Next L source requestJSON 0 input of
                       Some e \<Rightarrow> Some (Wrap (''decode request JSON for '' @ quoted fullMethod) e)
                     | None \<Rightarrow>
                         (case Next L source requestJSON 1 input of
                            Some e \<Rightarrow>
                              if errors_Is e (io_EOF L) then None
                              else Some (Msg (''request JSON for '' @ quoted fullMethod @ '' must contain exactly one message''))
                          | None \<Rightarrow> Some (Msg (''request JSON for '' @ quoted fullMethod @ '' must contain exactly one message''))))),
           acts @ [ResetReflection]))"

definition Invoke :: "('c, 't) grpcurl \<Rightarrow> string \<Rightarrow> string \<Rightarrow> string \<Rightarrow> (goerr + string) \<times> 'c dg_action list" where
  "Invoke L upstream fullMethod requestJSON =
     (case resolve L upstream fullMethod of
        (Inl e, acts) \<Rightarrow> (Inl e, acts)
      | (Inr connection, acts) \<Rightarrow>
          (case RequestParser L connection requestJSON of
             Some e \<Rightarrow> (Inl (Wrap ''create dynamic request codec'' e), acts @ [ResetReflection])
           | None \<Rightarrow>
               (let target = TrimPrefix1 (CHR ''/'') fullMethod
                in (case InvokeRPC L connection target requestJSON of
                      Inl e \<Rightarrow> Inl (Wrap (''invoke dynamic gRPC method '' @ quoted fullMethod) e)
                    | Inr r \<Rightarrow>
                        (case rr_status r of
                           Some e \<Rightarrow> Inl e
                         | None \<Rightarrow>
                             if NumResponses r \<noteq> 1
                             then Inl (Msg (''unary gRPC method '' @ quoted fullMethod @ '' returned '' @ Itoa (NumResponses r) @ '' responses''))
                             else Inr (TrimSpace (rr_output r))),
                    acts @ [CallUpstream connection target, ResetReflection]))))"

section \<open>Correctness\<close>

lemma replaceFirst_append: "CHR ''/'' \<notin> set a \<Longrightarrow> replaceFirst (a @ CHR ''/'' # b) = a @ CHR ''.'' # b"
  by (induction a) auto

lemma Split_two:
  "Split c s = [a, b] \<Longrightarrow> s = a @ c # b \<and> c \<notin> set a \<and> c \<notin> set b"
proof -
  assume s: "Split c s = [a, b]"
  have f: "c \<notin> set a" "c \<notin> set b" using Split_parts_free[of _ c s] s by auto
  have "Split c s = Split c (a @ c # b)" using f s by (simp add: Split_append Split_free)
  then have "s = a @ c # b" by (simp only: Split_eq_iff)
  then show ?thesis using f by simp
qed

lemma ValidFullMethod_iff:
  "ValidFullMethod v \<longleftrightarrow>
     (\<exists>svc m. TrimPrefix1 (CHR ''/'') (TrimSpace v) = svc @ CHR ''/'' # m \<and> CHR ''/'' \<notin> set svc \<and> CHR ''/'' \<notin> set m \<and>
        CHR ''.'' \<in> set svc \<and> m \<noteq> [])"
proof
  assume v: "ValidFullMethod v"
  then obtain a b where s: "Split (CHR ''/'') (TrimPrefix1 (CHR ''/'') (TrimSpace v)) = [a, b]" "CHR ''.'' \<in> set a" "b \<noteq> []"
    by (auto simp: ValidFullMethod_def Let_def length_Suc_conv numeral_2_eq_2)
  then show "\<exists>svc m. TrimPrefix1 (CHR ''/'') (TrimSpace v) = svc @ CHR ''/'' # m \<and> CHR ''/'' \<notin> set svc \<and> CHR ''/'' \<notin> set m \<and>
        CHR ''.'' \<in> set svc \<and> m \<noteq> []"
    using Split_two[OF s(1)] by blast
next
  assume "\<exists>svc m. TrimPrefix1 (CHR ''/'') (TrimSpace v) = svc @ CHR ''/'' # m \<and> CHR ''/'' \<notin> set svc \<and> CHR ''/'' \<notin> set m \<and>
        CHR ''.'' \<in> set svc \<and> m \<noteq> []"
  then show "ValidFullMethod v" by (auto simp: ValidFullMethod_def Split_append Split_free)
qed

lemma resolve_Inr:
  "resolve L upstream fullMethod = (Inr connection, acts) \<Longrightarrow>
     GRPC L (TrimSpace upstream) = Some connection \<and> ValidFullMethod fullMethod \<and> acts = [OpenReflection connection] \<and>
     (\<exists>input. FindSymbol L connection (symbolName fullMethod) = Inr (MethodSymbol False False input))"
  by (auto simp: resolve_def unaryMethod_def split: option.splits if_splits sum.splits symbol.splits)

lemma resolve_Inl:
  "resolve L upstream fullMethod = (Inl e, acts) \<Longrightarrow> acts = [] \<or> (\<exists>connection. GRPC L (TrimSpace upstream) = Some connection \<and> acts = [OpenReflection connection, ResetReflection])"
  by (auto simp: resolve_def split: option.splits if_splits sum.splits)

text \<open>C40. Only resolved unary methods of configured upstreams are called. Whatever the upstream and the libraries
  answer, an invocation asks reflection and calls only on the connection the registry has for the upstream,
  calls at most once, and does so only when the given name, without the white space around it, reads as a dotted
  service and a method whose symbol, service and method joined by a dot, reflection on that connection found
  to be unary. The name that is called is the given one with its white space kept: it is that service and method
  when the given name has no white space around it. A result is returned only for exactly one
  response without a status error, of that call; and the reflection client is reset whenever it was
  opened.\<close>

theorem dyngrpc_guarded:
  assumes "Invoke L upstream fullMethod requestJSON = (result, acts)"
  shows "(acts = [] \<or>
      (\<exists>connection. GRPC L (TrimSpace upstream) = Some connection \<and>
        (acts = [OpenReflection connection, ResetReflection] \<or>
         (\<exists>svc m input.
           acts = [OpenReflection connection, CallUpstream connection (TrimPrefix1 (CHR ''/'') fullMethod), ResetReflection] \<and>
           TrimPrefix1 (CHR ''/'') (TrimSpace fullMethod) = svc @ CHR ''/'' # m \<and> CHR ''.'' \<in> set svc \<and> m \<noteq> [] \<and>
           FindSymbol L connection (svc @ CHR ''.'' # m) = Inr (MethodSymbol False False input) \<and>
           (TrimSpace fullMethod = fullMethod \<longrightarrow> TrimPrefix1 (CHR ''/'') fullMethod = svc @ CHR ''/'' # m))))) \<and>
    (\<forall>out. result = Inr out \<longrightarrow>
      (\<exists>connection r. CallUpstream connection (TrimPrefix1 (CHR ''/'') fullMethod) \<in> set acts \<and>
         InvokeRPC L connection (TrimPrefix1 (CHR ''/'') fullMethod) requestJSON = Inr r \<and>
         rr_status r = None \<and> NumResponses r = 1 \<and> out = TrimSpace (rr_output r)))"
proof (cases "resolve L upstream fullMethod")
  case (Pair res acts0)
  show ?thesis
  proof (cases res)
    case (Inl e)
    then show ?thesis using assms Pair resolve_Inl[of L upstream fullMethod e acts0] by (auto simp: Invoke_def)
  next
    case (Inr connection)
    note r = resolve_Inr[OF Pair[unfolded Inr]]
    obtain svc m where n: "TrimPrefix1 (CHR ''/'') (TrimSpace fullMethod) = svc @ CHR ''/'' # m" "CHR ''/'' \<notin> set svc"
        "CHR ''.'' \<in> set svc" "m \<noteq> []"
      using r ValidFullMethod_iff by blast
    have s: "symbolName fullMethod = svc @ CHR ''.'' # m" using n by (simp add: symbolName_def replaceFirst_append)
    show ?thesis
    proof (cases "RequestParser L connection requestJSON")
      case (Some e)
      then show ?thesis using assms Pair Inr r by (auto simp: Invoke_def)
    next
      case None
      then have a: "acts = [OpenReflection connection, CallUpstream connection (TrimPrefix1 (CHR ''/'') fullMethod), ResetReflection]"
        and o: "\<forall>out. result = Inr out \<longrightarrow>
          (\<exists>r. InvokeRPC L connection (TrimPrefix1 (CHR ''/'') fullMethod) requestJSON = Inr r \<and>
             rr_status r = None \<and> NumResponses r = 1 \<and> out = TrimSpace (rr_output r))"
        using assms Pair Inr r by (auto simp: Invoke_def Let_def split: sum.splits option.splits if_splits)
      obtain input where f: "FindSymbol L connection (svc @ CHR ''.'' # m) = Inr (MethodSymbol False False input)" using r s by auto
      have t: "TrimSpace fullMethod = fullMethod \<longrightarrow> TrimPrefix1 (CHR ''/'') fullMethod = svc @ CHR ''/'' # m" using n(1) by metis
      have "CallUpstream connection (TrimPrefix1 (CHR ''/'') fullMethod) \<in> set acts" using a by simp
      then show ?thesis
        using o by (intro conjI disjI2 exI[of _ connection] exI[of _ svc] exI[of _ m] exI[of _ input] a n(1,3,4) f t) (use r in blast)+
    qed
  qed
qed

definition demo_grpcurl :: "(unit, unit) grpcurl" where
  "demo_grpcurl =
     \<lparr>GRPC = (\<lambda>u. if u = ''shop'' then Some () else None), FindSymbol = (\<lambda>_ _. Inr (MethodSymbol False False ())),
      RequestParser = (\<lambda>_ _. None), Next = (\<lambda>_ _ n _. if n = 0 then None else Some (Ext ''EOF'' [])), io_EOF = Ext ''EOF'' [],
      InvokeRPC = (\<lambda>_ target _. if target = ''a.S/M'' then Inr \<lparr>rr_status = None, NumResponses = 1, rr_output = ''{} ''\<rparr>
        else Inl (Msg ''unknown method''))\<rparr>"

theorem dyngrpc_guarded_witness:
  "Invoke demo_grpcurl ''shop'' ''/a.S/M'' ''{}'' = (Inr ''{}'', [OpenReflection (), CallUpstream () ''a.S/M'', ResetReflection]) \<and>
   (\<exists>r. InvokeRPC demo_grpcurl () ''a.S/M'' ''{}'' = Inr r \<and> rr_status r = None)"
proof -
  have i: "Invoke demo_grpcurl ''shop'' ''/a.S/M'' ''{}'' = (Inr ''{}'', [OpenReflection (), CallUpstream () ''a.S/M'', ResetReflection])"
    by code_simp
  have t: "TrimPrefix1 (CHR ''/'') ''/a.S/M'' = ''a.S/M''" by code_simp
  show ?thesis using dyngrpc_guarded[OF i] i unfolding t by auto
qed

text \<open>
  A name with a space before it passes \<open>Validate\<close>, which trims it, but is called untrimmed.
\<close>

lemma untrimmed_method_is_called:
  "fst (Validate demo_grpcurl ''shop'' '' /a.S/M'' ''{}'') = None \<and>
   snd (Invoke demo_grpcurl ''shop'' '' /a.S/M'' ''{}'') = [OpenReflection (), CallUpstream () '' /a.S/M'', ResetReflection]"
  by code_simp

section \<open>Error codes\<close>

definition OK :: int where "OK = 0"
definition code_InvalidArgument :: int where "code_InvalidArgument = 10001"
definition code_NotFound :: int where "code_NotFound = 10004"
definition RequestTimeout :: int where "RequestTimeout = 10008"
definition TooManyRequests :: int where "TooManyRequests = 10029"
definition Unauthorized :: int where "Unauthorized = 20001"
definition Forbidden :: int where "Forbidden = 20003"
definition Conflict :: int where "Conflict = 30009"
definition RequestInProgress :: int where "RequestInProgress = 30010"
definition StaleVersion :: int where "StaleVersion = 30011"
definition LockUnavailable :: int where "LockUnavailable = 30012"
definition code_Internal :: int where "code_Internal = 50000"
definition DependencyUnavailable :: int where "DependencyUnavailable = 50003"
definition AuthorizationUnavailable :: int where "AuthorizationUnavailable = 50004"
definition PermissionPolicyMissing :: int where "PermissionPolicyMissing = 50005"

definition Valid_code :: "int \<Rightarrow> bool" where
  "Valid_code c \<longleftrightarrow>
     c \<in> {OK, code_InvalidArgument, code_NotFound, RequestTimeout, TooManyRequests, Unauthorized, Forbidden, Conflict,
          RequestInProgress, StaleVersion, LockUnavailable, code_Internal, DependencyUnavailable, AuthorizationUnavailable,
          PermissionPolicyMissing}"

text \<open>The codes are pairwise different, so a valid code has one meaning.\<close>

lemma codes_distinct:
  "distinct [OK, code_InvalidArgument, code_NotFound, RequestTimeout, TooManyRequests, Unauthorized, Forbidden, Conflict,
     RequestInProgress, StaleVersion, LockUnavailable, code_Internal, DependencyUnavailable, AuthorizationUnavailable,
     PermissionPolicyMissing]"
  by code_simp

end
