(* ===== verification/Outbox_Drain.thy ===== *)
theory Outbox_Drain
  imports Outbox
begin

text \<open>
  Progress of the outbox: while database and bus work, runs of the dispatcher
  (\<open>src/outbox/dispatcher.go\<close>) empty the backlog of due events, a batch per run.
\<close>

definition backlog :: "outbox_row list \<Rightarrow> outbox_row list" where
  "backlog rows = filter (\<lambda>r. published_at r = None) rows"

definition without :: "string set \<Rightarrow> outbox_row list \<Rightarrow> outbox_row list" where
  "without I rows = filter (\<lambda>r. id_col r \<notin> I) rows"

text \<open>Nothing fails: calls of the store and publications succeed.\<close>

definition calm_world :: "outbox_world \<Rightarrow> bool" where
  "calm_world w \<longleftrightarrow> w_envs w = [] \<and> w_pubs w = []"

lemma without_without [simp]: "without I (without J rows) = without (I \<union> J) rows"
  by (auto simp: without_def intro!: filter_cong)

lemma backlog_settled:
  "backlog (sql_update (is_pending i) (settle now delay PubOk) rows) = without {i} (backlog rows)"
  by (induction rows) (auto simp: backlog_def without_def sql_update_def is_pending_def settle_def)

lemma backlog_leased:
  "i \<in> I \<Longrightarrow> without I (backlog (sql_update (is_pending i) (leaseRow now lease) rows)) = without I (backlog rows)"
  by (induction rows) (auto simp: backlog_def without_def sql_update_def is_pending_def leaseRow_def)

lemma leaseAll_backlog:
  assumes "leaseAll u s E lease sel rows = Inr (evs, rows')" "ID ` set evs \<subseteq> I"
  shows "without I (backlog rows') = without I (backlog rows)"
  using assms
proof (induction sel arbitrary: rows evs)
  case (Cons r sel)
  let ?rows = "sql_update (is_pending (id_col r)) (leaseRow (s_now E) lease) rows"
  from Cons.prems(1) obtain env evs1 where e: "leaseAll u s E lease sel ?rows = Inr (evs1, rows')"
      "evs = \<lparr>ID = id_col r, Subject = subject r, Envelope = Some env\<rparr> # evs1"
    by (auto split: sum.splits option.splits)
  then have "ID ` set evs1 \<subseteq> I" "id_col r \<in> I" using Cons.prems(2) by auto
  then show ?case using Cons.IH[OF e(1)] by (simp add: backlog_leased)
qed simp

lemma leaseAll_succeeds:
  assumes "\<forall>r \<in> set sel. \<exists>env. u (envelope r) = Inr env" "\<And>i. s_leaseErr E i = None"
  shows "\<exists>evs rows'. leaseAll u s E lease sel rows = Inr (evs, rows')"
  using assms(1)
proof (induction sel arbitrary: rows)
  case (Cons r sel)
  obtain env where "u (envelope r) = Inr env" using Cons.prems by auto
  moreover obtain evs rows' where
    "leaseAll u s E lease sel (sql_update (is_pending (id_col r)) (leaseRow (s_now E) lease) rows) = Inr (evs, rows')"
    using Cons.IH Cons.prems by (meson list.set_intros(2))
  ultimately show ?case using assms(2) by simp
qed simp

lemma dispatch_succeeds:
  assumes "calm_world w" "distinct (map ID evs)" "\<forall>ev \<in> set evs. sql_affected (is_pending (ID ev)) (o_rows (w_sys w)) = 1"
  shows "\<exists>w'. dispatchAll (world_dispatcher u s batch lease delay) (\<lambda>_. None) evs n [] w = ((n + int (length evs), None), w') \<and>
    calm_world w' \<and> w_clock w' = w_clock w \<and> backlog (o_rows (w_sys w')) = without (ID ` set evs) (backlog (o_rows (w_sys w)))"
  using assms
proof (induction evs arbitrary: w n)
  case Nil
  then show ?case by (simp add: without_def errors_Join_def)
next
  case (Cons ev evs)
  define w1 where "w1 = w\<lparr>w_pubs := [], w_sys := (w_sys w)\<lparr>sent := sent (w_sys w) @ [the (Envelope ev)],
      o_rows := sql_update (is_pending (ID ev)) (settle (w_clock w) delay PubOk) (o_rows (w_sys w))\<rparr>, w_envs := []\<rparr>"
  have w: "w_envs w = []" "w_pubs w = []" using Cons.prems(1) by (simp_all add: calm_world_def)
  have one: "sql_affected (is_pending (ID ev)) (o_rows (w_sys w)) = 1" using Cons.prems(3) by simp
  have step: "dispatchAll (world_dispatcher u s batch lease delay) (\<lambda>_. None) (ev # evs) n [] w =
      dispatchAll (world_dispatcher u s batch lease delay) (\<lambda>_. None) evs (n + 1) [] w1"
    using w calm_MarkPublished[OF one, of s "w_clock w" delay]
    by (simp add: world_publish_def world_store_def next_env_def w1_def Let_def)
  have "ID x \<noteq> ID ev" if "x \<in> set evs" for x using that Cons.prems(2) by (auto simp: image_iff)
  then have "\<forall>x \<in> set evs. sql_affected (is_pending (ID x)) (o_rows (w_sys w1)) = 1"
    using Cons.prems(3) by (auto simp: w1_def pending_other[OF _ keeps_settle])
  moreover have "calm_world w1" "w_clock w1 = w_clock w" using w by (simp_all add: calm_world_def w1_def)
  moreover have "backlog (o_rows (w_sys w1)) = without {ID ev} (backlog (o_rows (w_sys w)))"
    by (simp add: w1_def backlog_settled)
  ultimately show ?case
    using Cons.IH[of w1 "n + 1"] Cons.prems(2) step by (auto simp: add.assoc insert_commute)
qed


text \<open>Every unpublished event may be claimed now.\<close>

definition due :: "outbox_world \<Rightarrow> bool" where
  "due w \<longleftrightarrow> (\<forall>r \<in> set (backlog (o_rows (w_sys w))). available_at r \<le> w_clock w)"

lemma length_without:
  assumes "distinct (map id_col rows)" "I \<subseteq> id_col ` set rows"
  shows "length (without I rows) = length rows - card I"
proof -
  have "length (filter (\<lambda>r. id_col r \<in> I) rows) = card (set (map id_col (filter (\<lambda>r. id_col r \<in> I) rows)))"
    using assms(1) by (metis distinct_card distinct_map_filter length_map)
  also have "set (map id_col (filter (\<lambda>r. id_col r \<in> I) rows)) = I" using assms(2) by auto
  finally show ?thesis
    using sum_length_filter_compl[of "\<lambda>r. id_col r \<in> I" rows] by (simp add: without_def)
qed

lemma Claim_progress:
  assumes "rows_tell u told rows" "\<forall>r \<in> set (backlog rows). available_at r \<le> now"
  obtains evs rows1 where "Claim u s (calm_env now) batch lease rows = (Inr evs, rows1)"
    "distinct (map ID evs)" "ID ` set evs \<subseteq> id_col ` set (backlog rows)" "length evs = min (nat batch) (length (backlog rows))"
    "\<forall>ev \<in> set evs. sql_affected (is_pending (ID ev)) rows1 = 1"
    "without (ID ` set evs) (backlog rows1) = without (ID ` set evs) (backlog rows)"
proof -
  let ?sel = "sql_select (claimable now []) (\<lambda>r. (available_at r, o_created_at r)) (nat batch) rows"
  have dist: "distinct (map id_col rows)" using assms(1) by (simp add: rows_tell_def)
  have cl: "filter (claimable now []) rows = backlog rows"
    using assms(2) unfolding backlog_def by (intro filter_cong) (auto simp: claimable_def)
  have sel: "set ?sel \<subseteq> {r \<in> set rows. claimable now [] r}" by (rule set_sql_select)
  then have "\<forall>r \<in> set ?sel. \<exists>env. u (envelope r) = Inr env" using assms(1) by (fastforce simp: rows_tell_def tells_def)
  then obtain evs rows1 where l: "leaseAll u s (calm_env now) lease ?sel rows = Inr (evs, rows1)"
    using leaseAll_succeeds[of ?sel u "calm_env now" s lease rows] by (auto simp: calm_env_def)
  have ids: "map id_col ?sel = map ID evs" by (rule leaseAll_ids[OF l])
  then have I: "ID ` set evs = id_col ` set ?sel" by (metis list.set_map)
  have claim: "Claim u s (calm_env now) batch lease rows = (Inr evs, rows1)"
    using l by (simp add: Claim_def calm_env_def setWorkerAuditActor_def)
  have sub: "ID ` set evs \<subseteq> id_col ` set (backlog rows)" unfolding I using sel by (auto simp: backlog_def claimable_def)
  have "sql_affected (is_pending (ID ev)) rows1 = 1" if "ev \<in> set evs" for ev
  proof (rule one_pending)
    show "distinct (map id_col rows1)" using leaseAll_kept[OF l] dist by simp
    have "ID ev \<in> id_col ` set (backlog rows)" using sub that by blast
    then show "ID ev \<in> pending_ids rows1" using leaseAll_kept[OF l] by (simp add: backlog_def pending_ids_def)
  qed
  then have one: "\<forall>ev \<in> set evs. sql_affected (is_pending (ID ev)) rows1 = 1" by blast
  have "length evs = length ?sel" using arg_cong[OF ids, of length] by simp
  then have len: "length evs = min (nat batch) (length (backlog rows))" by (simp add: length_sql_select sql_affected_def cl)
  have "distinct (map ID evs)" unfolding ids[symmetric] by (rule sql_select_distinct[OF dist])
  then show ?thesis by (rule that[OF claim _ sub len one leaseAll_backlog[OF l subset_refl]])
qed

lemma RunOnce_progress:
  assumes "sys_inv u (w_sys w)" "calm_world w" "due w"
  shows "\<exists>n w'. RunOnce_outbox (world_dispatcher u s batch lease delay) (\<lambda>_. None) w = ((n, None), w') \<and>
    calm_world w' \<and> due w' \<and> length (backlog (o_rows (w_sys w'))) = length (backlog (o_rows (w_sys w))) - nat batch"
proof -
  let ?rows = "o_rows (w_sys w)"
  have tell: "rows_tell u (added (w_sys w)) ?rows" using assms(1) by (simp add: sys_inv_def)
  have "\<forall>r \<in> set (backlog ?rows). available_at r \<le> w_clock w" using assms(3) by (simp add: due_def)
  from Claim_progress[OF tell this] obtain evs rows1 where
    c: "Claim u s (calm_env (w_clock w)) batch lease ?rows = (Inr evs, rows1)"
    "distinct (map ID evs)" "ID ` set evs \<subseteq> id_col ` set (backlog ?rows)" "length evs = min (nat batch) (length (backlog ?rows))"
    "\<forall>ev \<in> set evs. sql_affected (is_pending (ID ev)) rows1 = 1"
    "without (ID ` set evs) (backlog rows1) = without (ID ` set evs) (backlog ?rows)" .
  define w1 where "w1 = w\<lparr>w_sys := (w_sys w)\<lparr>o_rows := rows1, in_hand := in_hand (w_sys w) @ evs\<rparr>, w_envs := []\<rparr>"
  have claim: "StClaim (world_store u s) batch lease w = (Inr evs, w1)"
    using assms(2) c(1) by (simp add: world_store_def next_env_def calm_world_def w1_def)
  have "calm_world w1" "w_clock w1 = w_clock w" "o_rows (w_sys w1) = rows1"
    using assms(2) by (simp_all add: w1_def calm_world_def)
  with dispatch_succeeds[of w1 evs u s batch lease delay 0] c(2,5) obtain w' where
    w': "dispatchAll (world_dispatcher u s batch lease delay) (\<lambda>_. None) evs 0 [] w1 = ((int (length evs), None), w')"
      "calm_world w'" "w_clock w' = w_clock w" "backlog (o_rows (w_sys w')) = without (ID ` set evs) (backlog rows1)" by auto
  have b: "backlog (o_rows (w_sys w')) = without (ID ` set evs) (backlog ?rows)" using w'(4) c(6) by simp
  have "distinct (map id_col (backlog ?rows))" using tell by (simp add: backlog_def rows_tell_def distinct_map_filter)
  moreover have "card (ID ` set evs) = length evs" using c(2) by (metis distinct_card length_map list.set_map)
  ultimately have "length (backlog (o_rows (w_sys w'))) = length (backlog ?rows) - nat batch"
    unfolding b using length_without[OF _ c(3)] c(4) by (simp add: min_def)
  moreover have "due w'" using assms(3) w'(3) unfolding due_def b by (simp add: without_def)
  moreover have "RunOnce_outbox (world_dispatcher u s batch lease delay) (\<lambda>_. None) w = ((int (length evs), None), w')"
    using claim w'(1) by (simp add: RunOnce_outbox_def)
  ultimately show ?thesis using w'(2) by blast
qed

fun dispatchRuns :: "outbox_world Dispatcher \<Rightarrow> nat \<Rightarrow> outbox_world \<Rightarrow> outbox_world" where
  "dispatchRuns d 0 w = w"
| "dispatchRuns d (Suc k) w = dispatchRuns d k (snd (RunOnce_outbox d (\<lambda>_. None) w))"

lemma steps_added: "(sys_step marshal unmarshal s)\<^sup>*\<^sup>* S S' \<Longrightarrow> set (added S) \<subseteq> set (added S')"
proof (induction rule: rtranclp_induct)
  case (step S1 S2)
  from step(2) have "set (added S1) \<subseteq> set (added S2)" by cases auto
  with step.IH show ?case by blast
qed simp

lemma empty_backlog_sent:
  assumes "sys_inv unmarshal S" "backlog (o_rows S) = []" "ev \<in> set (added S)"
  shows "the (Envelope ev) \<in> set (sent S)"
proof -
  have "pending_ids (o_rows S) = id_col ` set (backlog (o_rows S))" by (simp add: pending_ids_def backlog_def)
  then show ?thesis using assms by (auto simp: sys_inv_def)
qed

text \<open>C6. A backlog is worked off. Starting from any reachable state of the outbox system, when database and bus work and every
  unpublished event is due, as many runs of the dispatcher as the backlog has batches leave no event unpublished:
  the envelope of every event that was ever added has reached the bus.\<close>

theorem outbox_backlog_drains:
  assumes codec: "\<And>x b. marshal x = Inr b \<Longrightarrow> unmarshal b = Inr x"
    and "(sys_step marshal unmarshal s)\<^sup>*\<^sup>* empty_sys (w_sys w)" "calm_world w" "due w"
    and "length (backlog (o_rows (w_sys w))) \<le> k * nat batch"
  shows "backlog (o_rows (w_sys (dispatchRuns (world_dispatcher unmarshal s batch lease delay) k w))) = [] \<and>
    (\<forall>ev \<in> set (added (w_sys w)).
       the (Envelope ev) \<in> set (sent (w_sys (dispatchRuns (world_dispatcher unmarshal s batch lease delay) k w))))"
  using assms(2-5)
proof (induction k arbitrary: w)
  case 0
  have inv: "sys_inv unmarshal (w_sys w)" using codec 0(1) by (rule reachable_inv)
  show ?case using 0(4) empty_backlog_sent[OF inv] by simp
next
  case (Suc k)
  let ?d = "world_dispatcher unmarshal s batch lease delay"
  have inv: "sys_inv unmarshal (w_sys w)" using codec Suc.prems(1) by (rule reachable_inv)
  from RunOnce_progress[OF inv Suc.prems(2,3), of s batch lease delay] obtain n w' where
    w': "RunOnce_outbox ?d (\<lambda>_. None) w = ((n, None), w')" "calm_world w'" "due w'"
      "length (backlog (o_rows (w_sys w'))) = length (backlog (o_rows (w_sys w))) - nat batch" by blast
  have run: "(sys_step marshal unmarshal s)\<^sup>*\<^sup>* (w_sys w) (w_sys w')"
    using RunOnce_sys[of marshal unmarshal s w batch lease delay "\<lambda>_. None"] w'(1) by simp
  have "length (backlog (o_rows (w_sys w'))) \<le> k * nat batch" using Suc.prems(4) w'(4) by simp
  from Suc.IH[OF rtranclp_trans[OF Suc.prems(1) run] w'(2,3) this] show ?case
    using w'(1) steps_added[OF run] by auto
qed

theorem outbox_backlog_drains_witness:
  "demo_envelope ''e1'' \<in> set (sent (w_sys (dispatchRuns (world_dispatcher demo_unmarshal demo_store 9 30 5) 1
     \<lparr>w_sys = empty_sys\<lparr>o_rows := [demo_outbox_row ''e1'' 1], added := [demo_outbox_event ''e1'']\<rparr>,
      w_envs = [], w_pubs = [], w_clock = 10\<rparr>)))"
proof -
  let ?S = "empty_sys\<lparr>o_rows := [demo_outbox_row ''e1'' 1], added := [demo_outbox_event ''e1'']\<rparr>"
  let ?w = "\<lparr>w_sys = ?S, w_envs = [], w_pubs = [], w_clock = 10\<rparr>"
  have r: "(sys_step demo_marshal demo_unmarshal demo_store)\<^sup>*\<^sup>* empty_sys (w_sys ?w)" using demo_added by simp
  have "calm_world ?w" by (simp add: calm_world_def)
  moreover have "due ?w" "length (backlog (o_rows (w_sys ?w))) \<le> 1 * nat 9"
    by (simp_all add: due_def backlog_def demo_outbox_row_def new_row_def)
  ultimately show ?thesis
    using outbox_backlog_drains[OF demo_codec r, of 1 9 30 5] by (simp add: demo_outbox_event_def)
qed

end
