(* ===== verification/Event_Flow.thy ===== *)
theory Event_Flow
  imports Inbox Outbox EventBus
begin

text \<open>
  Events from end to end: the outbox, the bus and the inbox put together. A consumer of the bus whose handler runs through the inbox, the way the packages are meant to be used
  together: the key is the durable name with the event's id, and what the inbox returns is what the bus
  takes for the handler's result. A consumption gives the surroundings of one delivery of a message.
\<close>

record consumption =
  cn_bus :: bus_env
  cn_inbox :: inbox_env
  cn_msg :: consumerMessage

definition inboxKey :: "string \<Rightarrow> EventEnvelope \<Rightarrow> Key" where
  "inboxKey durable envl = \<lparr>Consumer = durable, EventID = EventId envl\<rparr>"

definition handledEvents :: "action list \<Rightarrow> EventEnvelope list" where
  "handledEvents acts = concat (map (\<lambda>a. case a of Handled envl \<Rightarrow> [envl] | _ \<Rightarrow> []) acts)"

definition consumeOne ::
  "consumerProcessor \<Rightarrow> string \<Rightarrow> (EventEnvelope \<Rightarrow> 'd handler) \<Rightarrow> consumption \<Rightarrow> 'd inbox_db \<Rightarrow> action list \<times> 'd inbox_db" where
  "consumeOne p actor h x db =
     (let run = (\<lambda>envl. Process (cn_inbox x) (inboxKey (cp_durable p) envl) actor (Some (h envl)) db);
          acts = process (cn_bus x) (p\<lparr>cp_handler := (\<lambda>ctx envl. snd (fst (run envl)))\<rparr>) (cn_msg x)
      in (acts, case handledEvents acts of [] \<Rightarrow> db | envl # _ \<Rightarrow> snd (run envl)))"

fun consumeAll ::
  "consumerProcessor \<Rightarrow> string \<Rightarrow> (EventEnvelope \<Rightarrow> 'd handler) \<Rightarrow> consumption list \<Rightarrow> 'd inbox_db \<Rightarrow> action list list \<times> 'd inbox_db" where
  "consumeAll p actor h [] db = ([], db)"
| "consumeAll p actor h (x # xs) db =
     (let (acts, db1) = consumeOne p actor h x db; (rest, db2) = consumeAll p actor h xs db1 in (acts # rest, db2))"

definition decoded :: "consumption \<Rightarrow> goerr + EventEnvelope" where
  "decoded x = unmarshalEnvelope (cn_bus x) (msg_Data (cn_msg x))"

text \<open>The domain after the handlers of a list of events, all successful.\<close>

fun effects :: "(EventEnvelope \<Rightarrow> 'd handler) \<Rightarrow> Event list \<Rightarrow> 'd \<Rightarrow> 'd option" where
  "effects h [] d = Some d"
| "effects h (e # es) d = (case h (the (Envelope e)) d of (None, d') \<Rightarrow> effects h es d' | (Some err, d') \<Rightarrow> None)"

lemma handledEvents_simps [simp]:
  "handledEvents [] = []" "handledEvents (a # acts) = (case a of Handled envl \<Rightarrow> [envl] | _ \<Rightarrow> []) @ handledEvents acts"
  "handledEvents (xs @ ys) = handledEvents xs @ handledEvents ys"
  by (simp_all add: handledEvents_def)

lemma handledEvents_quiet [simp]:
  "handledEvents (report p e) = []" "handledEvents (retry p m n) = []" "handledEvents (terminate p m r) = []"
  "handledEvents (snd (publishDeadLetter E p m n envl e b)) = []"
  by (auto simp: report_def retry_def terminate_def publishDeadLetter_def Let_def split: option.splits sum.splits prod.splits)

lemma process_handled:
  "handledEvents (process E p m) =
     (case (msg_Metadata m, unmarshalEnvelope E (msg_Data m)) of (Inr n, Inr envl) \<Rightarrow> [envl] | _ \<Rightarrow> [])"
proof -
  have q: "handledEvents tr = []" if "publishDeadLetter E p m n envl e b = (r, tr)" for n envl e b r tr
    using handledEvents_quiet(4)[of E p m n envl e b] that by simp
  show ?thesis
    by (auto simp: process_def Let_def q split: sum.splits option.splits prod.splits)
qed


lemma process_acked:
  assumes "Acked \<in> set (process E p m)"
  shows "\<exists>n envl. msg_Metadata m = Inr n \<and> unmarshalEnvelope E (msg_Data m) = Inr envl \<and> cp_handler p (message_ctx p envl) envl = None"
proof -
  have q: "Acked \<notin> set tr" if "publishDeadLetter E p m n envl e b = (r, tr)" for n envl e b r tr
    using that by (auto simp: publishDeadLetter_def Let_def split: sum.splits prod.splits)
  show ?thesis
    using assms
    by (cases rule: process_cases[of m E p])
      (auto simp: report_def retry_def terminate_def Let_def dest: q split: option.splits if_splits)
qed

definition delivery_of :: "consumerProcessor \<Rightarrow> string \<Rightarrow> (EventEnvelope \<Rightarrow> 'd handler) \<Rightarrow> consumption \<Rightarrow> EventEnvelope \<Rightarrow> 'd delivery" where
  "delivery_of p actor h x envl =
     \<lparr>d_env = cn_inbox x, d_key = inboxKey (cp_durable p) envl, d_actor = actor, d_handler = Some (h envl)\<rparr>"

text \<open>A consumption is a delivery to the inbox or nothing at all, and is acknowledged only for a delivery without error.\<close>

lemma consumeOne_cases:
  assumes "consumeOne p actor h x db = (acts, db')"
  obtains (skipped) "db' = db" "Acked \<notin> set acts"
  | (delivered) envl res where "decoded x = Inr envl" "deliver_all [delivery_of p actor h x envl] db = ([res], db')"
      "Acked \<in> set acts \<longrightarrow> snd res = None"
proof (cases "\<exists>n envl. msg_Metadata (cn_msg x) = Inr n \<and> decoded x = Inr envl")
  case True
  then obtain n envl where m: "msg_Metadata (cn_msg x) = Inr n" "decoded x = Inr envl" by blast
  obtain res db1 where run: "Process (cn_inbox x) (inboxKey (cp_durable p) envl) actor (Some (h envl)) db = (res, db1)" by fastforce
  have a: "snd res = None" if "Acked \<in> set acts"
    using process_acked[of "cn_bus x" _ "cn_msg x"] that assms m run by (fastforce simp: consumeOne_def Let_def decoded_def)
  have "db' = db1" using assms m run by (auto simp: consumeOne_def Let_def process_handled decoded_def)
  then show ?thesis using m a run by (intro delivered[of envl res]) (auto simp: delivery_of_def)
next
  case False
  then have "handledEvents (process (cn_bus x) q (cn_msg x)) = []" for q
    by (auto simp: process_handled decoded_def split: sum.splits)
  moreover have "Acked \<notin> set acts"
    using process_acked[of "cn_bus x" _ "cn_msg x"] False assms by (fastforce simp: consumeOne_def Let_def decoded_def)
  ultimately show ?thesis using assms by (intro skipped) (auto simp: consumeOne_def Let_def)
qed

lemma consumeAll_delivers:
  assumes "consumeAll p actor h xs db = (acts, db')"
  shows "\<exists>ds rs. deliver_all ds db = (rs, db') \<and>
    (\<forall>d \<in> set ds. \<exists>x \<in> set xs. \<exists>envl. decoded x = Inr envl \<and> d = delivery_of p actor h x envl) \<and>
    (\<forall>(x, a) \<in> set (zip xs acts). Acked \<in> set a \<longrightarrow>
      (\<exists>envl r. decoded x = Inr envl \<and> (delivery_of p actor h x envl, r) \<in> set (zip ds rs) \<and> snd r = None))"
  using assms
proof (induction xs arbitrary: db acts)
  case Nil
  then show ?case by (intro exI[of _ "[]"]) simp
next
  case (Cons x xs)
  obtain a db1 where one: "consumeOne p actor h x db = (a, db1)" by fastforce
  obtain rest db2 where two: "consumeAll p actor h xs db1 = (rest, db2)" by fastforce
  have acts: "acts = a # rest" "db2 = db'" using Cons.prems one two by simp_all
  from Cons.IH[OF two[unfolded acts(2)]] obtain ds rs where
    d: "deliver_all ds db1 = (rs, db')"
      "\<forall>d \<in> set ds. \<exists>x \<in> set xs. \<exists>envl. decoded x = Inr envl \<and> d = delivery_of p actor h x envl"
      "\<forall>(x, a) \<in> set (zip xs rest). Acked \<in> set a \<longrightarrow>
        (\<exists>envl r. decoded x = Inr envl \<and> (delivery_of p actor h x envl, r) \<in> set (zip ds rs) \<and> snd r = None)" by blast
  from one show ?case
  proof (cases rule: consumeOne_cases)
    case skipped
    then show ?thesis using d acts(1) by (intro exI[of _ ds] exI[of _ rs]) auto
  next
    case (delivered envl res)
    let ?d = "delivery_of p actor h x envl"
    have "deliver_all (?d # ds) db = (res # rs, db')" using delivered(2) d(1) by (auto split: prod.splits)
    moreover have "\<forall>y \<in> set (?d # ds). \<exists>x' \<in> set (x # xs). \<exists>envl. decoded x' = Inr envl \<and> y = delivery_of p actor h x' envl"
      using d(2) delivered(1) by auto
    moreover have "\<exists>envl r. decoded y = Inr envl \<and> (delivery_of p actor h y envl, r) \<in> set (zip (?d # ds) (res # rs)) \<and> snd r = None"
      if "(y, b) \<in> set (zip (x # xs) acts)" "Acked \<in> set b" for y b
    proof (cases "(y, b) = (x, a)")
      case True
      then show ?thesis using delivered(1,3) that(2) by (intro exI[of _ envl] exI[of _ res]) simp
    next
      case False
      then have "(y, b) \<in> set (zip xs rest)" using that(1) acts(1) by auto
      from bspec[OF d(3) this] that(2) show ?thesis by auto
    qed
    ultimately show ?thesis by (intro exI[of _ "?d # ds"] exI[of _ "res # rs"]) blast
  qed
qed

lemma sent_was_added:
  assumes codec: "\<And>x b. marshal x = Inr b \<Longrightarrow> unmarshal b = Inr x"
    and "(sys_step marshal unmarshal s)\<^sup>*\<^sup>* empty_sys S"
  shows "set (sent S) \<subseteq> (\<lambda>e. the (Envelope e)) ` set (added S) \<and> (\<forall>e \<in> set (added S). EventId (the (Envelope e)) = ID e)"
  using assms(2)
proof (induction rule: rtranclp_induct)
  case base
  then show ?case by (simp add: empty_sys_def)
next
  case (step S1 S2)
  have inv: "sys_inv unmarshal S1" using codec step(1) by (rule reachable_inv)
  from step(2) show ?case
  proof cases
    case (sys_add insErr now event actor rows')
    then have "EventId (the (Envelope event)) = ID event" by (auto simp: AddTx_def split: if_splits)
    with step.IH sys_add show ?thesis by auto
  next
    case (sys_publish e sent')
    then have "e \<in> set (added S1)" using inv by (auto simp: sys_inv_def)
    with step.IH sys_publish show ?thesis by auto
  qed (use step.IH in auto)
qed

lemma list_all2_choice: "\<forall>x \<in> set xs. \<exists>y. P x y \<Longrightarrow> \<exists>ys. list_all2 P xs ys"
  by (induction xs) (auto simp: list_all2_Cons1)

lemma apply_all_effects:
  "list_all2 (\<lambda>d e. d_handler d = Some (h (the (Envelope e)))) ds es \<Longrightarrow> apply_all ds d = effects h es d"
  by (induction ds es arbitrary: d rule: list_all2_induct) (auto split: prod.splits option.splits)


text \<open>The delivery brought the added event.\<close>

definition brings :: "consumerProcessor \<Rightarrow> (EventEnvelope \<Rightarrow> 'd handler) \<Rightarrow> outbox_sys \<Rightarrow> 'd delivery \<Rightarrow> Event \<Rightarrow> bool" where
  "brings p h S d e \<longleftrightarrow>
     e \<in> set (added S) \<and> d_handler d = Some (h (the (Envelope e))) \<and> d_key d = inboxKey (cp_durable p) (the (Envelope e))"

lemma brings_all:
  assumes "list_all2 (brings p h S) ds es" "\<forall>e \<in> set (added S). EventId (the (Envelope e)) = ID e" "distinct (map d_key ds)"
  shows "set es \<subseteq> set (added S) \<and> distinct (map ID es) \<and> apply_all ds d = effects h es d"
proof -
  have "set es \<subseteq> set (added S)" using assms(1) by (auto simp: list_all2_conv_all_nth in_set_conv_nth brings_def)
  moreover have "map d_key ds = map (\<lambda>i. \<lparr>Consumer = cp_durable p, EventID = i\<rparr>) (map ID es)"
    using assms(1,2) by (induction ds es rule: list_all2_induct) (auto simp: inboxKey_def brings_def)
  then have "distinct (map ID es)" using assms(3) by (metis distinct_map)
  moreover have "list_all2 (\<lambda>d e. d_handler d = Some (h (the (Envelope e)))) ds es"
    using assms(1) by (rule list_all2_mono) (simp add: brings_def)
  ultimately show ?thesis by (simp add: apply_all_effects[of h])
qed

lemma brings_unique:
  assumes "sys_inv unmarshal S" "\<forall>e \<in> set (added S). EventId (the (Envelope e)) = ID e"
    and "brings p h S y ev" "d_key y = inboxKey (cp_durable p) (the (Envelope ev'))" "ev' \<in> set (added S)"
  shows "ev = ev'"
proof -
  have "ID ev = ID ev'" using assms(2-5) by (auto simp: inboxKey_def brings_def)
  then show ?thesis using assms(1,3,5) by (auto simp: sys_inv_def distinct_map inj_on_def brings_def)
qed

lemma acknowledged_key:
  "exactly_once ds rs db db' run \<Longrightarrow> completed_in (inbox_rows db) = {} \<Longrightarrow> (d, r) \<in> set (zip ds rs) \<Longrightarrow> snd r = None \<Longrightarrow>
     \<exists>y \<in> set run. d_key y = d_key d"
  by (force simp: exactly_once_def acknowledged_def list_all2_iff)

definition demo_consumption :: consumption where
  "demo_consumption = \<lparr>cn_bus = demo_bus_env\<lparr>unmarshalEnvelope := demo_unmarshal\<rparr>, cn_inbox = quiet_env 5, cn_msg = demo_message ''e1''\<rparr>"

end
