(* ===== verification/Spec2Isabelle.thy ===== *)
theory Spec2Isabelle
  imports Idempotency_GRPC Inbox Outbox EventBus Tree_Build Registrant Distlock Cache Authz
    Route_Policy Recorders Providers App_Access Dynamic_Config Dictionary Dynamic_GRPC Outbox_Drain Event_Flow
begin

text \<open>
  \<^bold>\<open>The shared Go module of a microservice platform.\<close>

  The module is a library that every service of the platform links: it has no main program. Its parts
  are used side by side by one service process, against a SQL database, Redis, a NATS JetStream bus and
  other services reached by gRPC.

  \<^bold>\<open>The program's parts and where they are modelled.\<close>

  \<^item> Events. A service adds an event to its \<open>outbox\<close> table in the transaction of its own
    writes; dispatchers claim rows under a lease, publish the envelopes on the \<open>eventbus\<close> and
    mark them; consumers of the bus run a handler for each message, usually through the \<open>inbox\<close>,
    which records completed events in the transaction of the handler's writes; retention cleaners
    delete old rows on both sides. \<open>Envelope\<close> (\<open>eventbus/envelope.go\<close>), \<open>EventBus\<close>
    (\<open>eventbus/config.go\<close>, \<open>bus.go\<close>, \<open>consumer.go\<close>), \<open>SQL_Table\<close>
    (tables and statements with their faults), \<open>Outbox\<close> (\<open>outbox/\<close>), \<open>Inbox\<close>
    (\<open>inbox/\<close>), \<open>Retention\<close> (the cleaning loop of both), \<open>Outbox_Drain\<close> (progress of the
    dispatcher) and \<open>Event_Flow\<close> (the three put together).
  \<^item> Requests. \<open>authn\<close> turns credentials into a principal, \<open>authz\<close> and
    \<open>routepolicy\<close> decide whether it may go on, \<open>appaccess\<close> asks whether its tenant has the
    application, \<open>idempotency\<close> makes a repeated call return the first call's response.
    \<open>Principal\<close> (\<open>principal/\<close>, \<open>audit/\<close>), \<open>Authn\<close>, \<open>Authz\<close>,
    \<open>Route_Policy\<close> with \<open>Stable_ID\<close> (\<open>stableid/\<close>), \<open>App_Access\<close>,
    \<open>Redis\<close> (the commands the code relies on), \<open>Idempotency\<close> (\<open>manager.go\<close>) and
    \<open>Idempotency_GRPC\<close> (\<open>grpc.go\<close>, \<open>context.go\<close>).
  \<^item> Presence and configuration. \<open>Discovery\<close> and \<open>Registrant\<close>
    (\<open>serviceregistry/\<close>), \<open>Distlock\<close> (\<open>distlock/\<close>), \<open>Dictionary\<close>
    (\<open>dictionaryprovider/\<close>, which elects a leader with \<open>distlock\<close>), \<open>Providers\<close>
    (\<open>exportprovider/\<close>, \<open>importprovider/\<close>), \<open>Dynamic_Config\<close>
    (\<open>dynamicconfig/\<close>, invalidated by events), \<open>Cache\<close> (\<open>cache/\<close>).
  \<^item> Records of what happened. \<open>Redact\<close> (\<open>redact/\<close>) and \<open>Recorders\<close>
    (\<open>operationlog/\<close>, \<open>securitylog/\<close>, which redact and publish).
  \<^item> Tools. \<open>Tree_Build\<close> (\<open>tree/\<close>), \<open>Dynamic_GRPC\<close>
    (\<open>dynamicgrpc/\<close> and the codes of \<open>errorcode/\<close>).

  \<^bold>\<open>How the code is modelled.\<close> \<open>Go_Prelude\<close>, \<open>Go_Strings\<close>, \<open>Go_Path\<close> and
  \<open>Go_Text\<close> hold what is used of Go and its standard library: error values with their wrapping and
  \<open>errors.Is\<close>, durations as 64-bit integers of nanoseconds that wrap around, byte strings with the
  UTF-8 rules behind trimming, truncation and lower case, and \<open>path.Match\<close>. A struct is a record, an
  error result is a value of \<open>goerr + 'a\<close> or a \<open>goerr option\<close>, and an operation that changes
  state returns the new state. Names are the source's, with a suffix where two packages share one.

  Services and libraries outside the repository are parameters: the Redis server, go-redis, redsync, the
  registry, the protobuf and JSON encoders, the JWT library, CEL, the UUID library, gRPC reflection. What
  the code relies on is stated as a hypothesis or as a locale's assumptions (\<open>redis_server\<close>,
  \<open>kv_server\<close>, \<open>redsync_server\<close>), each with a concrete instance that shows the laws can be
  met. Where one component relies on another, the contract is a locale interpreted on the component's own
  model: \<open>manager_contract\<close> (the interceptor's view of the idempotency manager),
  \<open>outbox_interface\<close> (the dispatcher's store and bus), \<open>bounded_cleanup\<close> (a cleaner's store),
  \<open>dataset_rules\<close> (the normalisation shared by exports and imports).

  Faults are inputs. A statement, a commit, a command or a call comes with its fate, including the answer
  that is lost after the effect took place, and the theorems hold for all fates unless they say otherwise.
  Concurrency is interleaving of whole operations (\<open>sys_step\<close> of the outbox, sequences of
  operations on Redis, commands of several cache stores); where the code reads shared state twice, or asks
  and stores in two steps, the steps are apart (\<open>Get_config\<close>, \<open>Refresh\<close> and
  \<open>cfg_step\<close> of \<open>Dynamic_Config\<close>). Time is part of the contracts that depend on
  it: records and cache entries expire. Background goroutines are loops over the list of their ticks and
  answers. Loops that may run for ever return an option (\<open>RunOnce_retention\<close>,
  \<open>Walk\<close>, both shown to return) or run over a given finite list of rounds of the environment,
  so that every theorem about them holds for runs of any length. Nothing else needs fuel.

  \<^bold>\<open>What the theorems show.\<close>

  \<^item> Delivery: no event added to the outbox is lost, a claimed event is not claimed again within its
    lease, the dispatcher only takes steps the outbox system allows and failures stay isolated; the bus
    drops no message silently and its retry delays are bounded; the inbox applies every event at most
    once and remembers it; cleaning ends and removes only what is old and finished; a backlog is worked off
    while nothing fails (the conditions are in each theorem: where a statement is about a healthy
    database or an uninterrupted run, it says so). Put together (in this theory): whatever is repeated, reordered or lost, a consumer's
    domain is that of handling some of the added events once each, and acknowledged events are among them.
  \<^item> Idempotency: one owner per key, stale owners change nothing, operations refine an abstract record,
    completed calls are replayed and their handlers not run again as long as Redis works, the response fits and
    the record lives.
  \<^item> Access: authentication lets nobody unidentified through and a key-protected target is not entered
    otherwise; authorization, route policies and application access fail closed.
  \<^item> Presence: a picked instance is fresh and healthy, watched changes act like updates of a map, the
    snapshot file is never torn, registrants leave cleanly and renew in time; locks exclude; the cache
    refines a map with deadlines, apart for stores with apart prefixes; after a change event the dynamic
    configuration client serves only later responses, but for one in flight.
  \<^item> Confidentiality: redaction hides exactly the values under sensitive keys, and neither log carries
    them.
  \<^item> Data: trees are accepted exactly when they are forests and are listed completely; provider metadata
    with valid UTF-8 titles and cached values within their lifetime are read back as written; route identifiers
    depend on the route's identity only; dynamic calls are made only after the method was found unary.

  \<^bold>\<open>Not modelled.\<close> Adapters that only pass a call on (the dictionary registry's gRPC client, the
  trace carrier of the consumer, the wrapped server stream), getters (\<open>Until\<close> of a lock,
  \<open>Active\<close> as a function of its own), log messages,
  and the text of SQL statements other than the inbox's insertion: statements are modelled by what they do
  to the table. Mutexes inside one process are modelled by running the guarded operation as one step.
  Integration tests under \<open>integration/\<close> are tests.
\<close>

section \<open>Across components\<close>

text \<open>C5. From the outbox to the domain. Whatever the services, dispatchers and cleaners of the outbox did, and however the
  bus repeats, reorders and drops the messages it was sent, whatever fails in the databases: the consumer's domain
  is as if the handlers of some of the added events had run one after the other, each event once and
  successfully; every message that was acknowledged carried one of them; and every added event is on the bus or
  still pending in the outbox.\<close>

theorem events_end_to_end:
  assumes codec: "\<And>x b. marshal x = Inr b \<Longrightarrow> unmarshal b = Inr x"
    and "(sys_step marshal unmarshal s)\<^sup>*\<^sup>* empty_sys S"
    and "\<forall>x \<in> set xs. \<forall>envl. decoded x = Inr envl \<longrightarrow> envl \<in> set (sent S)"
    and "unique_keys (inbox_rows db)" "completed_in (inbox_rows db) = {}"
    and "consumeAll p actor h xs db = (acts, db')"
  shows "\<exists>es. set es \<subseteq> set (added S) \<and> distinct (map Event.ID es) \<and> effects h es (domain db) = Some (domain db') \<and>
    (\<forall>(x, a) \<in> set (zip xs acts). Acked \<in> set a \<longrightarrow> (\<exists>ev \<in> set es. decoded x = Inr (the (Envelope ev)))) \<and>
    (\<forall>ev \<in> set (added S). the (Envelope ev) \<in> set (sent S) \<or> (\<exists>r \<in> set (o_rows S). id_col r = Event.ID ev \<and> published_at r = None))"
proof -
  from consumeAll_delivers[OF assms(6)] obtain ds rs where
    d: "deliver_all ds db = (rs, db')"
      "\<forall>d \<in> set ds. \<exists>x \<in> set xs. \<exists>envl. decoded x = Inr envl \<and> d = delivery_of p actor h x envl"
      "\<forall>(x, a) \<in> set (zip xs acts). Acked \<in> set a \<longrightarrow>
        (\<exists>envl r. decoded x = Inr envl \<and> (delivery_of p actor h x envl, r) \<in> set (zip ds rs) \<and> snd r = None)"
    by (elim exE conjE)
  obtain run where run: "exactly_once ds rs db db' run" using deliver_all_once[OF assms(4) d(1)] by (elim exE conjE)
  note added = sent_was_added[OF codec assms(2)]
  have inv: "sys_inv unmarshal S" using codec assms(2) by (rule reachable_inv)
  have from_bus: "\<exists>e \<in> set (added S). envl = the (Envelope e)" if "x \<in> set xs" "decoded x = Inr envl" for x envl
    using that assms(3) added by blast
  have "\<exists>e. brings p h S y e" if "y \<in> set run" for y
  proof -
    have "y \<in> set ds" using run that by (auto simp: exactly_once_def dest: list_emb_set)
    with d(2) obtain x envl where x: "x \<in> set xs" "decoded x = Inr envl" "y = delivery_of p actor h x envl" by blast
    then show ?thesis using from_bus[OF x(1,2)] by (auto simp: delivery_of_def brings_def)
  qed
  then obtain es where es: "list_all2 (brings p h S) run es" using list_all2_choice[of run "brings p h S"] by blast
  have acked: "\<exists>ev \<in> set es. decoded x = Inr (the (Envelope ev))" if xa: "(x, a) \<in> set (zip xs acts)" "Acked \<in> set a" for x a
  proof -
    from bspec[OF d(3) xa(1)] xa(2) obtain envl r where e: "decoded x = Inr envl"
      "(delivery_of p actor h x envl, r) \<in> set (zip ds rs)" "snd r = None" by auto
    obtain y where y: "y \<in> set run" "d_key y = inboxKey (cp_durable p) envl"
      using acknowledged_key[OF run assms(5) e(2,3)] by (auto simp: delivery_of_def)
    obtain ev where ev: "ev \<in> set es" "brings p h S y ev" using es y(1) by (metis in_set_conv_nth list_all2_conv_all_nth)
    obtain ev' where ev': "ev' \<in> set (added S)" "envl = the (Envelope ev')" using from_bus e(1) set_zip_leftD[OF xa(1)] by blast
    then show ?thesis using brings_unique[OF inv _ ev(2)] added y(2) ev(1) e(1) by blast
  qed
  have "the (Envelope ev) \<in> set (sent S) \<or> (\<exists>r \<in> set (o_rows S). id_col r = Event.ID ev \<and> published_at r = None)" if "ev \<in> set (added S)" for ev
    using that inv by (force simp: sys_inv_def pending_ids_def)
  moreover have "set es \<subseteq> set (added S) \<and> distinct (map Event.ID es) \<and> effects h es (domain db) = Some (domain db')"
    using brings_all[OF es _, of "domain db"] added run by (simp add: exactly_once_def)
  ultimately show ?thesis using acked by (intro exI[of _ es] conjI) auto
qed

theorem events_end_to_end_witness:
  "domain (snd (consumeAll demo_bus_processor ''svc'' (\<lambda>_. demo_count) [demo_consumption, demo_consumption] demo_inbox)) = 1 \<and>
   (\<exists>es. set es \<subseteq> {demo_outbox_event ''e1''} \<and> distinct (map Event.ID es) \<and> effects (\<lambda>_. demo_count) es 0 = Some 1)"
proof -
  let ?out = "consumeAll demo_bus_processor ''svc'' (\<lambda>_. demo_count) [demo_consumption, demo_consumption] demo_inbox"
  have d: "domain (snd ?out) = 1" by code_simp
  have b: "\<forall>x \<in> set [demo_consumption, demo_consumption]. \<forall>envl. decoded x = Inr envl \<longrightarrow> envl \<in> set [demo_envelope ''e1'']"
    by (simp add: decoded_def demo_consumption_def demo_unmarshal_def demo_message_def)
  have u: "unique_keys (inbox_rows demo_inbox)" "completed_in (inbox_rows demo_inbox) = {}" "domain demo_inbox = 0"
    by (simp_all add: demo_inbox_def unique_keys_def completed_in_def status_of_def sql_find_def)
  have "?out = (fst ?out, snd ?out)" by simp
  from events_end_to_end[OF demo_codec demo_published _ u(1,2) this] b d u(3) show ?thesis by auto
qed

end
